(* ===== verification/Vma_Prelude.thy ===== *)
theory Vma_Prelude
  imports Main "HOL-Library.Word" "HOL-Library.Monad_Syntax"
begin

text \<open>
  Shared vocabulary of the development: names for the fixed-width integers of
  \<^verbatim>\<open>src/src/vma/lwip/arch/cc.h\<close>, C booleans, the signed wrap-around used for
  s32_t arithmetic, the collections of rewrite rules the component theories
  fill, and the generic lemmas on words, lists and options they share.
\<close>

unbundle bit_operations_syntax

type_synonym u8 = "8 word"
type_synonym u16 = "16 word"
type_synonym u32 = "32 word"
type_synonym u64 = "64 word"

named_theorems seq_simps \<open>serial-number comparisons as comparisons of offsets\<close>
named_theorems hdr_simps \<open>reading and writing TCP header fields\<close>
named_theorems step_simps \<open>one-step unfoldings of the model's operations\<close>
named_theorems cov_simps \<open>bytes covered by queues of blocks\<close>

section \<open>Signed machine integers\<close>

text \<open>The value an s32_t variable holds after an assignment of the
  mathematical integer \<open>x\<close> (two's complement wrap-around).\<close>

definition s32 :: "int \<Rightarrow> int" where
  "s32 x = signed_take_bit 31 x"

definition s16 :: "int \<Rightarrow> int" where
  "s16 x = signed_take_bit 15 x"

lemma s32_id [simp]: "- 2147483648 \<le> x \<Longrightarrow> x < 2147483648 \<Longrightarrow> s32 x = x"
  unfolding s32_def by (rule signed_take_bit_int_eq_self) simp_all

lemma s16_id [simp]: "- 32768 \<le> x \<Longrightarrow> x < 32768 \<Longrightarrow> s16 x = x"
  unfolding s16_def by (rule signed_take_bit_int_eq_self) simp_all

lemma s32_bounds: "- 2147483648 \<le> s32 x \<and> s32 x < 2147483648"
  using signed_take_bit_int_greater_eq_minus_exp [of 31 x]
    signed_take_bit_int_less_exp [of 31 x]
  unfolding s32_def by simp

section \<open>Words\<close>

lemma unat_lt32 [simp]: "unat (x :: u32) < 4294967296"
  using unsigned_less [of x, where 'a=nat] by simp

lemma unat_lt16 [simp]: "unat (x :: u16) < 65536"
  using unsigned_less [of x, where 'a=nat] by simp

lemma unat_of_nat32: "n < 4294967296 \<Longrightarrow> unat (of_nat n :: u32) = n"
  by (simp add: unsigned_of_nat take_bit_nat_eq_self)

lemma unat_of_nat16: "n < 65536 \<Longrightarrow> unat (of_nat n :: u16) = n"
  by (simp add: unsigned_of_nat take_bit_nat_eq_self)

lemma unat_plus32:
  "unat x + unat (y :: u32) < 4294967296 \<Longrightarrow> unat (x + y) = unat x + unat y"
  by (simp add: unat_word_ariths)

lemma unat_minus_le: "y \<le> x \<Longrightarrow> unat (x - y) = unat x - unat (y :: 'a :: len word)"
  by (simp add: unat_sub word_le_nat_alt)

lemma unat_minus32:
  "unat (y :: u32) \<le> unat x \<Longrightarrow> unat (x - y) = unat x - unat y"
  by (simp add: unat_minus_le word_le_nat_alt)

lemma unat_Suc16: "unat (n :: u16) < 65535 \<Longrightarrow> unat (n + 1) = Suc (unat n)"
  by (simp add: unat_word_ariths)

lemma unat_pred16: "0 < unat (n :: u16) \<Longrightarrow> unat (n - 1) = unat n - 1"
  by (simp add: unat_minus_le word_le_nat_alt)

lemma word_eq_unat: "(x = y) = (unat x = unat (y :: 'a :: len word))"
  by (simp add: word_unat_eq_iff)

lemma sint_neg_iff32: "(sint (w :: u32) < 0) = (2147483648 \<le> unat w)"
proof -
  have s: "sint w = (uint w + 2147483648) mod 4294967296 - 2147483648"
    by (simp add: sint_uint signed_take_bit_eq_take_bit_shift take_bit_eq_mod)
  have b: "0 \<le> uint w" "uint w < 4294967296"
    using uint_lt2p [of w] by simp_all
  have "sint w = (if uint w < 2147483648 then uint w else uint w - 4294967296)"
  proof (cases "uint w < 2147483648")
    case True
    then show ?thesis using s b by (simp add: mod_pos_pos_trivial)
  next
    case False
    have "(uint w + 2147483648) mod 4294967296
        = (uint w + 2147483648 - 4294967296) mod 4294967296"
      by (rule minus_mod_self2 [symmetric])
    also have "\<dots> = uint w + 2147483648 - 4294967296"
      using False b by (intro mod_pos_pos_trivial) linarith+
    finally show ?thesis using False s by simp
  qed
  then have "(sint w < 0) = (2147483648 \<le> uint w)"
    using b by (simp split: if_splits)
  moreover have "uint w = int (unat w)" by simp
  ultimately show ?thesis by linarith
qed

lemma sint_zero_iff32: "(sint (w :: u32) = 0) = (w = 0)"
  by (simp add: signed_eq_0_iff)

lemma unat_ucast32_64 [simp]: "unat (ucast (x :: u32) :: u64) = unat x"
proof -
  have "unat x < 2 ^ 64" by (rule less_trans [OF unat_lt32]) simp
  then show ?thesis by (simp add: unsigned_ucast_eq take_bit_nat_eq_self)
qed

lemma unat_ucast64_32: "unat (x :: u64) < 4294967296 \<Longrightarrow> unat (ucast x :: u32) = unat x"
  by (simp add: unsigned_ucast_eq take_bit_nat_eq_self)

lemma unat_ucast16_32 [simp]: "unat (ucast (x :: u16) :: u32) = unat x"
  by (simp add: unsigned_ucast_eq take_bit_nat_eq_self order_less_trans [OF unat_lt16])

lemma uint_less_int: "(uint (x :: 'a::len word) < int n) = (unat x < n)"
proof -
  have "uint x = int (unat x)" by simp
  then show ?thesis by (simp only: of_nat_less_iff)
qed

lemma sint_small: "unat (w :: u32) < 2147483648 \<Longrightarrow> sint w = int (unat w)"
proof -
  assume "unat w < 2147483648"
  then have l: "uint w < 2147483648" using uint_less_int [of w 2147483648] by simp
  have "- (2 ^ 31) \<le> uint w" by (rule order.trans [of _ 0]) simp_all
  then have "signed_take_bit 31 (uint w) = uint w" using l by (intro signed_take_bit_int_eq_self) simp_all
  then show ?thesis by (simp add: sint_uint)
qed

end
