(* ===== verification/Lwip_Seq.thy ===== *)
theory Lwip_Seq
  imports Vma_Prelude
begin

text \<open>
  TCP sequence numbers: the comparison macros of
  \<^verbatim>\<open>src/src/vma/lwip/tcp_impl.h\<close>.  They subtract modulo 2^32 and look at the
  sign, so they order the numbers of any half of the circle.  The rules in
  \<open>seq_simps\<close> turn them into comparisons of natural-number offsets from a
  common base, which is how every other theory reasons about them.
\<close>

definition TCP_SEQ_LT :: "u32 \<Rightarrow> u32 \<Rightarrow> bool" where
  "TCP_SEQ_LT a b = (sint (a - b) < 0)"

definition TCP_SEQ_LEQ :: "u32 \<Rightarrow> u32 \<Rightarrow> bool" where
  "TCP_SEQ_LEQ a b = (sint (a - b) \<le> 0)"

definition TCP_SEQ_GT :: "u32 \<Rightarrow> u32 \<Rightarrow> bool" where
  "TCP_SEQ_GT a b = (0 < sint (a - b))"

definition TCP_SEQ_GEQ :: "u32 \<Rightarrow> u32 \<Rightarrow> bool" where
  "TCP_SEQ_GEQ a b = (0 \<le> sint (a - b))"

definition TCP_SEQ_BETWEEN :: "u32 \<Rightarrow> u32 \<Rightarrow> u32 \<Rightarrow> bool" where
  "TCP_SEQ_BETWEEN a b c = (TCP_SEQ_GEQ a b \<and> TCP_SEQ_LEQ a c)"

lemmas seq_defs = TCP_SEQ_LT_def TCP_SEQ_LEQ_def TCP_SEQ_GT_def TCP_SEQ_GEQ_def
  TCP_SEQ_BETWEEN_def

section \<open>The comparisons on the circle\<close>

lemma seq_lt_unat: "TCP_SEQ_LT a b = (2147483648 \<le> unat (a - b))"
  by (simp add: TCP_SEQ_LT_def sint_neg_iff32)

lemma seq_leq_iff: "TCP_SEQ_LEQ a b = (a = b \<or> TCP_SEQ_LT a b)"
  by (auto simp: TCP_SEQ_LEQ_def TCP_SEQ_LT_def le_less sint_zero_iff32)

lemma seq_gt_iff: "TCP_SEQ_GT a b = (\<not> TCP_SEQ_LEQ a b)"
  by (auto simp: TCP_SEQ_GT_def TCP_SEQ_LEQ_def)

lemma seq_geq_iff: "TCP_SEQ_GEQ a b = (\<not> TCP_SEQ_LT a b)"
  by (auto simp: TCP_SEQ_GEQ_def TCP_SEQ_LT_def)

lemma seq_leq_refl [simp]: "TCP_SEQ_LEQ a a"
  by (simp add: TCP_SEQ_LEQ_def)

lemma seq_lt_irrefl [simp]: "\<not> TCP_SEQ_LT a a"
  by (simp add: TCP_SEQ_LT_def)

section \<open>Offsets from a base\<close>

definition seq_off :: "u32 \<Rightarrow> u32 \<Rightarrow> nat" where
  "seq_off base x = unat (x - base)"

abbreviation near :: "u32 \<Rightarrow> u32 \<Rightarrow> bool" where
  "near base x \<equiv> seq_off base x < 2147483648"

lemma unat_diff_cases:
  "unat (a - b) = (if unat b \<le> unat a then unat a - unat b
     else 4294967296 + unat a - unat (b :: u32))"
proof (cases "unat b \<le> unat a")
  case True
  then show ?thesis by (simp add: unat_minus32)
next
  case False
  have "unat (a - b) + unat b = unat a + 4294967296"
  proof -
    have u: "uint a = int (unat a)" "uint b = int (unat b)" "uint (a - b) = int (unat (a - b))"
      by simp_all
    have "uint (a - b) = (uint a - uint b) mod 4294967296"
      by (simp add: uint_word_ariths)
    also have "\<dots> = (uint a - uint b + 4294967296) mod 4294967296"
      by simp
    also have "\<dots> = uint a - uint b + 4294967296"
      using False unat_lt32 [of a] unat_lt32 [of b]
      by (intro mod_pos_pos_trivial) (unfold u, linarith+)
    finally show ?thesis unfolding u by linarith
  qed
  then show ?thesis using False by simp
qed

lemma seq_off_diff: "a - b = (a - base) - (b - base)" for a b base :: u32
  by simp

lemma seq_lt_near [seq_simps]:
  "near base a \<Longrightarrow> near base b \<Longrightarrow>
   TCP_SEQ_LT a b = (seq_off base a < seq_off base b)"
  unfolding seq_lt_unat seq_off_def
  by (subst seq_off_diff [of a b base], subst unat_diff_cases) auto

lemma seq_off_inject: "(seq_off base a = seq_off base b) = (a = b)"
  by (simp add: seq_off_def word_unat_eq_iff [symmetric])

lemma seq_leq_near [seq_simps]:
  "near base a \<Longrightarrow> near base b \<Longrightarrow>
   TCP_SEQ_LEQ a b = (seq_off base a \<le> seq_off base b)"
  by (auto simp: seq_leq_iff seq_lt_near le_less seq_off_inject)

lemma seq_gt_near [seq_simps]:
  "near base a \<Longrightarrow> near base b \<Longrightarrow>
   TCP_SEQ_GT a b = (seq_off base b < seq_off base a)"
  by (simp add: seq_gt_iff seq_leq_near not_le)

lemma seq_geq_near [seq_simps]:
  "near base a \<Longrightarrow> near base b \<Longrightarrow>
   TCP_SEQ_GEQ a b = (seq_off base b \<le> seq_off base a)"
  by (simp add: seq_geq_iff seq_lt_near not_less)

lemma seq_off_zero [simp]: "seq_off 0 x = unat x"
  by (simp add: seq_off_def)

text \<open>Offsets that are themselves small (the TLT queue works with
  \<open>seqno - iss\<close>): the base is 0.\<close>

lemmas seq_leq_small = seq_leq_near [of 0, simplified]
lemmas seq_lt_small = seq_lt_near [of 0, simplified]

lemma seq_leq_add [simp]: "unat n < 2147483649 \<Longrightarrow> TCP_SEQ_LEQ a (a + n)"
  by (cases "n = 0") (auto simp: seq_leq_iff seq_lt_unat
      unat_diff_cases [of 0 n, simplified] unat_eq_0)

end
