(* ===== verification/Lwip_Hdr.thy ===== *)
theory Lwip_Hdr
  imports Lwip_Seq
begin

text \<open>
  The TCP header and the small enumerations of lwIP: byte order conversion
  (\<^verbatim>\<open>src/src/vma/lwip/def.h\<close>), error codes (\<^verbatim>\<open>err.h\<close>), connection states
  (\<^verbatim>\<open>tcp.h\<close>), the header struct and its access macros (\<^verbatim>\<open>tcp_impl.h\<close>).
  The build target is little endian, so htons swaps the two bytes and the
  16-bit word with header length and flags is kept in network order, as in
  the C struct.
\<close>

section \<open>Byte order\<close>

definition htons :: "u16 \<Rightarrow> u16" where
  "htons x = push_bit 8 x OR drop_bit 8 x"

definition ntohs :: "u16 \<Rightarrow> u16" where
  "ntohs x = htons x"

lemma ntohs_htons [simp, hdr_simps]: "ntohs (htons x) = x"
  unfolding ntohs_def htons_def
  by (rule bit_word_eqI) (auto simp: bit_simps)

lemma htons_ntohs [simp, hdr_simps]: "htons (ntohs x) = x"
  using ntohs_htons by (simp add: ntohs_def)

lemma ntohs_or [hdr_simps]: "ntohs (x OR y) = ntohs x OR ntohs y"
  unfolding ntohs_def htons_def
  by (rule bit_word_eqI) (auto simp: bit_simps)

lemma ntohs_and [hdr_simps]: "ntohs (x AND y) = ntohs x AND ntohs y"
  unfolding ntohs_def htons_def
  by (rule bit_word_eqI) (auto simp: bit_simps dest: bit_imp_le_length)

text \<open>The four bytes of a word in the order a little endian machine stores them, the word
  read back from four bytes, and the conversion of a 32 bit word to network order:
  the bytes in memory end up most significant first.\<close>

definition le_bytes :: "u32 \<Rightarrow> u8 list" where
  "le_bytes x = [ucast x, ucast (drop_bit 8 x), ucast (drop_bit 16 x), ucast (drop_bit 24 x)]"

definition le_word :: "u8 \<Rightarrow> u8 \<Rightarrow> u8 \<Rightarrow> u8 \<Rightarrow> u32" where
  "le_word a b c d = ucast a OR push_bit 8 (ucast b) OR push_bit 16 (ucast c) OR push_bit 24 (ucast d)"

definition htonl :: "u32 \<Rightarrow> u32" where
  "htonl x = le_word (ucast (drop_bit 24 x)) (ucast (drop_bit 16 x)) (ucast (drop_bit 8 x)) (ucast x)"

definition ntohl :: "u32 \<Rightarrow> u32" where
  "ntohl x = htonl x"

lemma le_word_bytes:
  "le_word (ucast x) (ucast (drop_bit 8 x)) (ucast (drop_bit 16 x)) (ucast (drop_bit 24 x)) = x"
proof (rule bit_word_eqI)
  fix n assume "n < LENGTH(32)"
  then have "n < 8 \<or> 8 \<le> n \<and> n < 16 \<or> 16 \<le> n \<and> n < 24 \<or> 24 \<le> n \<and> n < 32" by auto
  then show "bit (le_word (ucast x) (ucast (drop_bit 8 x)) (ucast (drop_bit 16 x)) (ucast (drop_bit 24 x))) n = bit x n"
    unfolding le_word_def by (elim disjE) (auto simp add: bit_simps)
qed

lemma le_word_nth [simp]:
  "(ucast (le_word a b c d) :: u8) = a" "(ucast (drop_bit 8 (le_word a b c d)) :: u8) = b"
  "(ucast (drop_bit 16 (le_word a b c d)) :: u8) = c" "(ucast (drop_bit 24 (le_word a b c d)) :: u8) = d"
  unfolding le_word_def
  by (rule bit_word_eqI, simp add: bit_simps, auto dest: bit_imp_le_length)+

lemma ntohl_htonl [simp, hdr_simps]: "ntohl (htonl x) = x"
  by (simp add: ntohl_def htonl_def le_word_bytes)

lemma htonl_ntohl [simp, hdr_simps]: "htonl (ntohl x) = x"
  using ntohl_htonl by (simp add: ntohl_def)

text \<open>Storing a word in network order lays its bytes out most significant first.\<close>

lemma le_bytes_htonl [hdr_simps]: "le_bytes (htonl x) = rev (le_bytes x)"
  by (simp add: le_bytes_def htonl_def)

lemma length_le_bytes [simp]: "length (le_bytes x) = 4"
  by (simp add: le_bytes_def)

lemma le_word_htonl [hdr_simps]:
  "ntohl (le_word (ucast (drop_bit 24 x)) (ucast (drop_bit 16 x)) (ucast (drop_bit 8 x)) (ucast x)) = x"
  using ntohl_htonl [of x] by (simp add: htonl_def)

section \<open>Error codes\<close>

datatype err = ERR_OK | ERR_MEM | ERR_BUF | ERR_TIMEOUT | ERR_RTE | ERR_INPROGRESS
  | ERR_VAL | ERR_WOULDBLOCK | ERR_ABRT | ERR_RST | ERR_CLSD | ERR_CONN | ERR_ARG
  | ERR_USE | ERR_IF | ERR_ISCONN

fun err_code :: "err \<Rightarrow> int" where
  "err_code ERR_OK = 0"
| "err_code ERR_MEM = -1"
| "err_code ERR_BUF = -2"
| "err_code ERR_TIMEOUT = -3"
| "err_code ERR_RTE = -4"
| "err_code ERR_INPROGRESS = -5"
| "err_code ERR_VAL = -6"
| "err_code ERR_WOULDBLOCK = -7"
| "err_code ERR_ABRT = -8"
| "err_code ERR_RST = -9"
| "err_code ERR_CLSD = -10"
| "err_code ERR_CONN = -11"
| "err_code ERR_ARG = -12"
| "err_code ERR_USE = -13"
| "err_code ERR_IF = -14"
| "err_code ERR_ISCONN = -15"

definition ERR_IS_FATAL :: "err \<Rightarrow> bool" where
  "ERR_IS_FATAL e = (err_code e < err_code ERR_VAL)"

section \<open>Connection states\<close>

datatype tcp_state = CLOSED | LISTEN | SYN_SENT | SYN_RCVD | ESTABLISHED | FIN_WAIT_1
  | FIN_WAIT_2 | CLOSE_WAIT | CLOSING | LAST_ACK | TIME_WAIT

fun state_code :: "tcp_state \<Rightarrow> nat" where
  "state_code CLOSED = 0"
| "state_code LISTEN = 1"
| "state_code SYN_SENT = 2"
| "state_code SYN_RCVD = 3"
| "state_code ESTABLISHED = 4"
| "state_code FIN_WAIT_1 = 5"
| "state_code FIN_WAIT_2 = 6"
| "state_code CLOSE_WAIT = 7"
| "state_code CLOSING = 8"
| "state_code LAST_ACK = 9"
| "state_code TIME_WAIT = 10"

instantiation tcp_state :: linorder
begin

definition less_eq_tcp_state :: "tcp_state \<Rightarrow> tcp_state \<Rightarrow> bool" where
  "s \<le> t \<longleftrightarrow> state_code s \<le> state_code t"

definition less_tcp_state :: "tcp_state \<Rightarrow> tcp_state \<Rightarrow> bool" where
  "s < t \<longleftrightarrow> state_code s < state_code t"

instance
proof
  fix s t :: tcp_state
  show "s \<le> t \<Longrightarrow> t \<le> s \<Longrightarrow> s = t"
    by (cases s; cases t) (simp_all add: less_eq_tcp_state_def)
qed (auto simp: less_eq_tcp_state_def less_tcp_state_def)

end

lemmas state_order = less_eq_tcp_state_def less_tcp_state_def

section \<open>The TCP header\<close>

record tcp_hdr =
  th_src :: u16
  th_dest :: u16
  th_seqno :: u32
  th_ackno :: u32
  th_hdrlen_rsvd_flags :: u16
  th_wnd :: u16
  th_chksum :: u16
  th_urgp :: u16

definition TCP_FIN :: u16 where "TCP_FIN = 0x01"
definition TCP_SYN :: u16 where "TCP_SYN = 0x02"
definition TCP_RST :: u16 where "TCP_RST = 0x04"
definition TCP_PSH :: u16 where "TCP_PSH = 0x08"
definition TCP_ACK :: u16 where "TCP_ACK = 0x10"
definition TCP_URG :: u16 where "TCP_URG = 0x20"
definition TCP_ECE :: u16 where "TCP_ECE = 0x40"
definition TCP_CWR :: u16 where "TCP_CWR = 0x80"
definition TCP_FLAGS :: u16 where "TCP_FLAGS = 0xff"
definition TCP_HLEN :: nat where "TCP_HLEN = 20"

lemmas tcp_flag_defs = TCP_FIN_def TCP_SYN_def TCP_RST_def TCP_PSH_def TCP_ACK_def
  TCP_URG_def TCP_ECE_def TCP_CWR_def TCP_FLAGS_def

definition TCPH_OFFSET :: "tcp_hdr \<Rightarrow> u16" where
  "TCPH_OFFSET h = drop_bit 8 (ntohs (th_hdrlen_rsvd_flags h))"

definition TCPH_HDRLEN :: "tcp_hdr \<Rightarrow> u16" where
  "TCPH_HDRLEN h = drop_bit 12 (ntohs (th_hdrlen_rsvd_flags h))"

definition TCPH_FLAGS :: "tcp_hdr \<Rightarrow> u16" where
  "TCPH_FLAGS h = ntohs (th_hdrlen_rsvd_flags h) AND TCP_FLAGS"

definition TCPH_HDRLEN_SET :: "tcp_hdr \<Rightarrow> u16 \<Rightarrow> tcp_hdr" where
  "TCPH_HDRLEN_SET h n = h\<lparr>th_hdrlen_rsvd_flags := htons (push_bit 12 n OR TCPH_FLAGS h)\<rparr>"

definition TCPH_FLAGS_SET :: "tcp_hdr \<Rightarrow> u16 \<Rightarrow> tcp_hdr" where
  "TCPH_FLAGS_SET h f = h\<lparr>th_hdrlen_rsvd_flags :=
     (th_hdrlen_rsvd_flags h AND htons (NOT TCP_FLAGS)) OR htons f\<rparr>"

definition TCPH_HDRLEN_FLAGS_SET :: "tcp_hdr \<Rightarrow> u16 \<Rightarrow> u16 \<Rightarrow> tcp_hdr" where
  "TCPH_HDRLEN_FLAGS_SET h n f = h\<lparr>th_hdrlen_rsvd_flags := htons (push_bit 12 n OR f)\<rparr>"

definition TCPH_SET_FLAG :: "tcp_hdr \<Rightarrow> u16 \<Rightarrow> tcp_hdr" where
  "TCPH_SET_FLAG h f = h\<lparr>th_hdrlen_rsvd_flags := th_hdrlen_rsvd_flags h OR htons f\<rparr>"

text \<open>The macro ORs the remaining flags into the word it read, where clearing
  a flag needs an AND.\<close>

definition TCPH_UNSET_FLAG :: "tcp_hdr \<Rightarrow> u16 \<Rightarrow> tcp_hdr" where
  "TCPH_UNSET_FLAG h f = h\<lparr>th_hdrlen_rsvd_flags :=
     htons (ntohs (th_hdrlen_rsvd_flags h) OR (TCPH_FLAGS h AND NOT f))\<rparr>"

definition has_flag :: "tcp_hdr \<Rightarrow> u16 \<Rightarrow> bool" where
  "has_flag h f = (TCPH_FLAGS h AND f \<noteq> 0)"

lemma TCPH_UNSET_FLAG_id: "TCPH_UNSET_FLAG h f = h"
proof -
  have "x OR ((x AND TCP_FLAGS) AND NOT f) = x" for x
    by (rule bit_word_eqI) (auto simp: bit_simps)
  then show ?thesis by (simp add: TCPH_UNSET_FLAG_def TCPH_FLAGS_def)
qed

lemma TCPH_FLAGS_SET_FLAG [hdr_simps]:
  "TCPH_FLAGS (TCPH_SET_FLAG h f) = TCPH_FLAGS h OR (f AND TCP_FLAGS)"
  by (simp add: TCPH_FLAGS_def TCPH_SET_FLAG_def ntohs_or bit.conj_disj_distrib2)

lemma TCPH_FLAGS_FLAGS_SET [hdr_simps]:
  "TCPH_FLAGS (TCPH_FLAGS_SET h f) = f AND TCP_FLAGS"
proof -
  have "((x AND NOT TCP_FLAGS) OR f) AND TCP_FLAGS = f AND TCP_FLAGS" for x
    by (rule bit_word_eqI) (auto simp: bit_simps)
  then show ?thesis
    by (simp add: TCPH_FLAGS_def TCPH_FLAGS_SET_def ntohs_or ntohs_and)
qed

lemma TCPH_HDRLEN_SET_FLAG [hdr_simps]:
  "drop_bit 12 f = 0 \<Longrightarrow> TCPH_HDRLEN (TCPH_SET_FLAG h f) = TCPH_HDRLEN h"
  by (simp add: TCPH_HDRLEN_def TCPH_SET_FLAG_def ntohs_or drop_bit_or)

lemma has_flag_SET_FLAG [hdr_simps]:
  "has_flag (TCPH_SET_FLAG h f) g = (has_flag h g \<or> f AND TCP_FLAGS AND g \<noteq> 0)"
  by (auto simp: has_flag_def TCPH_FLAGS_SET_FLAG bit.conj_disj_distrib2 or_eq_0_iff and.assoc)

end
