(* ===== verification/Lwip_Pbuf.thy ===== *)
theory Lwip_Pbuf
  imports Lwip_Seq
begin

text \<open>
  Packet buffers (\<^verbatim>\<open>src/src/vma/lwip/pbuf.c\<close>, \<^verbatim>\<open>pbuf.h\<close>).  A chain of pbufs is a list;
  the NULL pointer is the empty list.  A payload pointer is an offset into the
  bytes of the buffer it points into.  Length fields keep their C widths.
\<close>

datatype pbuf_type = PBUF_RAM | PBUF_ROM | PBUF_REF | PBUF_POOL

record pbuf =
  pb_buf :: "u8 list"
  pb_off :: int
  pb_len :: u16
  pb_tot_len :: u32
  pb_type :: pbuf_type
  pb_flags :: u8
  pb_ref :: u16

definition PBUF_FLAG_IS_CUSTOM :: u8 where "PBUF_FLAG_IS_CUSTOM = 0x02"

text \<open>The bytes a pbuf, and a chain, presents.\<close>

definition pb_data :: "pbuf \<Rightarrow> u8 list" where
  "pb_data p = take (unat (pb_len p)) (drop (nat (pb_off p)) (pb_buf p))"

definition chain_data :: "pbuf list \<Rightarrow> u8 list" where
  "chain_data ps = concat (map pb_data ps)"

section \<open>Freeing and references\<close>

text \<open>\<open>pbuf_free\<close>: the pbufs that are deallocated from the head, and the chain that
  stays.  The count it returns is a u8_t.\<close>

fun pbuf_free :: "pbuf list \<Rightarrow> pbuf list \<times> pbuf list" where
  "pbuf_free [] = ([], [])"
| "pbuf_free (p # ps) =
     (let r = pb_ref p - 1 in
      if r = 0 then (case pbuf_free ps of (freed, rest) \<Rightarrow> (p\<lparr>pb_ref := r\<rparr> # freed, rest))
      else ([], p\<lparr>pb_ref := r\<rparr> # ps))"

definition pbuf_free_count :: "pbuf list \<Rightarrow> u8" where
  "pbuf_free_count ps = of_nat (length (fst (pbuf_free ps)))"

fun pbuf_ref :: "pbuf list \<Rightarrow> pbuf list" where
  "pbuf_ref [] = []"
| "pbuf_ref (p # ps) = p\<lparr>pb_ref := pb_ref p + 1\<rparr> # ps"

fun pbuf_clen_from :: "u8 \<Rightarrow> pbuf list \<Rightarrow> u8" where
  "pbuf_clen_from n [] = n"
| "pbuf_clen_from n (p # ps) = pbuf_clen_from (n + 1) ps"

definition pbuf_clen :: "pbuf list \<Rightarrow> u8" where
  "pbuf_clen ps = pbuf_clen_from 0 ps"

section \<open>pbuf_realloc\<close>

text \<open>The loop that steps over the pbufs that stay: None when it runs off the chain.
  The second component is what was cut off, after pbuf_free.\<close>

fun realloc_walk :: "u16 \<Rightarrow> u32 \<Rightarrow> pbuf list \<Rightarrow> (pbuf list \<times> pbuf list) option" where
  "realloc_walk rem grow [] = None"
| "realloc_walk rem grow (q # qs) =
     (if rem > pb_len q then
        (case realloc_walk (rem - pb_len q) grow qs of None \<Rightarrow> None
         | Some (kept, rest) \<Rightarrow> Some (q\<lparr>pb_tot_len := pb_tot_len q + grow\<rparr> # kept, rest))
      else Some ([q\<lparr>pb_len := rem, pb_tot_len := ucast rem\<rparr>], snd (pbuf_free qs)))"

definition pbuf_realloc :: "pbuf list \<Rightarrow> u16 \<Rightarrow> (pbuf list \<times> pbuf list) option" where
  "pbuf_realloc ps new_len =
     (case ps of [] \<Rightarrow> None
      | p # _ \<Rightarrow>
        if pb_tot_len p \<le> ucast new_len then Some (ps, [])
        else realloc_walk new_len (ucast new_len - pb_tot_len p) ps)"

section \<open>pbuf_header\<close>

definition pbuf_header :: "pbuf \<Rightarrow> int \<Rightarrow> pbuf \<times> u8" where
  "pbuf_header p inc =
     (if inc = 0 then (p, 0)
      else if inc < 0 \<and> int (unat (pb_len p)) < - inc then (p, 1)
      else (p\<lparr>pb_off := pb_off p - inc, pb_len := pb_len p + of_int inc,
              pb_tot_len := pb_tot_len p + of_int inc\<rparr>, 0))"

section \<open>pbuf_cat and pbuf_split_64k\<close>

definition pbuf_cat :: "pbuf list \<Rightarrow> pbuf list \<Rightarrow> pbuf list" where
  "pbuf_cat h t =
     (if h = [] \<or> t = [] then h
      else map (\<lambda>p. p\<lparr>pb_tot_len := pb_tot_len p + pb_tot_len (hd t)\<rparr>) h @ t)"

fun split_walk :: "u32 \<Rightarrow> pbuf list \<Rightarrow> pbuf list \<times> pbuf list" where
  "split_walk front [] = ([], [])"
| "split_walk front (r # rs) =
     (if front + ucast (pb_len r) \<le> 0xffff
      then (case split_walk (front + ucast (pb_len r)) rs of (a, b) \<Rightarrow> (r # a, b))
      else ([], r # rs))"

definition pbuf_split_64k :: "pbuf list \<Rightarrow> pbuf list \<times> pbuf list" where
  "pbuf_split_64k ps =
     (if ps = [] \<or> pb_tot_len (hd ps) < 0xffff then (ps, [])
      else (case split_walk 0 ps of (a, b) \<Rightarrow>
              (if b = [] then a
               else map (\<lambda>p. p\<lparr>pb_tot_len := pb_tot_len p - pb_tot_len (hd b)\<rparr>) a, b)))"

section \<open>The invariant of a chain\<close>

text \<open>The comment at struct pbuf: \<open>p->tot_len == p->len + (p->next ? p->next->tot_len : 0)\<close>;
  here with the payload inside its buffer.\<close>

fun tot :: "pbuf list \<Rightarrow> nat" where
  "tot [] = 0"
| "tot (p # ps) = unat (pb_len p) + tot ps"

fun chain_ok :: "pbuf list \<Rightarrow> bool" where
  "chain_ok [] = True"
| "chain_ok (p # ps) = (unat (pb_tot_len p) = tot (p # ps) \<and> 0 \<le> pb_off p
     \<and> nat (pb_off p) + unat (pb_len p) \<le> length (pb_buf p) \<and> chain_ok ps)"

lemma length_pb_data:
  "nat (pb_off p) + unat (pb_len p) \<le> length (pb_buf p) \<Longrightarrow> length (pb_data p) = unat (pb_len p)"
  by (simp add: pb_data_def)

lemma chain_data_simps [simp]:
  "chain_data [] = []" "chain_data (p # ps) = pb_data p @ chain_data ps"
  "chain_data (ps @ qs) = chain_data ps @ chain_data qs"
  by (simp_all add: chain_data_def)

lemma length_chain_data: "chain_ok ps \<Longrightarrow> length (chain_data ps) = tot ps"
  by (induction ps) (auto simp: length_pb_data)

lemma tot_append [simp]: "tot (ps @ qs) = tot ps + tot qs"
  by (induction ps) auto

lemma pb_data_tot [simp]: "pb_data (p\<lparr>pb_tot_len := x\<rparr>) = pb_data p"
  by (simp add: pb_data_def)

lemma realloc_walk_ok:
  assumes "chain_ok ps" "unat rem < tot ps" "unat grow = 4294967296 - (tot ps - unat rem)"
    "tot ps < 4294967296"
  shows "\<exists>kept rest. realloc_walk rem grow ps = Some (kept, rest) \<and> chain_ok kept
    \<and> tot kept = unat rem \<and> kept \<noteq> [] \<and> chain_data kept = take (unat rem) (chain_data ps)"
  using assms
proof (induction rem grow ps rule: realloc_walk.induct)
  case (2 rem grow q qs)
  show ?case
  proof (cases "rem > pb_len q")
    case True
    then have lt: "unat (pb_len q) < unat rem" by (simp add: word_less_nat_alt)
    have ur: "unat (rem - pb_len q) = unat rem - unat (pb_len q)"
      using lt by (intro unat_minus_le) (simp add: word_le_nat_alt)
    have t: "tot (q # qs) = unat (pb_len q) + tot qs" by simp
    have "\<exists>kept rest. realloc_walk (rem - pb_len q) grow qs = Some (kept, rest) \<and> chain_ok kept
      \<and> tot kept = unat (rem - pb_len q) \<and> kept \<noteq> []
      \<and> chain_data kept = take (unat (rem - pb_len q)) (chain_data qs)"
      by (rule 2(1) [OF True]) (use 2(2-5) t lt ur in \<open>simp_all, linarith?\<close>)
    then obtain kept rest where
      IH: "realloc_walk (rem - pb_len q) grow qs = Some (kept, rest)" "chain_ok kept"
        "tot kept = unat rem - unat (pb_len q)" "kept \<noteq> []"
        "chain_data kept = take (unat rem - unat (pb_len q)) (chain_data qs)"
      unfolding ur by blast
    have "unat (pb_tot_len q + grow) = unat rem"
      using 2(2-5) by (simp add: unat_word_ariths)
    moreover have "length (pb_data q) = unat (pb_len q)" using 2(2) by (simp add: length_pb_data)
    ultimately show ?thesis using True IH lt 2(2) by (simp add: pb_data_def)
  next
    case False
    then have ge: "unat rem \<le> unat (pb_len q)" by (simp add: word_less_nat_alt)
    then show ?thesis using False 2(2) by (auto simp: pb_data_def min_def)
  qed
qed simp

lemma realloc_walk_keeps:
  "realloc_walk rem grow ps = Some (kept, rest) \<Longrightarrow> length kept \<le> length ps"
  by (induction rem grow ps arbitrary: kept rule: realloc_walk.induct)
    (auto split: if_splits option.splits)

lemma chain_tot_bound: "chain_ok ps \<Longrightarrow> tot ps < 4294967296"
  by (cases ps) (auto simp del: tot.simps(2) simp: unat_lt32 [of "pb_tot_len _"] dest!: sym [of "unat _"])

lemma split_walk_parts: "split_walk f ps = (a, b) \<Longrightarrow> ps = a @ b"
  by (induction f ps arbitrary: a b rule: split_walk.induct) (auto split: if_splits prod.splits)

lemma split_walk_bound:
  "split_walk f ps = (a, b) \<Longrightarrow> unat f \<le> 65535 \<Longrightarrow> unat f + tot a \<le> 65535"
proof (induction f ps arbitrary: a b rule: split_walk.induct)
  case (2 front r rs)
  have "unat front + unat (pb_len r) < 4294967296" using 2(3) unat_lt16 [of "pb_len r"] by linarith
  then have u: "unat (front + ucast (pb_len r)) = unat front + unat (pb_len r)"
    using unat_plus32 [of front "ucast (pb_len r)"] by simp
  show ?case
  proof (cases "front + ucast (pb_len r) \<le> 0xffff")
    case True
    obtain a' where a': "split_walk (front + ucast (pb_len r)) rs = (a', b)" "a = r # a'"
      using 2(2) True by (auto split: prod.splits)
    have "unat (front + ucast (pb_len r)) \<le> 65535" using True by (simp add: word_le_nat_alt)
    from 2(1) [OF True a'(1) this] show ?thesis using u a' by simp
  next
    case False
    then show ?thesis using 2 by simp
  qed
qed simp

lemma tot_map_tot_len [simp]: "tot (map (\<lambda>p. p\<lparr>pb_tot_len := f p\<rparr>) ps) = tot ps"
  by (induction ps) auto

lemma data_map_tot_len [simp]: "chain_data (map (\<lambda>p. p\<lparr>pb_tot_len := f p\<rparr>) ps) = chain_data ps"
  by (induction ps) auto

lemma chain_ok_suffix: "chain_ok (a @ b) \<Longrightarrow> chain_ok b"
  by (induction a) auto

lemma chain_hd_tot: "chain_ok b \<Longrightarrow> b \<noteq> [] \<Longrightarrow> unat (pb_tot_len (hd b)) = tot b"
  by (cases b) auto

lemma chain_ok_front:
  assumes "chain_ok (a @ b)" "b \<noteq> []"
  shows "chain_ok (map (\<lambda>p. p\<lparr>pb_tot_len := pb_tot_len p - pb_tot_len (hd b)\<rparr>) a)"
  using assms
proof (induction a)
  case (Cons p a)
  have hb: "unat (pb_tot_len (hd b)) = tot b"
    using Cons.prems chain_ok_suffix [of "p # a" b] by (simp add: chain_hd_tot)
  have "unat (pb_tot_len p - pb_tot_len (hd b)) = unat (pb_len p) + tot a"
    using Cons.prems hb by (subst unat_minus32) auto
  then show ?case using Cons by simp
qed simp

lemma chain_ok_join:
  assumes "chain_ok a" "chain_ok b" "b \<noteq> []" "tot a + tot b < 4294967296"
  shows "chain_ok (map (\<lambda>p. p\<lparr>pb_tot_len := pb_tot_len p + pb_tot_len (hd b)\<rparr>) a @ b)"
  using assms
proof (induction a)
  case (Cons p a)
  have "unat (pb_tot_len p + pb_tot_len (hd b)) = unat (pb_len p) + tot a + tot b"
    using Cons.prems chain_hd_tot [of b] by (subst unat_plus32) auto
  then show ?case using Cons by simp
qed simp

lemma realloc_ok:
  assumes "chain_ok (p # ps)"
  shows "\<exists>kept rest. pbuf_realloc (p # ps) new_len = Some (kept, rest) \<and> chain_ok kept
    \<and> chain_data kept = take (unat new_len) (chain_data (p # ps))
    \<and> kept \<noteq> [] \<and> unat (pb_tot_len (hd kept)) = min (unat new_len) (unat (pb_tot_len p))"
proof (cases "unat (pb_tot_len p) \<le> unat new_len")
  case True
  then show ?thesis
    using assms length_chain_data [OF assms] by (simp add: pbuf_realloc_def word_le_nat_alt)
next
  case False
  have t: "unat (pb_tot_len p) = tot (p # ps)" using assms by simp
  have g: "unat (ucast new_len - pb_tot_len p) = 4294967296 - (tot (p # ps) - unat new_len)"
    using False t by (simp add: unat_diff_cases)
  obtain kept rest where
    k: "realloc_walk new_len (ucast new_len - pb_tot_len p) (p # ps) = Some (kept, rest)" "chain_ok kept"
      "tot kept = unat new_len" "kept \<noteq> []" "chain_data kept = take (unat new_len) (chain_data (p # ps))"
    using realloc_walk_ok [OF assms _ g] False t chain_tot_bound [OF assms] by auto
  then show ?thesis using False chain_hd_tot [OF k(2,4)] by (auto simp: pbuf_realloc_def word_le_nat_alt)
qed

section \<open>Properties\<close>

text \<open>Concrete pbufs for the examples.\<close>

definition ex_pbuf :: "u8 list \<Rightarrow> u32 \<Rightarrow> pbuf" where
  "ex_pbuf bs n = \<lparr>pb_buf = bs, pb_off = 0, pb_len = of_nat (length bs), pb_tot_len = n,
     pb_type = PBUF_RAM, pb_flags = 0, pb_ref = 1\<rparr>"

definition ex_chain :: "u8 list \<Rightarrow> u8 list \<Rightarrow> pbuf list" where
  "ex_chain a b = [ex_pbuf a (of_nat (length a + length b)), ex_pbuf b (of_nat (length b))]"

text \<open>Shrinking a well-formed chain with pbuf_realloc always succeeds; the result is
  well formed, holds the first new_len bytes of the old data, and its tot_len
  is the smaller of the two lengths.\<close>

theorem pbuf_realloc_correct:
  assumes "chain_ok (p # ps)"
  shows "\<exists>kept rest. pbuf_realloc (p # ps) new_len = Some (kept, rest) \<and> chain_ok kept
    \<and> chain_data kept = take (unat new_len) (chain_data (p # ps))
    \<and> unat (pb_tot_len (hd kept)) = min (unat new_len) (unat (pb_tot_len p))"
  using realloc_ok [OF assms, of new_len] by blast

theorem pbuf_realloc_correct_witness:
  "\<exists>kept rest. pbuf_realloc (ex_chain [1, 2, 3] [4, 5]) 4 = Some (kept, rest) \<and> chain_ok kept
    \<and> chain_data kept = [1, 2, 3, 4] \<and> unat (pb_tot_len (hd kept)) = 4"
  using pbuf_realloc_correct [of "ex_pbuf [1, 2, 3] 5" "[ex_pbuf [4, 5] 2]" 4]
  by (simp add: ex_pbuf_def ex_chain_def chain_data_def pb_data_def)

text \<open>pbuf_split_64k cuts a well-formed chain into two well-formed chains with
  the same bytes in the same order; the first one is at most 65535 bytes long
  and not empty.\<close>

theorem pbuf_split_64k_correct:
  assumes "chain_ok (p # ps)" "pbuf_split_64k (p # ps) = (front, rest)"
  shows "chain_ok front \<and> chain_ok rest \<and> chain_data front @ chain_data rest = chain_data (p # ps)
    \<and> tot front \<le> 65535 \<and> front \<noteq> []"
proof (cases "pb_tot_len p < 0xffff")
  case True
  then have "unat (pb_tot_len p) < 65535" by (simp add: word_less_nat_alt)
  then show ?thesis using True assms by (auto simp: pbuf_split_64k_def)
next
  case False
  obtain a b where ab: "split_walk 0 (p # ps) = (a, b)" by fastforce
  have parts: "p # ps = a @ b" using split_walk_parts [OF ab] .
  have small: "tot a \<le> 65535" using split_walk_bound [OF ab] by simp
  have "unat (pb_len p) \<le> 65535" using unat_lt16 [of "pb_len p"] by linarith
  then have "a \<noteq> []" using ab by (auto simp: word_le_nat_alt split: if_splits prod.splits)
  moreover have "front = (if b = [] then a
      else map (\<lambda>p. p\<lparr>pb_tot_len := pb_tot_len p - pb_tot_len (hd b)\<rparr>) a)" "rest = b"
    using assms(2) ab False by (auto simp: pbuf_split_64k_def simp del: split_walk.simps split: if_splits)
  moreover have "chain_ok (a @ b)" using assms(1) parts by simp
  ultimately show ?thesis
    unfolding parts using small chain_ok_front [of a b] chain_ok_suffix [of a b] by auto
qed

theorem pbuf_split_64k_correct_witness:
  "chain_data (fst (pbuf_split_64k (ex_chain (replicate 40000 1) (replicate 40000 2))))
     @ chain_data (snd (pbuf_split_64k (ex_chain (replicate 40000 1) (replicate 40000 2))))
   = chain_data (ex_chain (replicate 40000 1) (replicate 40000 2))"
  using pbuf_split_64k_correct [of "ex_pbuf (replicate 40000 1) 80000" "[ex_pbuf (replicate 40000 2) 40000]"
      "fst (pbuf_split_64k (ex_chain (replicate 40000 1) (replicate 40000 2)))"
      "snd (pbuf_split_64k (ex_chain (replicate 40000 1) (replicate 40000 2)))"]
  by (simp add: ex_pbuf_def ex_chain_def)

text \<open>pbuf_cat joins two well-formed chains into a well-formed chain with the
  bytes of the first followed by the bytes of the second.\<close>

theorem pbuf_cat_correct:
  assumes "chain_ok h" "chain_ok t" "h \<noteq> []" "t \<noteq> []" "tot h + tot t < 4294967296"
  shows "chain_ok (pbuf_cat h t) \<and> chain_data (pbuf_cat h t) = chain_data h @ chain_data t"
  using assms chain_ok_join [of h t] by (simp add: pbuf_cat_def)

theorem pbuf_cat_correct_witness:
  "chain_ok (pbuf_cat [ex_pbuf [1, 2] 2] [ex_pbuf [3] 1])
   \<and> chain_data (pbuf_cat [ex_pbuf [1, 2] 2] [ex_pbuf [3] 1]) = [1, 2, 3]"
  using pbuf_cat_correct [of "[ex_pbuf [1, 2] 2]" "[ex_pbuf [3] 1]"]
  by (simp add: ex_pbuf_def chain_data_def pb_data_def)

text \<open>pbuf_header only checks that a header being removed fits in the pbuf.
  Revealing a header always succeeds, whatever the type of the pbuf and
  however far in front of its buffer the payload pointer ends up.\<close>

lemma pbuf_header_unchecked:
  assumes "0 < inc"
  shows "snd (pbuf_header p inc) = 0 \<and> pb_off (fst (pbuf_header p inc)) = pb_off p - inc"
  using assms by (simp add: pbuf_header_def)

lemma unat_of_int_add16:
  assumes "n \<le> unat (x :: u16)"
  shows "x + of_int (- int n) = x - of_nat n" "unat (x - of_nat n) = unat x - n"
proof -
  show "x + of_int (- int n) = x - of_nat n" by simp
  have "n < 65536" using assms unat_lt16 [of x] by linarith
  then have "unat (of_nat n :: u16) = n" by (simp add: unat_of_nat)
  then show "unat (x - of_nat n) = unat x - n"
    using assms by (subst unat_minus_le) (simp_all add: word_le_nat_alt)
qed

text \<open>Hiding a header of n bytes with pbuf_header drops exactly the first n bytes of
  the pbuf's data, and revealing n bytes again restores the pbuf.\<close>

theorem pbuf_header_hide_reveal:
  assumes "n \<le> unat (pb_len p)" "0 \<le> pb_off p" "0 < n"
  shows "snd (pbuf_header p (- int n)) = 0
    \<and> pb_data (fst (pbuf_header p (- int n))) = drop n (pb_data p)
    \<and> pbuf_header (fst (pbuf_header p (- int n))) (int n) = (p, 0)"
proof -
  let ?q = "p\<lparr>pb_off := pb_off p + int n, pb_len := pb_len p - of_nat n,
    pb_tot_len := pb_tot_len p - of_nat n\<rparr>"
  have "uint (pb_len p) = int (unat (pb_len p))" by simp
  with assms(1) have "\<not> uint (pb_len p) < int n" by linarith
  then have h: "pbuf_header p (- int n) = (?q, 0)" using assms by (simp add: pbuf_header_def)
  have "pb_data ?q = drop n (pb_data p)"
    using assms unat_of_int_add16(2) [OF assms(1)]
    by (simp add: pb_data_def drop_take nat_add_distrib add.commute)
  then show ?thesis using assms h by (simp add: pbuf_header_def)
qed

theorem pbuf_header_hide_reveal_witness:
  "snd (pbuf_header (ex_pbuf [1, 2, 3] 3) (- 2)) = 0
   \<and> pb_data (fst (pbuf_header (ex_pbuf [1, 2, 3] 3) (- 2))) = [3]
   \<and> pbuf_header (fst (pbuf_header (ex_pbuf [1, 2, 3] 3) (- 2))) 2 = (ex_pbuf [1, 2, 3] 3, 0)"
  using pbuf_header_hide_reveal [of 2 "ex_pbuf [1, 2, 3] 3"] by (simp add: ex_pbuf_def pb_data_def)

end
