(* ===== verification/Lwip_Pcb.thy ===== *)
theory Lwip_Pcb
  imports Lwip_Hdr Lwip_Pbuf Tlt_Queue
begin

text \<open>
  The data the TCP stack works on: the TCP segment (\<^verbatim>\<open>struct tcp_seg\<close> of
  \<^verbatim>\<open>src/src/vma/lwip/tcp_impl.h\<close>), the per-connection state of TLT
  (\<^verbatim>\<open>tlt.h\<close>), DCTCP (\<^verbatim>\<open>dctcp.h\<close>) and CUBIC (\<^verbatim>\<open>cc_cubic.c\<close>), and the protocol
  control block \<^verbatim>\<open>struct tcp_pcb\<close> (\<^verbatim>\<open>tcp.h\<close>) with one field per C member.
  Segment queues are lists; a pointer into one (last_unsent, last_unacked) is
  the address of a segment.  The 20 header bytes a segment's first pbuf starts
  with are the record sg_tcphdr; sg_dataptr is the offset of dataptr in the
  buffer of that pbuf.  Function pointers and the opaque callback
  arguments have no field: the callbacks are parameters of the operations
  that call them.
\<close>

section \<open>Segments\<close>

record tcp_seg =
  sg_addr :: nat
  sg_p :: "pbuf list"
  sg_seqno :: u32
  sg_len :: u16
  sg_flags :: u8
  sg_tos :: u8
  sg_tcphdr :: tcp_hdr
  sg_dataptr :: int

definition TF_SEG_OPTS_MSS :: u8 where "TF_SEG_OPTS_MSS = 0x01"
definition TF_SEG_OPTS_TS :: u8 where "TF_SEG_OPTS_TS = 0x02"
definition TF_SEG_DATA_CHECKSUMMED :: u8 where "TF_SEG_DATA_CHECKSUMMED = 0x04"
definition TF_SEG_OPTS_WNDSCALE :: u8 where "TF_SEG_OPTS_WNDSCALE = 0x08"
definition TF_SEG_OPTS_DUMMY_MSG :: u8 where "TF_SEG_OPTS_DUMMY_MSG = 0x10"
definition TF_SEG_OPTS_SACK_PERM :: u8 where "TF_SEG_OPTS_SACK_PERM = 0x40"

lemmas seg_flag_defs = TF_SEG_OPTS_MSS_def TF_SEG_OPTS_TS_def TF_SEG_DATA_CHECKSUMMED_def
  TF_SEG_OPTS_WNDSCALE_def TF_SEG_OPTS_DUMMY_MSG_def TF_SEG_OPTS_SACK_PERM_def

text \<open>\<open>TCP_TCPLEN\<close>: SYN and FIN count one sequence number.\<close>

definition TCP_TCPLEN :: "tcp_seg \<Rightarrow> u32" where
  "TCP_TCPLEN seg = ucast (sg_len seg)
     + (if TCPH_FLAGS (sg_tcphdr seg) AND (TCP_FIN OR TCP_SYN) \<noteq> 0 then 1 else 0)"

section \<open>TLT, DCTCP, CUBIC\<close>

datatype tlt_state = Idle | Pending | PendingForce

record tlt_param =
  recv_state :: tlt_state
  send_state :: tlt_state
  uimp_queue :: uimpq
  uimp_queue_len :: u16
  cur_round :: u32
  dirty_map :: u8

record dctcp_param =
  dc_enabled :: int
  dc_ce :: int
  dc_pending_ece :: int
  dc_pending_cwr :: int
  dc_next_ece :: u32
  dc_WindowEnd :: u32
  dc_BytesAcked :: u32
  dc_BytesMarked :: u32
  dc_Alpha :: u32

record cubic =
  cu_K :: int
  cu_sum_rtt_ticks :: u64
  cu_max_cwnd :: u64
  cu_prev_max_cwnd :: u64
  cu_num_cong_events :: u32
  cu_min_rtt_ticks :: u64
  cu_mean_rtt_ticks :: u64
  cu_epoch_ack_count :: u32
  cu_t_last_cong :: u64

datatype cc_algo = CC_MOD_LWIP | CC_MOD_CUBIC | CC_MOD_NONE

section \<open>The protocol control block\<close>

record sack_block =
  block_le :: u32
  block_re :: u32

record tcp_pcb =
  local_ip :: u32
  remote_ip :: u32
  so_options :: u8
  tos :: u8
  ttl :: u8
  private_state :: tcp_state
  prio :: u8
  local_port :: u16
  rcv_wnd :: u32
  rcv_ann_wnd :: u32
  rcv_wnd_max :: u32
  rcv_wnd_max_desired :: u32
  remote_port :: u16
  flags :: u16
  rcv_nxt :: u32
  rcv_ann_right_edge :: u32
  tcp_timer :: u8
  tmr :: u32
  polltmr :: u8
  pollinterval :: u8
  rtime :: int
  mss :: u16
  advtsd_mss :: u16
  rttest :: u32
  rtseq :: u32
  t_rttupdated :: u32
  sa :: int
  sv :: int
  rto :: int
  minrto :: int
  nrtx :: u8
  lastack :: u32
  dupacks :: u8
  cc_algo_of :: cc_algo
  cc_data :: "cubic option"
  cwnd :: u32
  ssthresh :: u32
  snd_nxt :: u32
  snd_wnd :: u32
  snd_wnd_max :: u32
  snd_wl1 :: u32
  snd_wl2 :: u32
  snd_lbb :: u32
  acked :: u32
  snd_buf :: u32
  max_snd_buff :: u32
  snd_sml_snt :: u32
  snd_sml_add :: u32
  iss :: u32
  snd_queuelen :: u32
  max_tcp_snd_queuelen :: u32
  unsent_oversize :: u16
  tcp_oversize_val :: u16
  max_unsent_len :: u16
  unsent :: "tcp_seg list"
  last_unsent :: "nat option"
  unacked :: "tcp_seg list"
  last_unacked :: "nat option"
  ooseq :: "tcp_seg list"
  refused_data :: "pbuf list"
  seg_alloc :: "tcp_seg list"
  pbuf_alloc :: "pbuf list"
  enable_ts_opt :: u8
  ts_lastacksent :: u32
  ts_recent :: u32
  sack_permitted :: u8
  snd_sack_block :: "sack_block list"
  rcv_sack_block :: "sack_block list"
  rcv_sack_block_cnt :: u8
  snd_sack_block_cnt :: u8
  keep_idle :: u32
  persist_cnt :: u32
  persist_backoff :: u8
  keep_cnt_sent :: u8
  snd_scale :: u8
  rcv_scale :: u8
  quickack :: u8
  tlt :: tlt_param
  dctcp :: dctcp_param

definition TF_ACK_DELAY :: u16 where "TF_ACK_DELAY = 0x0001"
definition TF_ACK_NOW :: u16 where "TF_ACK_NOW = 0x0002"
definition TF_INFR :: u16 where "TF_INFR = 0x0004"
definition TF_TIMESTAMP :: u16 where "TF_TIMESTAMP = 0x0008"
definition TF_RXCLOSED :: u16 where "TF_RXCLOSED = 0x0010"
definition TF_FIN :: u16 where "TF_FIN = 0x0020"
definition TF_NODELAY :: u16 where "TF_NODELAY = 0x0040"
definition TF_NAGLEMEMERR :: u16 where "TF_NAGLEMEMERR = 0x0080"
definition TF_WND_SCALE :: u16 where "TF_WND_SCALE = 0x0100"

lemmas pcb_flag_defs = TF_ACK_DELAY_def TF_ACK_NOW_def TF_INFR_def TF_TIMESTAMP_def
  TF_RXCLOSED_def TF_FIN_def TF_NODELAY_def TF_NAGLEMEMERR_def TF_WND_SCALE_def

abbreviation pcb_has :: "tcp_pcb \<Rightarrow> u16 \<Rightarrow> bool" where
  "pcb_has pcb f \<equiv> flags pcb AND f \<noteq> 0"

definition set_flag :: "tcp_pcb \<Rightarrow> u16 \<Rightarrow> tcp_pcb" where
  "set_flag pcb f = pcb\<lparr>flags := flags pcb OR f\<rparr>"

definition clear_flag :: "tcp_pcb \<Rightarrow> u16 \<Rightarrow> tcp_pcb" where
  "clear_flag pcb f = pcb\<lparr>flags := flags pcb AND NOT f\<rparr>"

definition get_tcp_state :: "tcp_pcb \<Rightarrow> tcp_state" where
  "get_tcp_state pcb = private_state pcb"

definition PCB_IN_ACTIVE_STATE :: "tcp_pcb \<Rightarrow> bool" where
  "PCB_IN_ACTIVE_STATE pcb = (LISTEN < get_tcp_state pcb \<and> get_tcp_state pcb < TIME_WAIT)"

definition RCV_WND_SCALE :: "tcp_pcb \<Rightarrow> u32 \<Rightarrow> u32" where
  "RCV_WND_SCALE pcb w = drop_bit (unat (rcv_scale pcb)) w"

definition SND_WND_SCALE :: "tcp_pcb \<Rightarrow> u32 \<Rightarrow> u32" where
  "SND_WND_SCALE pcb w = push_bit (unat (snd_scale pcb)) w"

definition TCPWND_MIN16 :: "u32 \<Rightarrow> u16" where
  "TCPWND_MIN16 x = ucast (min x 0xFFFF)"

text \<open>\<open>UPDATE_PCB_BY_MSS\<close>; max_unsent_len is a u16_t, so its value is truncated.\<close>

definition UPDATE_PCB_BY_MSS :: "tcp_pcb \<Rightarrow> u16 \<Rightarrow> tcp_pcb" where
  "UPDATE_PCB_BY_MSS pcb snd_mss = pcb\<lparr>mss := snd_mss,
     max_tcp_snd_queuelen := 16 * max_snd_buff pcb div ucast snd_mss,
     max_unsent_len := ucast (16 * max_snd_buff pcb div ucast snd_mss),
     tcp_oversize_val := snd_mss\<rparr>"

text \<open>The macros tcp_ack and tcp_ack_now.\<close>

definition tcp_ack :: "tcp_pcb \<Rightarrow> tcp_pcb" where
  "tcp_ack pcb =
     (if pcb_has pcb TF_ACK_DELAY then set_flag (clear_flag pcb TF_ACK_DELAY) TF_ACK_NOW
      else set_flag pcb TF_ACK_DELAY)"

definition tcp_ack_now :: "tcp_pcb \<Rightarrow> tcp_pcb" where
  "tcp_ack_now pcb = set_flag pcb TF_ACK_NOW"

section \<open>Zeroed memory\<close>

text \<open>The structures after a memset to 0; CLOSED, Idle and the lwIP algorithm are the
  enumeration values 0, a null pointer is None or an empty list.\<close>

definition hdr_zero :: tcp_hdr where
  "hdr_zero = \<lparr>th_src = 0, th_dest = 0, th_seqno = 0, th_ackno = 0, th_hdrlen_rsvd_flags = 0,
     th_wnd = 0, th_chksum = 0, th_urgp = 0\<rparr>"

definition seg_zero :: tcp_seg where
  "seg_zero = \<lparr>sg_addr = 0, sg_p = [], sg_seqno = 0, sg_len = 0, sg_flags = 0, sg_tos = 0,
     sg_tcphdr = hdr_zero, sg_dataptr = 0\<rparr>"

definition tlt_zero :: tlt_param where
  "tlt_zero = \<lparr>recv_state = Idle, send_state = Idle, uimp_queue = (\<lambda>_. empty_tseg),
     uimp_queue_len = 0, cur_round = 0, dirty_map = 0\<rparr>"

definition dctcp_zero :: dctcp_param where
  "dctcp_zero = \<lparr>dc_enabled = 0, dc_ce = 0, dc_pending_ece = 0, dc_pending_cwr = 0, dc_next_ece = 0,
     dc_WindowEnd = 0, dc_BytesAcked = 0, dc_BytesMarked = 0, dc_Alpha = 0\<rparr>"

definition pcb_zero :: tcp_pcb where
  "pcb_zero = \<lparr>local_ip = 0, remote_ip = 0, so_options = 0, tos = 0, ttl = 0,
     private_state = CLOSED, prio = 0, local_port = 0, rcv_wnd = 0, rcv_ann_wnd = 0,
     rcv_wnd_max = 0, rcv_wnd_max_desired = 0, remote_port = 0, flags = 0, rcv_nxt = 0,
     rcv_ann_right_edge = 0, tcp_timer = 0, tmr = 0, polltmr = 0, pollinterval = 0, rtime = 0,
     mss = 0, advtsd_mss = 0, rttest = 0, rtseq = 0, t_rttupdated = 0, sa = 0, sv = 0,
     rto = 0, minrto = 0, nrtx = 0, lastack = 0, dupacks = 0, cc_algo_of = CC_MOD_LWIP,
     cc_data = None, cwnd = 0, ssthresh = 0, snd_nxt = 0, snd_wnd = 0, snd_wnd_max = 0,
     snd_wl1 = 0, snd_wl2 = 0, snd_lbb = 0, acked = 0, snd_buf = 0, max_snd_buff = 0,
     snd_sml_snt = 0, snd_sml_add = 0, iss = 0, snd_queuelen = 0, max_tcp_snd_queuelen = 0,
     unsent_oversize = 0, tcp_oversize_val = 0, max_unsent_len = 0, unsent = [],
     last_unsent = None, unacked = [], last_unacked = None, ooseq = [], refused_data = [],
     seg_alloc = [], pbuf_alloc = [], enable_ts_opt = 0, ts_lastacksent = 0, ts_recent = 0,
     sack_permitted = 0,
     snd_sack_block = replicate 16 \<lparr>block_le = 0, block_re = 0\<rparr>,
     rcv_sack_block = replicate 16 \<lparr>block_le = 0, block_re = 0\<rparr>,
     rcv_sack_block_cnt = 0, snd_sack_block_cnt = 0, keep_idle = 0, persist_cnt = 0,
     persist_backoff = 0, keep_cnt_sent = 0, snd_scale = 0, rcv_scale = 0, quickack = 0,
     tlt = tlt_zero, dctcp = dctcp_zero\<rparr>"

end
