(* ===== verification/Tlt_Queue_Chain.thy ===== *)
theory Tlt_Queue_Chain
  imports Tlt_Queue
begin

text \<open>
  Well-formed queues: the chain from cell 0 visits each used cell once and ends.
  The rules of this theory say how inserting, unlinking and rewriting a cell
  act on the chain and on the bytes the queue covers; the correctness proofs of
  the queue operations use only them.
\<close>

section \<open>The chain\<close>

fun lpath :: "uimpq \<Rightarrow> nat option \<Rightarrow> nat list \<Rightarrow> nat option \<Rightarrow> bool" where
  "lpath q p [] e = (p = e)"
| "lpath q p (x # xs) e = (p = Some x \<and> lpath q (ts_next (q x)) xs e)"

definition qrep :: "uimpq \<Rightarrow> u16 \<Rightarrow> nat list \<Rightarrow> bool" where
  "qrep q n is = (distinct is \<and> set is \<subseteq> {..<MAX_UIMP_QUEUE_ELEM} \<and> unat n = length is
     \<and> (is \<noteq> [] \<longrightarrow> lpath q (Some 0) is None)
     \<and> (\<forall>i. (ts_len (q i) \<noteq> 0) = (i \<in> set is))
     \<and> (\<forall>i. i \<notin> set is \<longrightarrow> ts_next (q i) = None))"

text \<open>All offsets are below 2^31, where the serial comparisons are the usual order.\<close>

definition small_blocks :: "uimpq \<Rightarrow> bool" where
  "small_blocks q = (\<forall>i. unat (ts_seq (q i)) + unat (ts_len (q i)) < 2147483648)"

definition blk :: "tseg \<Rightarrow> nat set" where
  "blk c = {unat (ts_seq c) ..< unat (ts_seq c) + unat (ts_len c)}"

definition cov :: "uimpq \<Rightarrow> nat set" where
  "cov q = (\<Union>i. blk (q i))"

lemma lpath_append [simp]:
  "lpath q p (xs @ ys) e = (\<exists>m. lpath q p xs m \<and> lpath q m ys e)"
  by (induction xs arbitrary: p) auto

lemma lpath_cong:
  "(\<And>x. x \<in> set xs \<Longrightarrow> ts_next (q x) = ts_next (q' x)) \<Longrightarrow> lpath q p xs e = lpath q' p xs e"
  by (induction xs arbitrary: p) auto

lemma qrep_head: "qrep q n is \<Longrightarrow> is \<noteq> [] \<Longrightarrow> hd is = 0"
  by (cases "is") (auto simp: qrep_def)

lemma qrep_len: "qrep q n is \<Longrightarrow> (ts_len (q i) \<noteq> 0) = (i \<in> set is)"
  by (simp add: qrep_def)

lemma qrep_len_0: "qrep q n is \<Longrightarrow> (ts_len (q i) = 0) = (i \<notin> set is)"
  using qrep_len by blast

lemma qrep_unat: "qrep q n is \<Longrightarrow> unat n = length is"
  by (simp add: qrep_def)

lemma qrep_bound: "qrep q n is \<Longrightarrow> i \<in> set is \<Longrightarrow> i < 256"
  by (auto simp: qrep_def MAX_UIMP_QUEUE_ELEM_def)

lemma qrep_length: "qrep q n is \<Longrightarrow> length is \<le> 256"
proof -
  assume "qrep q n is"
  then have "distinct is" "set is \<subseteq> {..<256}"
    by (auto simp: qrep_def MAX_UIMP_QUEUE_ELEM_def)
  moreover from this have "card (set is) \<le> card {..<256 :: nat}"
    by (intro card_mono) auto
  ultimately show ?thesis by (simp add: distinct_card)
qed

lemma qrep_nonempty: "qrep q n is \<Longrightarrow> (ts_len (q 0) \<noteq> 0) = (is \<noteq> [])"
  using qrep_head [of q n "is"] qrep_len [of q n "is" 0]
  by (cases "is") auto

lemma qrep_empty_iff: "qrep q n [] = (n = 0 \<and> (\<forall>i. ts_len (q i) = 0 \<and> ts_next (q i) = None))"
  by (auto simp: qrep_def unat_eq_0)

text \<open>The successor of a cell of the chain.\<close>

lemma qrep_next:
  assumes "qrep q n (xs @ p # ys)"
  shows "ts_next (q p) = (case ys of [] \<Rightarrow> None | y # _ \<Rightarrow> Some y)"
  using assms by (cases ys) (auto simp: qrep_def)

lemma qrep_unfold:
  "xs \<noteq> [] \<Longrightarrow> qrep q n xs = (distinct xs \<and> set xs \<subseteq> {..<MAX_UIMP_QUEUE_ELEM}
     \<and> unat n = length xs \<and> lpath q (Some 0) xs None
     \<and> (\<forall>i. (ts_len (q i) \<noteq> 0) = (i \<in> set xs))
     \<and> (\<forall>i. i \<notin> set xs \<longrightarrow> ts_next (q i) = None))"
  by (simp add: qrep_def)

section \<open>Changing the chain\<close>

lemma qrep_same:
  assumes "qrep q n is" "\<And>i. ts_next (q' i) = ts_next (q i)"
    "\<And>i. (ts_len (q' i) = 0) = (ts_len (q i) = 0)"
  shows "qrep q' n is"
proof -
  have "lpath q' p is e = lpath q p is e" for p e
    by (rule lpath_cong) (simp add: assms)
  then show ?thesis using assms unfolding qrep_def by auto
qed

lemma qrep_insert:
  assumes rep: "qrep q n (xs @ p # ys)" and i: "i \<notin> set (xs @ p # ys)" "i < 256"
    and p': "ts_next (q' p) = Some i" "ts_len (q' p) \<noteq> 0"
    and i': "ts_next (q' i) = ts_next (q p)" "ts_len (q' i) \<noteq> 0"
    and rest: "\<And>j. j \<noteq> p \<Longrightarrow> j \<noteq> i \<Longrightarrow>
      ts_next (q' j) = ts_next (q j) \<and> (ts_len (q' j) = 0) = (ts_len (q j) = 0)"
  shows "qrep q' (n + 1) (xs @ p # i # ys)"
proof -
  have l: "lpath q (Some 0) xs (Some p)" "lpath q (ts_next (q p)) ys None"
    using rep by (auto simp: qrep_unfold)
  have d: "distinct (xs @ p # ys)" using rep by (simp add: qrep_unfold)
  have "lpath q' (Some 0) xs (Some p) = lpath q (Some 0) xs (Some p)"
    by (rule lpath_cong, rule rest [THEN conjunct1]) (use d i in auto)
  moreover have "lpath q' (ts_next (q p)) ys None = lpath q (ts_next (q p)) ys None"
    by (rule lpath_cong, rule rest [THEN conjunct1]) (use d i in auto)
  ultimately have l': "lpath q' (Some 0) (xs @ p # i # ys) None"
    using l p' i' by auto
  have n: "unat (n + 1) = Suc (unat n)"
    using qrep_length [OF rep] qrep_unat [OF rep] by (intro unat_Suc16) simp
  have len: "(ts_len (q' j) \<noteq> 0) = (j \<in> set (xs @ p # i # ys))" for j
    using qrep_len [OF rep, of j] p' i' rest [of j] by auto
  have nxt: "j \<notin> set (xs @ p # i # ys) \<Longrightarrow> ts_next (q' j) = None" for j
    using rep rest [of j] by (auto simp: qrep_unfold)
  show ?thesis
    unfolding qrep_unfold [of "xs @ p # i # ys", simplified]
    using rep i l' n len nxt by (auto simp: qrep_unfold MAX_UIMP_QUEUE_ELEM_def)
qed

lemma qrep_unlink:
  assumes rep: "qrep q n (xs @ a # p # ys)"
    and a': "ts_next (q' a) = ts_next (q p)" "ts_len (q' a) \<noteq> 0"
    and p': "ts_next (q' p) = None" "ts_len (q' p) = 0"
    and rest: "\<And>j. j \<noteq> a \<Longrightarrow> j \<noteq> p \<Longrightarrow>
      ts_next (q' j) = ts_next (q j) \<and> (ts_len (q' j) = 0) = (ts_len (q j) = 0)"
  shows "qrep q' (n - 1) (xs @ a # ys)"
proof -
  have l: "lpath q (Some 0) xs (Some a)" "lpath q (ts_next (q p)) ys None"
    using rep by (auto simp: qrep_unfold)
  have d: "distinct (xs @ a # p # ys)" using rep by (simp add: qrep_unfold)
  have "lpath q' (Some 0) xs (Some a) = lpath q (Some 0) xs (Some a)"
    by (rule lpath_cong, rule rest [THEN conjunct1]) (use d in auto)
  moreover have "lpath q' (ts_next (q p)) ys None = lpath q (ts_next (q p)) ys None"
    by (rule lpath_cong, rule rest [THEN conjunct1]) (use d in auto)
  ultimately have l': "lpath q' (Some 0) (xs @ a # ys) None"
    using l a' by auto
  have n: "unat (n - 1) = unat n - 1"
    using qrep_unat [OF rep] by (intro unat_pred16) simp
  have len: "(ts_len (q' j) \<noteq> 0) = (j \<in> set (xs @ a # ys))" for j
    using qrep_len [OF rep, of j] a' p' rest [of j] d by auto
  have nxt: "j \<notin> set (xs @ a # ys) \<Longrightarrow> ts_next (q' j) = None" for j
    using rep rest [of j] p' by (auto simp: qrep_unfold)
  show ?thesis
    unfolding qrep_unfold [of "xs @ a # ys", simplified]
    using rep l' n len nxt by (auto simp: qrep_unfold)
qed

lemma qrep_last_gone:
  assumes "qrep q n [p]" "ts_next (q' p) = None" "ts_len (q' p) = 0"
    "\<And>j. j \<noteq> p \<Longrightarrow> ts_next (q' j) = ts_next (q j) \<and> ts_len (q' j) = ts_len (q j)"
  shows "qrep q' (n - 1) []"
proof -
  have "n = 1" using qrep_unat [OF assms(1)] by (simp add: word_unat_eq_iff)
  then show ?thesis using assms unfolding qrep_empty_iff
    by (metis diff_self empty_iff empty_set insert_iff list.set(2) qrep_def)
qed

section \<open>Covered bytes\<close>

lemma blk_ignores [simp, cov_simps]:
  "blk (c\<lparr>ts_next := x\<rparr>) = blk c" "blk (c\<lparr>ts_round := r\<rparr>) = blk c"
  by (simp_all add: blk_def)

lemma blk_empty [simp, cov_simps]: "ts_len c = 0 \<Longrightarrow> blk c = {}"
  by (simp add: blk_def)

lemma cov_upd [cov_simps]: "cov (q(i := c)) = blk c \<union> (\<Union>j\<in>-{i}. blk (q j))"
  unfolding cov_def by (auto split: if_splits)

lemma cov_split: "cov q = blk (q i) \<union> (\<Union>j\<in>-{i}. blk (q j))"
  unfolding cov_def by auto

lemma cov_split2:
  "i \<noteq> j \<Longrightarrow> cov q = blk (q i) \<union> blk (q j) \<union> (\<Union>k\<in>-{i,j}. blk (q k))"
  unfolding cov_def by auto

lemma cov_same:
  "(\<And>i. ts_seq (q' i) = ts_seq (q i)) \<Longrightarrow> (\<And>i. ts_len (q' i) = ts_len (q i)) \<Longrightarrow> cov q' = cov q"
  by (simp add: cov_def blk_def)

lemma small_blocksD:
  assumes "small_blocks q"
  shows "unat (ts_seq (q i)) + unat (ts_len (q i)) < 2147483648"
    "unat (ts_seq (q i)) < 2147483648"
    "unat (ts_end (q i)) = unat (ts_seq (q i)) + unat (ts_len (q i))"
proof -
  show 1: "unat (ts_seq (q i)) + unat (ts_len (q i)) < 2147483648"
    using assms by (simp add: small_blocks_def)
  then show "unat (ts_seq (q i)) < 2147483648" by linarith
  show "unat (ts_end (q i)) = unat (ts_seq (q i)) + unat (ts_len (q i))"
    using 1 by (intro unat_plus32) linarith
qed

lemma small_blocks_upd:
  "small_blocks q \<Longrightarrow> unat (ts_seq c) + unat (ts_len c) < 2147483648 \<Longrightarrow> small_blocks (q(i := c))"
  by (simp add: small_blocks_def)

section \<open>Free cells\<close>

lemma find_free_spec:
  "(\<forall>j<i. ts_len (q j) \<noteq> 0) \<Longrightarrow> i \<le> n \<Longrightarrow>
   find_free q i n \<le> n \<and> (\<forall>j<find_free q i n. ts_len (q j) \<noteq> 0)
   \<and> (find_free q i n < n \<longrightarrow> ts_len (q (find_free q i n)) = 0)"
proof (induction q i n rule: find_free.induct)
  case (1 q i n)
  show ?case
  proof (cases "i < n \<and> ts_len (q i) \<noteq> 0")
    case True
    then have "find_free q i n = find_free q (Suc i) n"
      by (subst find_free.simps) simp
    moreover have "\<forall>j<Suc i. ts_len (q j) \<noteq> 0"
      using 1 True by (auto simp: less_Suc_eq)
    ultimately show ?thesis using 1 True by simp
  next
    case False
    then have "find_free q i n = i" by (subst find_free.simps) (rule if_not_P)
    then show ?thesis using 1 False by auto
  qed
qed

lemma qrep_used_prefix:
  assumes "qrep q n is" "\<forall>j<i. ts_len (q j) \<noteq> 0"
  shows "i \<le> length is" "i = length is \<Longrightarrow> i \<notin> set is"
proof -
  have sub: "{..<i} \<subseteq> set is" using assms by (auto simp: qrep_len)
  have d: "card (set is) = length is" using assms by (simp add: qrep_def distinct_card)
  show "i \<le> length is" using card_mono [OF _ sub] d by simp
  show "i = length is \<Longrightarrow> i \<notin> set is"
    using card_subset_eq [OF _ sub] d by (metis List.finite_set card_lessThan lessThan_iff nat_neq_iff)
qed

lemma qrep_find_free:
  assumes rep: "qrep q n is" and used: "\<forall>j<i. ts_len (q j) \<noteq> 0"
  shows "find_free q i (unat n) \<notin> set is" "find_free q i (unat n) \<le> length is"
    "\<forall>j<find_free q i (unat n). ts_len (q j) \<noteq> 0"
proof -
  have "i \<le> unat n" using qrep_used_prefix(1) [OF rep used] qrep_unat [OF rep] by simp
  note f = find_free_spec [OF used this]
  show le: "find_free q i (unat n) \<le> length is"
    "\<forall>j<find_free q i (unat n). ts_len (q j) \<noteq> 0"
    using f qrep_unat [OF rep] by auto
  show "find_free q i (unat n) \<notin> set is"
  proof (cases "find_free q i (unat n) < unat n")
    case True
    then show ?thesis using f qrep_len [OF rep] by blast
  next
    case False
    then show ?thesis using le qrep_unat [OF rep] qrep_used_prefix(2) [OF rep le(2)] by simp
  qed
qed

end
