(* ===== verification/Tlt_Queue_Remove.thy ===== *)
theory Tlt_Queue_Remove
  imports Tlt_Queue_Chain
begin

text \<open>
  Correctness of removal from the queue of unimportant bytes: what is
  acknowledged leaves the queue (\<open>tlt_segment_remove\<close> from offset 0, the call
  of tlt_in), and what is popped leaves the head block
  (\<open>tlt_segment_remove_round\<close> on a prefix of the head, the call of
  tlt_uimpq_pop).
\<close>

abbreviation pos_blocks :: "uimpq \<Rightarrow> bool" where
  "pos_blocks q \<equiv> \<forall>i. ts_len (q i) \<noteq> 0 \<longrightarrow> 0 < unat (ts_seq (q i))"

definition prev_ptr :: "nat list \<Rightarrow> nat option" where
  "prev_ptr xs = (if xs = [] then None else Some (last xs))"

lemma drop_head_next:
  assumes rep: "qrep q n (p # y # ys)" and d: "drop_block q n None p = (q', n', p', pr)"
  shows "pr \<and> p' = 0 \<and> p = 0 \<and> qrep q' n' (p # ys) \<and> cov q' = (\<Union>j\<in>-{p}. blk (q j))
    \<and> (small_blocks q \<longrightarrow> small_blocks q') \<and> (pos_blocks q \<longrightarrow> pos_blocks q')"
proof -
  have ne: "p \<noteq> y" and p0: "p = 0" and ly: "ts_len (q y) \<noteq> 0"
    using rep by (auto simp: qrep_unfold)
  have nx: "ts_next (q p) = Some y" using qrep_next [of q n "[]" p "y # ys"] rep by simp
  have q': "q' = q(p := (q y)\<lparr>ts_next := ts_next (q y)\<rparr>, y := (q y)\<lparr>ts_len := 0, ts_seq := 0, ts_next := None\<rparr>)"
    and r: "pr" "p' = 0" "n' = n - 1"
    using d ne by (auto simp: drop_block_def nx Let_def)
  have "qrep q' n' ([] @ p # ys)"
    unfolding r by (rule qrep_unlink [where p = y and q = q]) (use rep ne ly in \<open>auto simp: q'\<close>)
  moreover have "cov q' = (\<Union>j\<in>-{p}. blk (q j))"
    unfolding cov_split2 [OF ne] using ne by (auto simp: q')
  moreover have "small_blocks q \<longrightarrow> small_blocks q'"
    unfolding q' small_blocks_def by auto
  moreover have "pos_blocks q \<longrightarrow> pos_blocks q'"
    unfolding q' by auto
  ultimately show ?thesis using r p0 by simp
qed

lemma drop_head_only:
  assumes rep: "qrep q n [p]" and d: "drop_block q n None p = (q', n', p', pr)"
  shows "pr \<and> p' = 0 \<and> qrep q' n' [] \<and> cov q' = (\<Union>j\<in>-{p}. blk (q j))
    \<and> (small_blocks q \<longrightarrow> small_blocks q') \<and> (pos_blocks q \<longrightarrow> pos_blocks q')"
proof -
  have nx: "ts_next (q p) = None" using qrep_next [of q n "[]" p "[]"] rep by simp
  have q': "q' = q(p := \<lparr>ts_seq = 0, ts_len = 0, ts_round = 0, ts_next = None\<rparr>)"
    and r: "pr" "p' = 0" "n' = n - 1"
    using d by (auto simp: drop_block_def nx)
  have "qrep q' n' []"
    unfolding r by (rule qrep_last_gone [OF rep]) (auto simp: q')
  moreover have "cov q' = (\<Union>j\<in>-{p}. blk (q j))"
    unfolding q' cov_upd by simp
  ultimately show ?thesis using r by (auto simp: q' small_blocks_def)
qed

lemma drop_inner:
  assumes rep: "qrep q n (xs @ a # p # ys)" and d: "drop_block q n (Some a) p = (q', n', p', pr)"
  shows "\<not> pr \<and> p' = a \<and> qrep q' n' (xs @ a # ys) \<and> cov q' = (\<Union>j\<in>-{p}. blk (q j))
    \<and> (\<forall>j. j \<noteq> p \<longrightarrow> ts_seq (q' j) = ts_seq (q j))
    \<and> (small_blocks q \<longrightarrow> small_blocks q') \<and> (pos_blocks q \<longrightarrow> pos_blocks q')"
proof -
  have ne: "a \<noteq> p" and la: "ts_len (q a) \<noteq> 0" using rep by (auto simp: qrep_unfold)
  have q': "q' = q(a := (q a)\<lparr>ts_next := ts_next (q p)\<rparr>, p := (q p)\<lparr>ts_len := 0, ts_seq := 0, ts_next := None\<rparr>)"
    and r: "\<not> pr" "p' = a" "n' = n - 1"
    using d ne by (auto simp: drop_block_def Let_def)
  have "qrep q' n' (xs @ a # ys)"
    unfolding r by (rule qrep_unlink [OF rep]) (use ne la in \<open>auto simp: q'\<close>)
  moreover have "cov q' = (\<Union>j\<in>-{p}. blk (q j))"
    unfolding cov_split2 [OF ne] using ne by (auto simp: q')
  ultimately show ?thesis using r ne by (auto simp: q' small_blocks_def)
qed

text \<open>Where the loop stands: the cells \<open>xs\<close> are behind it, \<open>zs\<close> in front.\<close>

definition start :: "bool \<Rightarrow> nat list \<Rightarrow> nat option" where
  "start pr zs = (case zs of [] \<Rightarrow> if pr then Some 0 else None | p # _ \<Rightarrow> Some p)"

definition at :: "uimpq \<Rightarrow> u16 \<Rightarrow> nat list \<Rightarrow> nat list \<Rightarrow> nat option \<Rightarrow> nat option \<Rightarrow> bool \<Rightarrow> bool" where
  "at q n xs zs pps ps pr = (qrep q n (xs @ zs) \<and> (pr \<longrightarrow> xs = []) \<and> pps = prev_ptr xs
     \<and> ps = start pr zs)"

lemma drop_block_spec:
  assumes "at q n xs (p # ys) pps ps pr0" and d: "drop_block q n pps p = (q', n', p', pr)"
    and sp: "small_blocks q" "pos_blocks q"
  obtains xs' zs' where "at q' n' xs' zs' (if pr then None else Some p')
      (if pr then Some p' else ts_next (q' p')) pr"
    "length zs' = length ys" "length xs' \<le> length xs"
    "\<forall>j\<in>set xs'. j \<in> set xs \<and> ts_seq (q' j) = ts_seq (q j)"
    "cov q' = (\<Union>j\<in>-{p}. blk (q j))"
    "small_blocks q'" "pos_blocks q'"
proof (cases xs rule: rev_cases)
  case Nil
  then have rep: "qrep q n (p # ys)" and d0: "drop_block q n None p = (q', n', p', pr)"
    using assms by (auto simp: at_def prev_ptr_def)
  show thesis
  proof (cases ys)
    case Nil
    with rep have "qrep q n [p]" by simp
    note D = drop_head_only [OF this d0]
    show thesis by (rule that [of "[]" "[]"]) (use D Nil sp in \<open>auto simp: at_def prev_ptr_def start_def\<close>)
  next
    case (Cons y zs')
    with rep have "qrep q n (p # y # zs')" by simp
    note D = drop_head_next [OF this d0]
    show thesis
      by (rule that [of "[]" "p # zs'"]) (use D Cons sp in \<open>auto simp: at_def prev_ptr_def start_def\<close>)
  qed
next
  case (snoc xs' a)
  then have rep: "qrep q n (xs' @ a # p # ys)" and d0: "drop_block q n (Some a) p = (q', n', p', pr)"
    using assms by (auto simp: at_def prev_ptr_def)
  note D = drop_inner [OF rep d0]
  have "ts_next (q' a) = (case ys of [] \<Rightarrow> None | y # _ \<Rightarrow> Some y)" using D qrep_next by blast
  moreover have "p \<notin> set xs" using rep snoc by (auto simp: qrep_unfold)
  ultimately show thesis
    by (intro that [of xs ys]) (use D snoc sp in \<open>auto simp: at_def prev_ptr_def start_def\<close>)
qed

section \<open>Acknowledged bytes leave the queue\<close>

text \<open>What one pass does when the range starts at offset 0 and the block does not:
  the block goes, is cut on the left, or stays.\<close>

lemma rm_step_purge:
  assumes "small_blocks q" "0 < unat (ts_seq (q p))" "unat len < 2147483648"
  shows "rm_step q n pps p 0 len 0xFFFFFFFF =
    (if unat (ts_end (q p)) \<le> unat len then
       (case drop_block q n pps p of (q', n', p', pr) \<Rightarrow> Some (False, q', n', p', pr))
     else if unat len \<le> unat (ts_seq (q p)) then Some (False, q, n, p, False)
     else Some (False, q(p := (q p)\<lparr>ts_len := ts_end (q p) - len, ts_seq := len\<rparr>), n, p, False))"
proof -
  note b = small_blocksD [OF assms(1), of p]
  have e: "unat (ts_end (q p)) < 2147483648" using b by simp
  show ?thesis
    using assms b e
    by (simp add: rm_step_def seq_leq_small)
qed

text \<open>A result of a removal loop: a well-formed queue of at most \<open>m\<close> blocks that
  covers \<open>C\<close>.\<close>

definition rm_ok :: "nat set \<Rightarrow> nat \<Rightarrow> (uimpq \<times> u16) option \<Rightarrow> bool" where
  "rm_ok C m r = (\<exists>q n is. r = Some (q, n) \<and> qrep q n is \<and> length is \<le> m
     \<and> small_blocks q \<and> pos_blocks q \<and> cov q = C)"

lemma rm_ok_mono: "rm_ok C m r \<Longrightarrow> m \<le> m' \<Longrightarrow> rm_ok C m' r"
  unfolding rm_ok_def using le_trans by blast

lemma purge_done:
  assumes "at q n xs [] pps ps pr" "small_blocks q" "pos_blocks q"
    "\<forall>i\<in>set xs. unat len \<le> unat (ts_seq (q i))"
  shows "rm_ok (cov q - {..<unat len}) (length xs) (rm_loop (Suc fuel) q n pps ps pr 0 len rnd)"
proof -
  have rep: "qrep q n xs" using assms by (simp add: at_def)
  have "x \<notin> cov q" if "x < unat len" for x
  proof
    assume "x \<in> cov q"
    then obtain i where i: "x \<in> blk (q i)" by (auto simp: cov_def)
    then have "ts_len (q i) \<noteq> 0" by (auto simp: blk_def)
    then have "i \<in> set xs" using rep by (simp add: qrep_len)
    then show False using assms i that by (auto simp: blk_def)
  qed
  then have "cov q = cov q - {..<unat len}" by auto
  moreover have "rm_loop (Suc fuel) q n pps ps pr 0 len rnd = Some (q, n)"
    using assms rep by (auto simp: at_def start_def qrep_nonempty)
  ultimately show ?thesis using rep assms unfolding rm_ok_def by auto
qed

text \<open>Moving on from a block that stays or was shortened.\<close>

lemma at_advance:
  assumes "at q n xs (p # ys) pps ps pr" "\<And>i. ts_next (q' i) = ts_next (q i)"
    "\<And>i. (ts_len (q' i) = 0) = (ts_len (q i) = 0)"
  shows "at q' n (xs @ [p]) ys (Some p) (ts_next (q' p)) False"
proof -
  have "qrep q n (xs @ p # ys)" using assms(1) by (simp add: at_def)
  then have rep: "qrep q' n (xs @ p # ys)" by (rule qrep_same [OF _ assms(2,3)])
  then have "ts_next (q' p) = start False ys" unfolding start_def by (simp add: qrep_next)
  then show ?thesis using rep by (simp add: at_def prev_ptr_def)
qed

lemma purge_loop:
  assumes "at q n xs zs pps ps pr" "small_blocks q" "pos_blocks q"
    "\<forall>i\<in>set xs. unat len \<le> unat (ts_seq (q i))" "unat len < 2147483648" "length zs < fuel"
  shows "rm_ok (cov q - {..<unat len}) (length xs + length zs)
    (rm_loop fuel q n pps ps pr 0 len 0xFFFFFFFF)"
  using assms
proof (induction fuel arbitrary: q n xs zs pps ps pr)
  case (Suc f)
  show ?case
  proof (cases zs)
    case Nil
    then show ?thesis using purge_done Suc.prems by simp
  next
    case (Cons p ys)
    have at: "at q n xs (p # ys) pps ps pr" using Suc.prems Cons by simp
    then have ps: "ps = Some p" and lp: "ts_len (q p) \<noteq> 0"
      by (auto simp: at_def start_def qrep_len_0)
    have sp: "0 < unat (ts_seq (q p))" using Suc.prems lp by simp
    note b = small_blocksD [OF Suc.prems(2), of p]
    note step = rm_step_purge [OF Suc.prems(2) sp Suc.prems(5), of n pps]
    consider (gone) "unat (ts_end (q p)) \<le> unat len"
      | (stay) "\<not> unat (ts_end (q p)) \<le> unat len" "unat len \<le> unat (ts_seq (q p))"
      | (cut) "\<not> unat (ts_end (q p)) \<le> unat len" "\<not> unat len \<le> unat (ts_seq (q p))"
      by blast
    then show ?thesis
    proof cases
      case gone
      obtain q1 n1 p1 pr1 where d: "drop_block q n pps p = (q1, n1, p1, pr1)"
        by (metis prod_cases4)
      obtain xs' zs' where D:
        "at q1 n1 xs' zs' (if pr1 then None else Some p1) (if pr1 then Some p1 else ts_next (q1 p1)) pr1"
        "length zs' = length ys" "length xs' \<le> length xs"
        "\<forall>j\<in>set xs'. j \<in> set xs \<and> ts_seq (q1 j) = ts_seq (q j)"
        "cov q1 = (\<Union>j\<in>-{p}. blk (q j))" "small_blocks q1" "pos_blocks q1"
        by (rule drop_block_spec [OF at d Suc.prems(2,3)])
      have "blk (q p) \<subseteq> {..<unat len}" using gone b by (auto simp: blk_def)
      then have cv: "cov q1 - {..<unat len} = cov q - {..<unat len}"
        using cov_split [of q p] D by auto
      have "rm_ok (cov q1 - {..<unat len}) (length xs' + length zs')
        (rm_loop f q1 n1 (if pr1 then None else Some p1) (if pr1 then Some p1 else ts_next (q1 p1)) pr1 0 len 0xFFFFFFFF)"
        using D Suc.prems Cons by (intro Suc.IH) auto
      then have "rm_ok (cov q1 - {..<unat len}) (length xs + length zs)
        (rm_loop f q1 n1 (if pr1 then None else Some p1) (if pr1 then Some p1 else ts_next (q1 p1)) pr1 0 len 0xFFFFFFFF)"
        by (rule rm_ok_mono) (use D Cons in simp)
      then show ?thesis
        using lp ps step gone d cv by auto
    next
      case stay
      have "at q n (xs @ [p]) ys (Some p) (ts_next (q p)) False"
        by (rule at_advance [OF at]) simp_all
      then have "rm_ok (cov q - {..<unat len}) (length (xs @ [p]) + length ys)
        (rm_loop f q n (Some p) (ts_next (q p)) False 0 len 0xFFFFFFFF)"
        using Suc.prems Cons stay by (intro Suc.IH) auto
      then show ?thesis using lp ps step stay Cons by simp
    next
      case cut
      define q1 where "q1 = q(p := (q p)\<lparr>ts_len := ts_end (q p) - len, ts_seq := len\<rparr>)"
      have ul: "unat (ts_end (q p) - len) = unat (ts_end (q p)) - unat len"
        using cut by (intro unat_minus32) simp
      have l1: "ts_end (q p) - len \<noteq> 0" using ul cut by (metis diff_is_0_eq unat_0)
      have sm1: "small_blocks q1"
        unfolding q1_def by (rule small_blocks_upd [OF Suc.prems(2)]) (use ul b cut in simp)
      have "blk (q1 p) = blk (q p) - {..<unat len}"
        using b cut by (auto simp: blk_def q1_def ul)
      then have cv: "cov q1 - {..<unat len} = cov q - {..<unat len}"
        using cov_split [of q p] cov_split [of q1 p] by (auto simp: q1_def)
      have hi1: "\<forall>i\<in>set (xs @ [p]). unat len \<le> unat (ts_seq (q1 i))"
        using Suc.prems by (auto simp: q1_def)
      have pos1: "pos_blocks q1"
        using Suc.prems cut sp by (auto simp: q1_def)
      have at1: "at q1 n (xs @ [p]) ys (Some p) (ts_next (q1 p)) False"
        by (rule at_advance [OF at]) (use l1 lp in \<open>auto simp: q1_def\<close>)
      have "rm_ok (cov q1 - {..<unat len}) (length (xs @ [p]) + length ys)
        (rm_loop f q1 n (Some p) (ts_next (q1 p)) False 0 len 0xFFFFFFFF)"
        using Suc.prems Cons by (intro Suc.IH at1 sm1 pos1 hi1) auto
      then show ?thesis using lp ps step [folded q1_def] cut Cons cv by simp
    qed
  qed
qed simp

lemma remove_purge:
  assumes "qrep q n is" "small_blocks q" "pos_blocks q" "unat len < 2147483648"
  shows "rm_ok (cov q - {..<unat len}) (length is) (tlt_segment_remove q n 0 len)"
proof (cases "is")
  case Nil
  then have "\<forall>i. ts_len (q i) = 0" using assms by (simp add: qrep_empty_iff)
  then show ?thesis using assms Nil
    by (auto simp: rm_ok_def tlt_segment_remove_def tlt_segment_remove_round_def cov_def)
next
  case (Cons p ys)
  then have "p = 0" "ts_len (q 0) \<noteq> 0" using assms(1) qrep_head qrep_nonempty by fastforce+
  then have "at q n [] is None (Some 0) False"
    using assms(1) Cons by (simp add: at_def start_def prev_ptr_def)
  from purge_loop [OF this assms(2,3) _ assms(4), of "2 * MAX_UIMP_QUEUE_ELEM"]
  show ?thesis using \<open>ts_len (q 0) \<noteq> 0\<close> qrep_length [OF assms(1)]
    by (simp add: tlt_segment_remove_def tlt_segment_remove_round_def MAX_UIMP_QUEUE_ELEM_def)
qed

section \<open>Popped bytes leave the head block\<close>

lemma remove_head:
  assumes rep: "qrep q n (0 # ys)" and sm: "small_blocks q" and pos: "pos_blocks q"
    and len: "len \<le> ts_len (q 0)" and rnd: "rnd = 0xFFFFFFFF \<or> rnd \<le> ts_round (q 0)"
  shows "rm_ok ({unat (ts_seq (q 0)) + unat len ..< unat (ts_seq (q 0)) + unat (ts_len (q 0))}
       \<union> (\<Union>j\<in>-{0}. blk (q j)))
     (length (0 # ys)) (tlt_segment_remove_round q n (ts_seq (q 0)) len rnd)"
proof -
  note b = small_blocksD [OF sm, of 0]
  have l0: "ts_len (q 0) \<noteq> 0" using rep by (simp add: qrep_nonempty)
  have ule: "unat len \<le> unat (ts_len (q 0))" using len by (simp add: word_le_nat_alt)
  have ue: "unat (ts_seq (q 0) + len) = unat (ts_seq (q 0)) + unat len"
    using ule b by (intro unat_plus32) linarith
  have inc: "TCP_SEQ_LEQ (ts_seq (q 0)) (ts_seq (q 0))"
    "TCP_SEQ_LEQ (ts_seq (q 0) + len) (ts_end (q 0))"
    using b ule ue by (simp_all add: seq_leq_small)
  have cr: "\<not> (rnd \<noteq> 0xFFFFFFFF \<and> ts_round (q 0) < rnd)" using rnd by auto
  have fuel: "2 * MAX_UIMP_QUEUE_ELEM = Suc 511" by (simp add: MAX_UIMP_QUEUE_ELEM_def)
  have unf: "tlt_segment_remove_round q n (ts_seq (q 0)) len rnd =
      (case rm_step q n None 0 (ts_seq (q 0)) len rnd of None \<Rightarrow> None
       | Some (brk, q', n', p', pr') \<Rightarrow>
          if brk then Some (q', n')
          else rm_loop 511 q' n' (if pr' then None else Some p')
                 (if pr' then Some p' else ts_next (q' p')) pr' (ts_seq (q 0)) len rnd)"
    unfolding tlt_segment_remove_round_def fuel rm_loop.simps using l0 by simp
  show ?thesis
  proof (cases "len = ts_len (q 0)")
    case True
    obtain q1 n1 p1 pr1 where d: "drop_block q n None 0 = (q1, n1, p1, pr1)"
      by (metis prod_cases4)
    have "at q n [] (0 # ys) None (Some 0) False"
      using rep by (simp add: at_def start_def prev_ptr_def)
    then obtain xs' zs' where D:
      "at q1 n1 xs' zs' (if pr1 then None else Some p1) (if pr1 then Some p1 else ts_next (q1 p1)) pr1"
      "length zs' = length ys" "length xs' \<le> length ([] :: nat list)"
      "\<forall>j\<in>set xs'. j \<in> set [] \<and> ts_seq (q1 j) = ts_seq (q j)"
      "cov q1 = (\<Union>j\<in>-{0}. blk (q j))" "small_blocks q1" "pos_blocks q1"
      by (rule drop_block_spec [OF _ d sm pos])
    have "rm_step q n None 0 (ts_seq (q 0)) len rnd = Some (True, q1, n1, p1, pr1)"
      using inc cr True d unfolding rm_step_def by simp
    then have r: "tlt_segment_remove_round q n (ts_seq (q 0)) len rnd = Some (q1, n1)"
      using unf by simp
    show ?thesis using D True unfolding r rm_ok_def at_def by auto
  next
    case False
    define q1 where "q1 = q(0 := (q 0)\<lparr>ts_len := ts_len (q 0) - len, ts_seq := ts_seq (q 0) + len\<rparr>)"
    have "rm_step q n None 0 (ts_seq (q 0)) len rnd = Some (True, q1, n, 0, False)"
      using inc cr False unfolding rm_step_def q1_def by simp
    then have r: "tlt_segment_remove_round q n (ts_seq (q 0)) len rnd = Some (q1, n)"
      using unf by simp
    have ul: "unat (ts_len (q 0) - len) = unat (ts_len (q 0)) - unat len"
      using ule by (rule unat_minus32)
    have sm1: "small_blocks q1"
      unfolding q1_def by (rule small_blocks_upd [OF sm]) (use ul ue b ule in simp)
    have pos1: "pos_blocks q1" using pos l0 ue by (auto simp: q1_def)
    have rep1: "qrep q1 n (0 # ys)"
      by (rule qrep_same [OF rep]) (use l0 False in \<open>auto simp: q1_def\<close>)
    have "blk (q1 0) = {unat (ts_seq (q 0)) + unat len ..< unat (ts_seq (q 0)) + unat (ts_len (q 0))}"
      using ule by (simp add: q1_def blk_def ul ue)
    then have "cov q1 = {unat (ts_seq (q 0)) + unat len ..< unat (ts_seq (q 0)) + unat (ts_len (q 0))}
      \<union> (\<Union>j\<in>-{0}. blk (q j))"
      using cov_split [of q1 0] by (auto simp: q1_def)
    then show ?thesis using rep1 sm1 pos1 unfolding r rm_ok_def by auto
  qed
qed

end
