(* ===== verification/Tlt_Queue_Add.thy ===== *)
theory Tlt_Queue_Add
  imports Tlt_Queue_Remove
begin

text \<open>
  Correctness of \<open>tlt_segment_add\<close>: with room for the pieces it can create, adding
  a range stays inside the array, terminates, keeps the chain well formed and
  makes the queue cover exactly the old bytes and the new range.
\<close>

definition rng :: "u32 \<Rightarrow> u32 \<Rightarrow> nat set" where
  "rng seq len = {unat seq ..< unat seq + unat len}"

lemma rng_zero [simp]: "rng seq 0 = {}"
  by (simp add: rng_def)

text \<open>The loop state: \<open>i\<close> is the free cell to take next, and the queue together
  with the rest of the range covers \<open>C\<close>.\<close>

definition ainv :: "uimpq \<Rightarrow> u16 \<Rightarrow> nat \<Rightarrow> nat list \<Rightarrow> u32 \<Rightarrow> u32 \<Rightarrow> nat set \<Rightarrow> bool" where
  "ainv q n i is seq len C = (qrep q n is \<and> small_blocks q \<and> pos_blocks q
     \<and> (\<forall>j<i. ts_len (q j) \<noteq> 0) \<and> i \<notin> set is
     \<and> unat seq + unat len < 2147483648 \<and> 0 < unat seq \<and> cov q \<union> rng seq len = C)"

lemma ainv_slot: "ainv q n i is seq len C \<Longrightarrow> length is < 256 \<Longrightarrow> i < 256"
  using qrep_used_prefix(1) [of q n "is" i] by (auto simp: ainv_def)

text \<open>Linking the free cell \<open>i\<close> behind \<open>p\<close>.\<close>

lemma link_after:
  assumes inv: "ainv q n i (xs @ p # ys) seq len C" and room: "length (xs @ p # ys) < 256"
    and q': "q' i = ci" "q' p = cp" "\<And>j. j \<noteq> i \<Longrightarrow> j \<noteq> p \<Longrightarrow> q' j = q j"
    and cp: "ts_next cp = Some i" "ts_len cp \<noteq> 0"
    and ci: "ts_next ci = ts_next (q p)" "ts_len ci \<noteq> 0"
    and bnd: "unat (ts_seq cp) + unat (ts_len cp) < 2147483648" "0 < unat (ts_seq cp)"
      "unat (ts_seq ci) + unat (ts_len ci) < 2147483648" "0 < unat (ts_seq ci)"
    and rest: "unat seq' + unat len' < 2147483648" "0 < unat seq'"
    and cv: "blk ci \<union> blk cp \<union> rng seq' len' \<union> R = blk (q p) \<union> rng seq len \<union> R"
      "R = (\<Union>k\<in>-{i, p}. blk (q k))"
  shows "ainv q' (n + 1) (next_free q' i (n + 1)) (xs @ p # i # ys) seq' len' C"
proof -
  have i: "i \<notin> set (xs @ p # ys)" and rep: "qrep q n (xs @ p # ys)" using inv by (auto simp: ainv_def)
  have ib: "i < 256" using ainv_slot [OF inv room] .
  have ne: "i \<noteq> p" using i by auto
  have rep': "qrep q' (n + 1) (xs @ p # i # ys)"
    by (rule qrep_insert [OF rep i ib]) (use q' cp ci in auto)
  have used: "\<forall>j<i. ts_len (q' j) \<noteq> 0"
    using inv q' cp by (metis ainv_def less_irrefl_nat)
  note f = qrep_find_free [OF rep' used]
  have bi: "blk (q i) = {}" using rep i by (simp add: qrep_len_0)
  have "(\<Union>k\<in>-{i, p}. blk (q' k)) = R" using q' cv(2) by auto
  then have "cov q' = blk ci \<union> blk cp \<union> R" using cov_split2 [OF ne, of q'] q' by simp
  moreover have "cov q = blk (q p) \<union> R" using cov_split2 [OF ne, of q] cv(2) bi by simp
  ultimately have "cov q' \<union> rng seq' len' = C" using cv(1) inv unfolding ainv_def by blast
  moreover have "small_blocks q'" "pos_blocks q'"
    using inv q' bnd unfolding ainv_def small_blocks_def by metis+
  ultimately show ?thesis
    using rep' f rest unfolding ainv_def next_free_def by blast
qed

text \<open>The case distinction of the loop in terms of offsets.\<close>

lemma add_step_small:
  assumes "small_blocks q" "unat seq + unat len < 2147483648"
    "a = unat (ts_seq (q p))" "b = a + unat (ts_len (q p))" "s = unat seq" "e = s + unat len"
  shows "TCP_SEQ_LEQ (ts_seq (q p)) seq = (a \<le> s)" "TCP_SEQ_LEQ (seq + len) (ts_end (q p)) = (e \<le> b)"
    "TCP_SEQ_LEQ seq (ts_seq (q p)) = (s \<le> a)" "TCP_SEQ_LEQ (ts_end (q p)) (seq + len) = (b \<le> e)"
    "TCP_SEQ_LEQ (seq + len) (ts_seq (q p)) = (e \<le> a)" "TCP_SEQ_LEQ (ts_end (q p)) seq = (b \<le> s)"
    "unat (seq + len) = e" "unat (ts_end (q p)) = b"
proof -
  note bl = small_blocksD [OF assms(1), of p]
  show u: "unat (seq + len) = e" "unat (ts_end (q p)) = b"
    using assms bl by (simp_all add: unat_plus32)
  show "TCP_SEQ_LEQ (ts_seq (q p)) seq = (a \<le> s)" "TCP_SEQ_LEQ (seq + len) (ts_end (q p)) = (e \<le> b)"
    "TCP_SEQ_LEQ seq (ts_seq (q p)) = (s \<le> a)" "TCP_SEQ_LEQ (ts_end (q p)) (seq + len) = (b \<le> e)"
    "TCP_SEQ_LEQ (seq + len) (ts_seq (q p)) = (e \<le> a)" "TCP_SEQ_LEQ (ts_end (q p)) seq = (b \<le> s)"
    using assms bl u by (simp_all add: seq_leq_small)
qed

lemma noop_step:
  assumes "small_blocks q" "unat seq + unat len < 2147483648" "len \<noteq> 0" "ts_len (q p) \<noteq> 0"
    "unat seq + unat len \<le> unat (ts_seq (q p)) \<or> unat (ts_seq (q p)) + unat (ts_len (q p)) \<le> unat seq"
  shows "add_step q n i p seq len rnd = Some (False, q, n, i, seq, len)"
proof -
  have "0 < unat len" "0 < unat (ts_len (q p))" using assms by (simp_all add: unat_gt_0)
  then show ?thesis
    using assms(5) unfolding add_step_def add_step_small [OF assms(1,2) refl refl refl refl]
    by (auto simp: not_le)
qed

lemma inside_step:
  assumes "small_blocks q" "unat seq + unat len < 2147483648"
    "unat (ts_seq (q p)) \<le> unat seq" "unat seq + unat len \<le> unat (ts_seq (q p)) + unat (ts_len (q p))"
    "ts_round (q p) = rnd"
  shows "add_step q n i p seq len rnd = Some (True, q, n, i, seq, 0)"
  using assms unfolding add_step_def add_step_small [OF assms(1,2) refl refl refl refl] by simp

lemma ainv_inside:
  assumes "ainv q n i is seq len C" "rng seq len \<subseteq> cov q"
  shows "ainv q n i is seq 0 C"
  using assms by (auto simp: ainv_def)

lemma blk_sub_cov: "blk (q p) \<subseteq> cov q"
  by (auto simp: cov_def)

lemma ainv_same:
  assumes "ainv q n i is seq len C" "\<And>j. ts_next (q' j) = ts_next (q j)"
    "\<And>j. ts_seq (q' j) = ts_seq (q j)" "\<And>j. ts_len (q' j) = ts_len (q j)"
  shows "ainv q' n i is seq len C"
proof -
  have r: "qrep q n is" using assms(1) by (simp add: ainv_def)
  have "qrep q' n is" by (rule qrep_same [OF r]) (simp_all add: assms(2,4))
  moreover have "cov q' = cov q" by (rule cov_same) (simp_all add: assms(3,4))
  ultimately show ?thesis using assms by (simp add: ainv_def small_blocks_def)
qed

text \<open>The three-way split.\<close>

lemma split_abc:
  assumes inv: "ainv q n i (xs @ p # ys) seq len C" and room: "Suc (length (xs @ p # ys)) < 256"
    and len: "len \<noteq> 0"
    and ab: "unat (ts_seq (q p)) < unat seq" "unat seq + unat len < unat (ts_seq (q p)) + unat (ts_len (q p))"
  shows "\<exists>q' i' i''. add_split q n i p seq len rnd = Some (q', n + 1 + 1, i'')
    \<and> ainv q' (n + 1 + 1) i'' (xs @ p # i # i' # ys) seq len C
    \<and> ts_next (q' p) = Some i \<and> ts_seq (q' i) = seq \<and> ts_len (q' i) = len \<and> ts_round (q' i) = rnd"
proof -
  have rep: "qrep q n (xs @ p # ys)" and sm: "small_blocks q" and i: "i \<notin> set (xs @ p # ys)"
    and tb: "unat seq + unat len < 2147483648" "0 < unat seq" and pos: "pos_blocks q"
    using inv by (auto simp: ainv_def)
  have ne: "i \<noteq> p" "p \<noteq> i" using i by auto
  have lp: "ts_len (q p) \<noteq> 0" using rep by (simp add: qrep_len)
  have ib: "i < 256" using ainv_slot [OF inv] room by simp
  note b = small_blocksD [OF sm, of p]
  define bc where "bc = (q i)\<lparr>ts_seq := seq, ts_len := len, ts_round := rnd\<rparr>"
  define v where "v = q(i := bc\<lparr>ts_next := ts_next (q p)\<rparr>, p := (q p)\<lparr>ts_next := Some i\<rparr>)"
  have sub: "rng seq len \<subseteq> blk (q p)" using ab by (auto simp: rng_def blk_def)
  have v: "ainv v (n + 1) (next_free v i (n + 1)) (xs @ p # i # ys) seq len C"
    by (rule link_after [OF inv _ _ _ _ _ _ _ _ _ _ _ _ tb, where ci = "bc\<lparr>ts_next := ts_next (q p)\<rparr>"
          and cp = "(q p)\<lparr>ts_next := Some i\<rparr>"])
      (use room ne lp len b tb pos sub in \<open>auto simp: v_def bc_def blk_def rng_def\<close>)
  define i1 where "i1 = next_free v i (n + 1)"
  have v': "ainv v (n + 1) i1 ((xs @ [p]) @ i # ys) seq len C" using v by (simp add: i1_def)
  have i1: "i1 \<noteq> i" "i1 \<noteq> p" "i1 < 256"
    using v' ainv_slot [OF v'] room by (auto simp: ainv_def)
  define q2 where "q2 = q(i := bc, p := (q p)\<lparr>ts_next := Some i\<rparr>)"
  have "ts_len (q2 j) = ts_len (v j)" for j by (simp add: q2_def v_def)
  then have "find_free q2 j k = find_free v j k" for j k
    by (induction v j k rule: find_free.induct) (metis find_free.simps)
  then have nf: "next_free q2 i (n + 1) = i1" by (simp add: i1_def next_free_def)
  define q4 where "q4 = q2(i1 := (q2 i1)\<lparr>ts_seq := seq, ts_len := len,
     ts_round := ts_round (q p), ts_next := ts_next (q p)\<rparr>, i := bc\<lparr>ts_next := Some i1\<rparr>)"
  have w: "ainv q4 (n + 1 + 1) (next_free q4 i1 (n + 1 + 1)) ((xs @ [p]) @ i # i1 # ys) seq len C"
    by (rule link_after [OF v' _ _ _ _ _ _ _ _ _ _ _ _ tb, where cp = "bc\<lparr>ts_next := Some i1\<rparr>"
          and ci = "(q2 i1)\<lparr>ts_seq := seq, ts_len := len, ts_round := ts_round (q p), ts_next := ts_next (q p)\<rparr>"])
      (use room ne lp len tb i1 in \<open>auto simp: q4_def q2_def v_def bc_def blk_def rng_def\<close>)
  have nz: "seq - ts_seq (q p) > 0" "ts_end (q p) - (seq + len) > 0"
    using ab b tb by (auto simp: word_gt_0 unat_plus32 dest: arg_cong [where f = unat])
  have "add_split q n i p seq len rnd = Some (q4, n + 1 + 1, next_free q4 i1 (n + 1 + 1))"
    unfolding add_split_def Let_def if_P [OF nz(1)] if_P [OF nz(2)]
    using ib i1 ne nf
    by (simp add: wr_def MAX_UIMP_QUEUE_ELEM_def q4_def q2_def bc_def)
  then show ?thesis using w ne i1 by (auto simp: q4_def q2_def bc_def intro!: exI)
qed

text \<open>The facts about the loop state the remaining cases share.\<close>

lemma ainv_facts:
  assumes inv: "ainv q n i (xs @ p # ys) seq len C" and room: "length (xs @ p # ys) < 256"
  shows "small_blocks q" "unat seq + unat len < 2147483648" "0 < unat seq" "i \<noteq> p" "p \<noteq> i"
    "ts_len (q p) \<noteq> 0" "i < 256" "0 < unat (ts_seq (q p))" "0 < unat (ts_len (q p))"
    "unat (ts_end (q p)) = unat (ts_seq (q p)) + unat (ts_len (q p))"
    "unat (seq + len) = unat seq + unat len"
    "unat (ts_seq (q p)) + unat (ts_len (q p)) < 2147483648"
proof -
  have rep: "qrep q n (xs @ p # ys)" and sm: "small_blocks q" and i: "i \<notin> set (xs @ p # ys)"
    and tb: "unat seq + unat len < 2147483648" "0 < unat seq" and pos: "pos_blocks q"
    using inv by (auto simp: ainv_def)
  have lp: "ts_len (q p) \<noteq> 0" using rep by (simp add: qrep_len)
  then show "small_blocks q" "unat seq + unat len < 2147483648" "0 < unat seq" "i \<noteq> p" "p \<noteq> i"
    "ts_len (q p) \<noteq> 0" "i < 256" "0 < unat (ts_seq (q p))" "0 < unat (ts_len (q p))"
    using sm tb i pos ainv_slot [OF inv room] by (auto simp: unat_gt_0)
  show "unat (ts_end (q p)) = unat (ts_seq (q p)) + unat (ts_len (q p))"
    "unat (ts_seq (q p)) + unat (ts_len (q p)) < 2147483648"
    using small_blocksD [OF sm] by auto
  show "unat (seq + len) = unat seq + unat len" using tb by (intro unat_plus32) simp
qed

lemma split_ab:
  assumes inv: "ainv q n i (xs @ p # ys) seq len C" and room: "length (xs @ p # ys) < 256"
    and len: "len \<noteq> 0"
    and ab: "unat (ts_seq (q p)) < unat seq" "unat seq + unat len = unat (ts_seq (q p)) + unat (ts_len (q p))"
  shows "\<exists>q' i'. add_split q n i p seq len rnd = Some (q', n + 1, i')
    \<and> ainv q' (n + 1) i' (xs @ p # i # ys) seq len C
    \<and> ts_next (q' p) = Some i \<and> ts_seq (q' i) = seq \<and> ts_len (q' i) = len \<and> ts_round (q' i) = rnd"
proof -
  note F = ainv_facts [OF inv room]
  define ci where "ci = (q i)\<lparr>ts_seq := seq, ts_len := len, ts_round := rnd, ts_next := ts_next (q p)\<rparr>"
  define q' where "q' = q(i := ci, p := (q p)\<lparr>ts_next := Some i\<rparr>)"
  have v: "ainv q' (n + 1) (next_free q' i (n + 1)) (xs @ p # i # ys) seq len C"
    by (rule link_after [OF inv room _ _ _ _ _ _ _ _ _ _ _ F(2,3), where ci = ci
          and cp = "(q p)\<lparr>ts_next := Some i\<rparr>"])
      (use F len in \<open>auto simp: q'_def ci_def blk_def rng_def\<close>)
  have nz: "seq - ts_seq (q p) > 0" using ab by (auto simp: word_gt_0)
  have "unat (ts_end (q p)) = unat (seq + len)" using ab F by simp
  then have z: "\<not> ts_end (q p) - (seq + len) > 0" by (simp add: word_unat_eq_iff [symmetric])
  have "add_split q n i p seq len rnd = Some (q', n + 1, next_free q' i (n + 1))"
    unfolding add_split_def Let_def if_P [OF nz] if_not_P [OF z] using F
    by (simp add: wr_def MAX_UIMP_QUEUE_ELEM_def q'_def ci_def fun_upd_twist)
  then show ?thesis using v F by (auto simp: q'_def ci_def)
qed

lemma split_bc:
  assumes inv: "ainv q n i (xs @ p # ys) seq len C" and room: "length (xs @ p # ys) < 256"
    and ab: "ts_seq (q p) = seq" "unat seq + unat len < unat (ts_seq (q p)) + unat (ts_len (q p))"
  shows "\<exists>q' i'. add_split q n i p seq len rnd = Some (q', n + 1, i')
    \<and> ainv q' (n + 1) i' (xs @ p # i # ys) seq len C
    \<and> ts_next (q' p) = Some i \<and> ts_seq (q' i) = seq + len"
proof -
  note F = ainv_facts [OF inv room]
  define ci where "ci = (q i)\<lparr>ts_seq := seq + len, ts_len := ts_end (q p) - (seq + len),
    ts_round := ts_round (q p), ts_next := ts_next (q p)\<rparr>"
  define q' where "q' = q(i := ci, p := (q p)\<lparr>ts_next := Some i\<rparr>)"
  have ul: "unat (ts_end (q p) - (seq + len)) = unat (ts_end (q p)) - unat (seq + len)"
    using ab F by (intro unat_minus32) simp
  have nz: "ts_end (q p) - (seq + len) \<noteq> 0" using ab F by (metis eq_iff_diff_eq_0 less_irrefl_nat)
  have v: "ainv q' (n + 1) (next_free q' i (n + 1)) (xs @ p # i # ys) seq len C"
    by (rule link_after [OF inv room _ _ _ _ _ _ _ _ _ _ _ F(2,3), where ci = ci
          and cp = "(q p)\<lparr>ts_next := Some i\<rparr>"])
      (use F nz ul ab in \<open>auto simp: q'_def ci_def blk_def rng_def\<close>)
  have z: "\<not> seq - ts_seq (q p) > 0" using ab by simp
  have "add_split q n i p seq len rnd = Some (q', n + 1, next_free q' i (n + 1))"
    unfolding add_split_def Let_def if_not_P [OF z] if_P [OF nz] using F
    by (simp add: wr_def MAX_UIMP_QUEUE_ELEM_def q'_def ci_def)
  then show ?thesis using v F by (auto simp: q'_def ci_def)
qed

text \<open>A block inside the range, with bytes of the range in front of it.\<close>

lemma step_cover:
  assumes inv: "ainv q n i (xs @ p # ys) seq len C" and room: "length (xs @ p # ys) < 256"
    and ab: "unat seq < unat (ts_seq (q p))" "unat (ts_seq (q p)) + unat (ts_len (q p)) \<le> unat seq + unat len"
  shows "\<exists>q' i'. add_step q n i p seq len rnd =
      Some (seq + len - ts_end (q p) = 0, q', n + 1, i', ts_end (q p), seq + len - ts_end (q p))
    \<and> ainv q' (n + 1) i' (xs @ p # i # ys) (ts_end (q p)) (seq + len - ts_end (q p)) C
    \<and> ts_next (q' p) = Some i \<and> ts_end (q' i) = ts_seq (q p)"
proof -
  note F = ainv_facts [OF inv room]
  note S = add_step_small [OF F(1,2) refl refl refl refl]
  define ci where "ci = (q i)\<lparr>ts_seq := seq, ts_len := ts_seq (q p) - seq, ts_round := rnd, ts_next := ts_next (q p)\<rparr>"
  define q' where "q' = q(i := ci, p := (q p)\<lparr>ts_round := rnd, ts_next := Some i\<rparr>)"
  have ul: "unat (ts_seq (q p) - seq) = unat (ts_seq (q p)) - unat seq"
    "unat (seq + len - ts_end (q p)) = unat (seq + len) - unat (ts_end (q p))"
    by (rule unat_minus32, use ab F in simp)+
  have nz: "ts_seq (q p) - seq \<noteq> 0" using ab by auto
  have v: "ainv q' (n + 1) (next_free q' i (n + 1)) (xs @ p # i # ys) (ts_end (q p)) (seq + len - ts_end (q p)) C"
    by (rule link_after [OF inv room, where ci = ci and cp = "(q p)\<lparr>ts_round := rnd, ts_next := Some i\<rparr>"])
      (use F nz ul ab in \<open>auto simp: q'_def ci_def blk_def rng_def\<close>)
  have c: "\<not> (unat (ts_seq (q p)) \<le> unat seq)" "seq < ts_seq (q p)" "unat seq \<le> unat (ts_seq (q p))"
    using ab by (auto simp: word_less_nat_alt)
  have "add_step q n i p seq len rnd =
      Some (seq + len - ts_end (q p) = 0, q', n + 1, next_free q' i (n + 1), ts_end (q p), seq + len - ts_end (q p))"
    unfolding add_step_def S using F c ab
    by (simp add: wr_def MAX_UIMP_QUEUE_ELEM_def q'_def ci_def fun_upd_twist Let_def)
  then show ?thesis using v F by (auto simp: q'_def ci_def)
qed

text \<open>Overlap at one end of the range.\<close>

lemma step_left:
  assumes inv: "ainv q n i (xs @ p # ys) seq len C" and room: "length (xs @ p # ys) < 256"
    and ab: "unat seq < unat (ts_seq (q p))" "unat (ts_seq (q p)) < unat seq + unat len"
      "unat seq + unat len < unat (ts_seq (q p)) + unat (ts_len (q p))"
    and rd: "ts_round (q p) \<noteq> rnd"
  shows "\<exists>q' i'. add_step q n i p seq len rnd = Some (False, q', n + 1, i', seq, ts_seq (q p) - seq)
    \<and> ainv q' (n + 1) i' (xs @ p # i # ys) seq (ts_seq (q p) - seq) C
    \<and> ts_next (q' p) = Some i \<and> ts_seq (q' i) = seq + len"
proof -
  note F = ainv_facts [OF inv room]
  note S = add_step_small [OF F(1,2) refl refl refl refl]
  define ci where "ci = (q i)\<lparr>ts_seq := seq + len, ts_len := ts_end (q p) - (seq + len),
    ts_round := ts_round (q p), ts_next := ts_next (q p)\<rparr>"
  define cp where "cp = (q p)\<lparr>ts_next := Some i, ts_len := seq + len - ts_seq (q p), ts_round := rnd\<rparr>"
  define q' where "q' = q(i := ci, p := cp)"
  have ul: "unat (ts_seq (q p) - seq) = unat (ts_seq (q p)) - unat seq"
    "unat (ts_end (q p) - (seq + len)) = unat (ts_end (q p)) - unat (seq + len)"
    "unat (seq + len - ts_seq (q p)) = unat (seq + len) - unat (ts_seq (q p))"
    by (rule unat_minus32, use ab F in simp)+
  have nz: "ts_end (q p) - (seq + len) \<noteq> 0" "seq + len - ts_seq (q p) \<noteq> 0"
    using ab F by (metis eq_iff_diff_eq_0 less_irrefl_nat)+
  have v: "ainv q' (n + 1) (next_free q' i (n + 1)) (xs @ p # i # ys) seq (ts_seq (q p) - seq) C"
    by (rule link_after [OF inv room, where ci = ci and cp = cp])
      (use F nz ul ab in \<open>auto simp: q'_def ci_def cp_def blk_def rng_def\<close>)
  have "add_step q n i p seq len rnd = Some (False, q', n + 1, next_free q' i (n + 1), seq, ts_seq (q p) - seq)"
    unfolding add_step_def S using F ab rd
    by (simp add: wr_def MAX_UIMP_QUEUE_ELEM_def q'_def ci_def cp_def Let_def)
  then show ?thesis using v F by (auto simp: q'_def ci_def cp_def)
qed

lemma step_right:
  assumes inv: "ainv q n i (xs @ p # ys) seq len C" and room: "length (xs @ p # ys) < 256"
    and ab: "unat (ts_seq (q p)) < unat seq" "unat seq < unat (ts_seq (q p)) + unat (ts_len (q p))"
      "unat (ts_seq (q p)) + unat (ts_len (q p)) < unat seq + unat len"
    and rd: "ts_round (q p) \<noteq> rnd"
  shows "\<exists>q' i'. add_step q n i p seq len rnd = Some (False, q', n + 1, i', seq, len)
    \<and> ainv q' (n + 1) i' (xs @ p # i # ys) seq len C
    \<and> ts_next (q' p) = Some i \<and> ts_seq (q' i) = seq \<and> ts_end (q' i) = ts_end (q p)"
proof -
  note F = ainv_facts [OF inv room]
  note S = add_step_small [OF F(1,2) refl refl refl refl]
  define ci where "ci = (q i)\<lparr>ts_seq := seq, ts_len := ts_end (q p) - seq, ts_round := rnd, ts_next := ts_next (q p)\<rparr>"
  define cp where "cp = (q p)\<lparr>ts_next := Some i, ts_len := seq - ts_seq (q p)\<rparr>"
  define q' where "q' = q(i := ci, p := cp)"
  have ul: "unat (ts_end (q p) - seq) = unat (ts_end (q p)) - unat seq"
    "unat (seq - ts_seq (q p)) = unat seq - unat (ts_seq (q p))"
    by (rule unat_minus32, use ab F in simp)+
  have nz: "ts_end (q p) - seq \<noteq> 0" "seq - ts_seq (q p) \<noteq> 0"
    using ab F by (metis eq_iff_diff_eq_0 less_irrefl_nat)+
  have v: "ainv q' (n + 1) (next_free q' i (n + 1)) (xs @ p # i # ys) seq len C"
    by (rule link_after [OF inv room _ _ _ _ _ _ _ _ _ _ _ F(2,3), where ci = ci and cp = cp])
      (use F nz ul ab in \<open>auto simp: q'_def ci_def cp_def blk_def rng_def\<close>)
  have "add_step q n i p seq len rnd = Some (False, q', n + 1, next_free q' i (n + 1), seq, len)"
    unfolding add_step_def S using F ab rd
    by (simp add: wr_def MAX_UIMP_QUEUE_ELEM_def q'_def ci_def cp_def Let_def)
  then show ?thesis using v F by (auto simp: q'_def ci_def cp_def)
qed

text \<open>The cases that change no cell.\<close>

lemma ainv_shrink:
  assumes "ainv q n i is seq len C" "rng seq' len' \<union> blk (q p) = rng seq len \<union> blk (q p)"
    "unat seq' + unat len' < 2147483648" "0 < unat seq'"
  shows "ainv q n i is seq' len' C"
  using assms blk_sub_cov [of q p] unfolding ainv_def by blast

lemma step_left_same:
  assumes inv: "ainv q n i (xs @ p # ys) seq len C" and room: "length (xs @ p # ys) < 256"
    and ab: "unat seq < unat (ts_seq (q p))" "unat (ts_seq (q p)) < unat seq + unat len"
      "unat seq + unat len < unat (ts_seq (q p)) + unat (ts_len (q p))"
    and rd: "ts_round (q p) = rnd"
  shows "add_step q n i p seq len rnd = Some (False, q, n, i, seq, ts_seq (q p) - seq)"
    "ainv q n i (xs @ p # ys) seq (ts_seq (q p) - seq) C"
proof -
  note F = ainv_facts [OF inv room]
  note S = add_step_small [OF F(1,2) refl refl refl refl]
  have ul: "unat (ts_seq (q p) - seq) = unat (ts_seq (q p)) - unat seq"
    by (rule unat_minus32, use ab F in simp)
  show "add_step q n i p seq len rnd = Some (False, q, n, i, seq, ts_seq (q p) - seq)"
    unfolding add_step_def S using F ab rd by simp
  show "ainv q n i (xs @ p # ys) seq (ts_seq (q p) - seq) C"
    by (rule ainv_shrink [OF inv, where p = p]) (use F ab ul in \<open>auto simp: rng_def blk_def\<close>)
qed

lemma step_right_keep:
  assumes inv: "ainv q n i (xs @ p # ys) seq len C" and room: "length (xs @ p # ys) < 256"
    and ab: "unat (ts_seq (q p)) \<le> unat seq" "unat seq < unat (ts_seq (q p)) + unat (ts_len (q p))"
      "unat (ts_seq (q p)) + unat (ts_len (q p)) < unat seq + unat len"
    and rd: "unat (ts_seq (q p)) = unat seq \<or> ts_round (q p) = rnd"
  shows "add_step q n i p seq len rnd = Some (False, q, n, i, ts_end (q p), seq + len - ts_end (q p))"
    "ainv q n i (xs @ p # ys) (ts_end (q p)) (seq + len - ts_end (q p)) C" "seq + len - ts_end (q p) \<noteq> 0"
proof -
  note F = ainv_facts [OF inv room]
  note S = add_step_small [OF F(1,2) refl refl refl refl]
  have ul: "unat (seq + len - ts_end (q p)) = unat (seq + len) - unat (ts_end (q p))"
    by (rule unat_minus32, use ab F in simp)
  show nz: "seq + len - ts_end (q p) \<noteq> 0" using ab F by (metis eq_iff_diff_eq_0 less_irrefl_nat)
  show "add_step q n i p seq len rnd = Some (False, q, n, i, ts_end (q p), seq + len - ts_end (q p))"
    unfolding add_step_def S using F ab rd nz by (auto simp: word_less_nat_alt Let_def)
  show "ainv q n i (xs @ p # ys) (ts_end (q p)) (seq + len - ts_end (q p)) C"
    by (rule ainv_shrink [OF inv, where p = p]) (use F ab ul in \<open>auto simp: rng_def blk_def\<close>)
qed

section \<open>The loop over the blocks\<close>

lemma ainv_next: "ainv q n i (xs @ p # ys) seq len C \<Longrightarrow> ts_next (q p) = start False ys"
  using qrep_next [of q n xs p ys] by (simp add: ainv_def start_def)

lemma add_loop_go:
  assumes "add_step q n i p seq len rnd = Some (False, q', n', i', seq', len')"
  shows "add_loop (Suc f) q n i (Some p) seq len rnd = add_loop f q' n' i' (ts_next (q' p)) seq' len' rnd"
  using assms by simp

lemma add_loop_break:
  assumes "add_step q n i p seq len rnd = Some (True, q', n', i', seq', len')"
  shows "add_loop (Suc f) q n i (Some p) seq len rnd = Some (q', n', i', seq', len')"
  using assms by simp

definition add_done :: "nat set \<Rightarrow> nat \<Rightarrow> (uimpq \<times> u16 \<times> nat \<times> u32 \<times> u32) option \<Rightarrow> bool" where
  "add_done C m r = (\<exists>q n i is seq len. r = Some (q, n, i, seq, len) \<and> ainv q n i is seq len C
     \<and> is \<noteq> [] \<and> length is + (if len = 0 then 0 else 1) \<le> m)"

lemma add_doneI:
  "ainv q n i is seq len C \<Longrightarrow> is \<noteq> [] \<Longrightarrow> length is + (if len = 0 then 0 else 1) \<le> m \<Longrightarrow>
   add_done C m (Some (q, n, i, seq, len))"
  unfolding add_done_def by blast

text \<open>A new cell \<open>j\<close> that the current range does not touch is passed by.\<close>

lemma pass_new:
  assumes inv: "ainv q n i (xs @ p # j # ys) seq len C" and room: "length (xs @ p # j # ys) < 256"
    and len: "len \<noteq> 0"
    and apart: "unat seq + unat len \<le> unat (ts_seq (q j)) \<or> unat (ts_end (q j)) \<le> unat seq"
  shows "add_loop (Suc f) q n i (Some j) seq len rnd = add_loop f q n i (start False ys) seq len rnd"
proof -
  have inv': "ainv q n i ((xs @ [p]) @ j # ys) seq len C" using inv by simp
  have room': "length ((xs @ [p]) @ j # ys) < 256" using room by simp
  note F = ainv_facts [OF inv' room']
  have "add_step q n i j seq len rnd = Some (False, q, n, i, seq, len)"
    by (rule noop_step) (use F len apart in auto)
  from add_loop_go [OF this] show ?thesis using ainv_next [OF inv'] by simp
qed

text \<open>What one block of the chain contributes: the loop ends, or goes on behind it
  with at most one cell more in front.\<close>

definition passes :: "nat \<Rightarrow> uimpq \<Rightarrow> u16 \<Rightarrow> nat \<Rightarrow> nat list \<Rightarrow> nat \<Rightarrow> nat list \<Rightarrow> u32 \<Rightarrow> u32 \<Rightarrow> u32
    \<Rightarrow> nat set \<Rightarrow> bool" where
  "passes f q n i xs p ys seq len rnd C = (\<exists>q' n' i' xs' seq' len' f'.
     add_loop (Suc (Suc f)) q n i (Some p) seq len rnd = add_loop f' q' n' i' (start False ys) seq' len' rnd
     \<and> f \<le> f' \<and> ainv q' n' i' (xs' @ ys) seq' len' C \<and> len' \<noteq> 0 \<and> xs' \<noteq> [] \<and> length xs' \<le> length xs + 2)"

lemma passes_keep:
  assumes "add_step q n i p seq len rnd = Some (False, q', n', i', seq', len')"
    "ainv q' n' i' (xs @ p # ys) seq' len' C" "len' \<noteq> 0"
  shows "passes f q n i xs p ys seq len rnd C"
proof -
  have "add_loop (Suc (Suc f)) q n i (Some p) seq len rnd
    = add_loop (Suc f) q' n' i' (start False ys) seq' len' rnd"
    using add_loop_go [OF assms(1), of "Suc f"] ainv_next [OF assms(2)] by simp
  then show ?thesis unfolding passes_def
    using assms by (intro exI [of _ q'] exI [of _ n'] exI [of _ i'] exI [of _ "xs @ [p]"]
        exI [of _ seq'] exI [of _ len'] exI [of _ "Suc f"]) simp
qed

lemma passes_new:
  assumes "add_step q n i p seq len rnd = Some (False, q', n', i', seq', len')"
    "ts_next (q' p) = Some j" "ainv q' n' i' (xs @ p # j # ys) seq' len' C" "len' \<noteq> 0"
    "length (xs @ p # j # ys) < 256"
    "unat seq' + unat len' \<le> unat (ts_seq (q' j)) \<or> unat (ts_end (q' j)) \<le> unat seq'"
  shows "passes f q n i xs p ys seq len rnd C"
proof -
  have "add_loop (Suc (Suc f)) q n i (Some p) seq len rnd
    = add_loop f q' n' i' (start False ys) seq' len' rnd"
    using add_loop_go [OF assms(1), of "Suc f"] assms(2) pass_new [OF assms(3,5,4,6)] by simp
  then show ?thesis unfolding passes_def
    using assms by (intro exI [of _ q'] exI [of _ n'] exI [of _ i'] exI [of _ "xs @ [p, j]"]
        exI [of _ seq'] exI [of _ len'] exI [of _ f]) simp
qed

lemma done_break:
  assumes "add_step q n i p seq len rnd = Some (False, q', n', i', seq, len)"
    "ts_next (q' p) = Some j" "ainv q' n' i' is seq len C" "is \<noteq> []" "length is \<le> m"
    "ts_seq (q' j) = seq" "ts_len (q' j) = len" "ts_round (q' j) = rnd"
  shows "add_done C m (add_loop (Suc (Suc f)) q n i (Some p) seq len rnd)"
proof -
  have "small_blocks q'" "unat seq + unat len < 2147483648" using assms(3) by (auto simp: ainv_def)
  then have "add_step q' n' i' j seq len rnd = Some (True, q', n', i', seq, 0)"
    by (rule inside_step) (use assms in auto)
  then have "add_loop (Suc (Suc f)) q n i (Some p) seq len rnd = Some (q', n', i', seq, 0)"
    using add_loop_go [OF assms(1), of "Suc f"] assms(2) by simp
  moreover have "rng seq len \<subseteq> cov q'"
    using blk_sub_cov [of q' j] assms by (simp add: blk_def rng_def)
  ultimately show ?thesis
    using ainv_inside [OF assms(3)] assms by (auto intro!: add_doneI)
qed

lemma add_block_inside:
  assumes inv: "ainv q n i (xs @ p # ys) seq len C" and room: "Suc (length (xs @ p # ys)) < 256"
    and len: "len \<noteq> 0"
    and bnds: "unat (ts_seq (q p)) \<le> unat seq"
      "unat seq + unat len \<le> unat (ts_seq (q p)) + unat (ts_len (q p))"
  shows "passes f q n i xs p ys seq len rnd C
    \<or> add_done C (length (xs @ p # ys) + 2) (add_loop (Suc (Suc f)) q n i (Some p) seq len rnd)"
proof -
  have room': "length (xs @ p # ys) < 256" using room by simp
  note F = ainv_facts [OF inv room']
  note S = add_step_small [OF F(1,2) refl refl refl refl]
  have split: "add_step q n i p seq len rnd = Some (False, q', n', i', seq, len)"
    if "add_split q n i p seq len rnd = Some (q', n', i')" "ts_round (q p) \<noteq> rnd" for q' n' i'
    unfolding add_step_def S using bnds that by simp
  consider (same) "ts_round (q p) = rnd"
    | (abc) "ts_round (q p) \<noteq> rnd" "unat (ts_seq (q p)) < unat seq" "unat seq + unat len < unat (ts_seq (q p)) + unat (ts_len (q p))"
    | (ab) "ts_round (q p) \<noteq> rnd" "unat (ts_seq (q p)) < unat seq" "unat seq + unat len = unat (ts_seq (q p)) + unat (ts_len (q p))"
    | (bc) "ts_round (q p) \<noteq> rnd" "ts_seq (q p) = seq" "unat seq + unat len < unat (ts_seq (q p)) + unat (ts_len (q p))"
    | (eq) "ts_round (q p) \<noteq> rnd" "ts_seq (q p) = seq" "ts_len (q p) = len"
    using bnds unfolding le_less word_unat_eq_iff by force
  then show ?thesis
  proof cases
    case same
    have "add_step q n i p seq len rnd = Some (True, q, n, i, seq, 0)"
      by (rule inside_step) (use F bnds same in auto)
    moreover have "rng seq len \<subseteq> cov q"
      using blk_sub_cov [of q p] bnds by (fastforce simp: blk_def rng_def)
    ultimately have "add_done C (length (xs @ p # ys) + 2) (add_loop (Suc (Suc f)) q n i (Some p) seq len rnd)"
      using ainv_inside [OF inv] by (auto intro!: add_doneI)
    then show ?thesis ..
  next
    case abc
    from split_abc [OF inv room len abc(2,3)] obtain q' i' i'' where
      *: "add_split q n i p seq len rnd = Some (q', n + 1 + 1, i'')"
        "ainv q' (n + 1 + 1) i'' (xs @ p # i # i' # ys) seq len C" "ts_next (q' p) = Some i"
        "ts_seq (q' i) = seq" "ts_len (q' i) = len" "ts_round (q' i) = rnd" by blast
    from done_break [OF split [OF *(1) abc(1)] *(3,2) _ _ *(4,5,6)] show ?thesis by simp
  next
    case ab
    from split_ab [OF inv room' len ab(2,3)] obtain q' i' where
      *: "add_split q n i p seq len rnd = Some (q', n + 1, i')"
        "ainv q' (n + 1) i' (xs @ p # i # ys) seq len C" "ts_next (q' p) = Some i"
        "ts_seq (q' i) = seq" "ts_len (q' i) = len" "ts_round (q' i) = rnd" by blast
    from done_break [OF split [OF *(1) ab(1)] *(3,2) _ _ *(4,5,6)] show ?thesis by simp
  next
    case bc
    from split_bc [OF inv room' bc(2,3)] obtain q' i' where
      *: "add_split q n i p seq len rnd = Some (q', n + 1, i')"
        "ainv q' (n + 1) i' (xs @ p # i # ys) seq len C" "ts_next (q' p) = Some i"
        "ts_seq (q' i) = seq + len" by blast
    have "passes f q n i xs p ys seq len rnd C"
      by (rule passes_new [OF split [OF *(1) bc(1)] *(3,2) len]) (use room * F in simp_all)
    then show ?thesis ..
  next
    case eq
    have "add_split q n i p seq len rnd = Some (q(p := (q p)\<lparr>ts_round := rnd\<rparr>), n, i)"
      unfolding add_split_def using eq by (simp add: Let_def)
    moreover have "ainv (q(p := (q p)\<lparr>ts_round := rnd\<rparr>)) n i (xs @ p # ys) seq len C"
      by (rule ainv_same [OF inv]) simp_all
    ultimately have "passes f q n i xs p ys seq len rnd C"
      using passes_keep [OF split [OF _ eq(1)]] len by blast
    then show ?thesis ..
  qed
qed

lemma add_block_outside:
  assumes inv: "ainv q n i (xs @ p # ys) seq len C" and room: "Suc (length (xs @ p # ys)) < 256"
    and len: "len \<noteq> 0"
    and ab: "\<not> (unat (ts_seq (q p)) \<le> unat seq
      \<and> unat seq + unat len \<le> unat (ts_seq (q p)) + unat (ts_len (q p)))"
  shows "passes f q n i xs p ys seq len rnd C
    \<or> add_done C (length (xs @ p # ys) + 2) (add_loop (Suc (Suc f)) q n i (Some p) seq len rnd)"
proof -
  have room': "length (xs @ p # ys) < 256" using room by simp
  note F = ainv_facts [OF inv room']
  let ?a = "unat (ts_seq (q p))" and ?b = "unat (ts_seq (q p)) + unat (ts_len (q p))"
  let ?s = "unat seq" and ?e = "unat seq + unat len"
  have sl: "0 < unat len" using len by (simp add: unat_gt_0)
  consider (apart) "?e \<le> ?a \<or> ?b \<le> ?s" | (cover) "?s < ?a" "?b \<le> ?e" | (at) "?a \<le> ?s" "?s < ?b" "?b < ?e"
    | (left) "?s < ?a" "?a < ?e" "?e < ?b"
    using ab by linarith
  then show ?thesis
  proof cases
    case apart
    have "add_step q n i p seq len rnd = Some (False, q, n, i, seq, len)"
      by (rule noop_step) (use F len apart in auto)
    from passes_keep [OF this inv len] show ?thesis ..
  next
    case cover
    from step_cover [OF inv room' cover] obtain q' i' where
      *: "add_step q n i p seq len rnd =
        Some (seq + len - ts_end (q p) = 0, q', n + 1, i', ts_end (q p), seq + len - ts_end (q p))"
        "ainv q' (n + 1) i' (xs @ p # i # ys) (ts_end (q p)) (seq + len - ts_end (q p)) C"
        "ts_next (q' p) = Some i" "ts_end (q' i) = ts_seq (q p)" by blast
    show ?thesis
    proof (cases "seq + len - ts_end (q p) = 0")
      case True
      then have "add_loop (Suc (Suc f)) q n i (Some p) seq len rnd
        = Some (q', n + 1, i', ts_end (q p), seq + len - ts_end (q p))" using *(1) by simp
      then have "add_done C (length (xs @ p # ys) + 2) (add_loop (Suc (Suc f)) q n i (Some p) seq len rnd)"
        using *(2) True by (auto intro!: add_doneI)
      then show ?thesis ..
    next
      case False
      have "passes f q n i xs p ys seq len rnd C"
        by (rule passes_new [OF _ *(3,2) False]) (use *(1) False room *(4) F in simp_all)
      then show ?thesis ..
    qed
  next
    case left
    show ?thesis
    proof (cases "ts_round (q p) = rnd")
      case True
      have "ts_seq (q p) - seq \<noteq> 0" using left by auto
      then show ?thesis
        using passes_keep [OF step_left_same [OF inv room' left True]] by blast
    next
      case False
      from step_left [OF inv room' left False] obtain q' i' where
        *: "add_step q n i p seq len rnd = Some (False, q', n + 1, i', seq, ts_seq (q p) - seq)"
          "ainv q' (n + 1) i' (xs @ p # i # ys) seq (ts_seq (q p) - seq) C"
          "ts_next (q' p) = Some i" "ts_seq (q' i) = seq + len" by blast
      have nz: "ts_seq (q p) - seq \<noteq> 0" using left by auto
      have "unat (ts_seq (q p) - seq) = ?a - ?s" using left by (intro unat_minus32) simp
      then have "passes f q n i xs p ys seq len rnd C"
        by (intro passes_new [OF *(1,3,2) nz]) (use room *(4) F left in simp_all)
      then show ?thesis ..
    qed
  next
    case at
    show ?thesis
    proof (cases "?a = ?s \<or> ts_round (q p) = rnd")
      case True
      from passes_keep [OF step_right_keep [OF inv room' at True]] show ?thesis by blast
    next
      case False
      then have lt: "?a < ?s" and rd: "ts_round (q p) \<noteq> rnd" using at by auto
      from step_right [OF inv room' lt at(2,3) rd] obtain q' i' where
        *: "add_step q n i p seq len rnd = Some (False, q', n + 1, i', seq, len)"
          "ainv q' (n + 1) i' ((xs @ [p]) @ i # ys) seq len C"
          "ts_next (q' p) = Some i" "ts_seq (q' i) = seq" "ts_end (q' i) = ts_end (q p)" by auto
      have room2: "length ((xs @ [p]) @ i # ys) < 256" using room by simp
      note G = ainv_facts [OF *(2) room2]
      have b: "unat (ts_seq (q' i)) + unat (ts_len (q' i)) = ?b" using G(10) F(10) *(5) by simp
      have K: "add_step q' (n + 1) i' i seq len rnd
          = Some (False, q', n + 1, i', ts_end (q' i), seq + len - ts_end (q' i))"
        "ainv q' (n + 1) i' ((xs @ [p]) @ i # ys) (ts_end (q' i)) (seq + len - ts_end (q' i)) C"
        "seq + len - ts_end (q' i) \<noteq> 0"
        by (rule step_right_keep [OF *(2) room2]; use b *(4) at in simp)+
      have "add_loop (Suc (Suc f)) q n i (Some p) seq len rnd
        = add_loop f q' (n + 1) i' (start False ys) (ts_end (q' i)) (seq + len - ts_end (q' i)) rnd"
        using add_loop_go [OF *(1), of "Suc f"] *(3) add_loop_go [OF K(1), of f] ainv_next [OF K(2)] by simp
      then have "passes f q n i xs p ys seq len rnd C" unfolding passes_def
        using K by (intro exI [of _ q'] exI [of _ "n + 1"] exI [of _ i'] exI [of _ "xs @ [p, i]"]
            exI [of _ "ts_end (q' i)"] exI [of _ "seq + len - ts_end (q' i)"] exI [of _ f]) simp
      then show ?thesis ..
    qed
  qed
qed

lemma add_loop_done:
  assumes "ainv q n i (xs @ zs) seq len C" "len \<noteq> 0" "xs @ zs \<noteq> []"
    "length xs + 2 * length zs + 1 \<le> m" "m \<le> 256" "2 * length zs < fuel"
  shows "add_done C m (add_loop fuel q n i (start False zs) seq len rnd)"
  using assms
proof (induction zs arbitrary: q n i xs seq len fuel)
  case Nil
  then show ?case by (auto simp: start_def intro!: add_doneI)
next
  case (Cons p ys)
  obtain f where fuel: "fuel = Suc (Suc f)" "2 * length ys < f"
    using Cons.prems(6) by (cases fuel; cases "fuel - 1") auto
  have room: "Suc (length (xs @ p # ys)) < 256" using Cons.prems by simp
  have "passes f q n i xs p ys seq len rnd C
    \<or> add_done C (length (xs @ p # ys) + 2) (add_loop (Suc (Suc f)) q n i (Some p) seq len rnd)"
    using add_block_inside [OF Cons.prems(1) room Cons.prems(2)]
      add_block_outside [OF Cons.prems(1) room Cons.prems(2)] by blast
  then show ?case
  proof
    assume "passes f q n i xs p ys seq len rnd C"
    then obtain q' n' i' xs' seq' len' f' where
      P: "add_loop (Suc (Suc f)) q n i (Some p) seq len rnd = add_loop f' q' n' i' (start False ys) seq' len' rnd"
        "f \<le> f'" "ainv q' n' i' (xs' @ ys) seq' len' C" "len' \<noteq> 0" "xs' \<noteq> []" "length xs' \<le> length xs + 2"
      unfolding passes_def by blast
    have "add_done C m (add_loop f' q' n' i' (start False ys) seq' len' rnd)"
      by (rule Cons.IH [OF P(3,4)]) (use P Cons.prems fuel in auto)
    then show ?thesis using P(1) fuel by (simp add: start_def)
  next
    assume "add_done C (length (xs @ p # ys) + 2) (add_loop (Suc (Suc f)) q n i (Some p) seq len rnd)"
    then show ?thesis using Cons.prems fuel unfolding add_done_def by (fastforce simp: start_def)
  qed
qed

end
