(* ===== verification/Tlt_Queue_Merge.thy ===== *)
theory Tlt_Queue_Merge
  imports Tlt_Queue_Add
begin

text \<open>
  The clean-up passes behind every insertion, \<open>tlt_segment_merge\<close> and
  \<open>tlt_segment_rearrange_last_block\<close>, and the correctness of \<open>tlt_segment_add\<close> as
  a whole: none of them changes the bytes the queue covers.
\<close>

section \<open>Inserting what is left of the range\<close>

lemma insert_link:
  assumes inv: "ainv q n i (xs @ p # ys) seq len C" and room: "length (xs @ p # ys) < 256"
    and len: "len \<noteq> 0"
    and q': "q' i = \<lparr>ts_seq = seq, ts_len = len, ts_round = rnd, ts_next = ts_next (q p)\<rparr>"
      "q' p = (q p)\<lparr>ts_next := Some i\<rparr>" "\<And>j. j \<noteq> i \<Longrightarrow> j \<noteq> p \<Longrightarrow> q' j = q j"
  shows "rm_ok C (Suc (length (xs @ p # ys))) (Some (q', n + 1))"
proof -
  note F = ainv_facts [OF inv room]
  have "ainv q' (n + 1) (next_free q' i (n + 1)) (xs @ p # i # ys) seq 0 C"
    by (rule link_after [OF inv room q']) (use F len in \<open>auto simp: blk_def rng_def\<close>)
  then show ?thesis unfolding ainv_def rm_ok_def by fastforce
qed

lemma insert_loop_spec:
  assumes inv: "ainv q n i (xs @ p # zs) seq len C" and room: "length (xs @ p # zs) < 256"
    and len: "len \<noteq> 0" and fuel: "length zs < fuel"
  shows "\<exists>q' n' pl. insert_loop fuel q n i p (start False zs) seq len rnd = Some (q', n', pl)
    \<and> (case pl of None \<Rightarrow> rm_ok C (Suc (length (xs @ p # zs))) (Some (q', n'))
       | Some l \<Rightarrow> q' = q \<and> n' = n \<and> (\<exists>ws. xs @ p # zs = ws @ [l]))"
  using assms
proof (induction zs arbitrary: xs p fuel)
  case Nil
  then show ?case by (auto simp: start_def)
next
  case (Cons y ys)
  obtain f where f: "fuel = Suc f" using Cons.prems(4) by (cases fuel) auto
  note F = ainv_facts [OF Cons.prems(1,2)]
  show ?case
  proof (cases "TCP_SEQ_LEQ (seq + len) (ts_seq (q y))")
    case True
    have nx: "ts_next (q p) = Some y" using ainv_next [OF Cons.prems(1)] by (simp add: start_def)
    define q' where "q' = q(p := (q p)\<lparr>ts_next := Some i\<rparr>, i := \<lparr>ts_seq = seq, ts_len = len, ts_round = rnd, ts_next = Some y\<rparr>)"
    have "rm_ok C (Suc (length (xs @ p # y # ys))) (Some (q', n + 1))"
      by (rule insert_link [OF Cons.prems(1,2) len]) (use F nx in \<open>auto simp: q'_def\<close>)
    moreover have "insert_loop fuel q n i p (start False (y # ys)) seq len rnd = Some (q', n + 1, None)"
      using True F by (simp add: f start_def q'_def wr_def MAX_UIMP_QUEUE_ELEM_def)
    ultimately show ?thesis by simp
  next
    case False
    have inv': "ainv q n i ((xs @ [p]) @ y # ys) seq len C" using Cons.prems by simp
    have "insert_loop fuel q n i p (start False (y # ys)) seq len rnd
      = insert_loop f q n i y (start False ys) seq len rnd"
      using False ainv_next [OF inv'] by (simp add: f start_def)
    then show ?thesis using Cons.IH [OF inv' _ len, of f, unfolded append.assoc append_Cons append_Nil] Cons.prems f
      by simp
  qed
qed

lemma add_insert_spec:
  assumes inv: "ainv q n i (0 # zs) seq len C" and room: "length (0 # zs) < 256" and len: "len \<noteq> 0"
  shows "rm_ok C (Suc (length (0 # zs))) (add_insert q n i seq len rnd)"
proof (cases zs)
  case Nil
  have inv': "ainv q n i ([] @ 0 # []) seq len C" using inv Nil by simp
  have room': "length ([] @ 0 # [] :: nat list) < 256" by simp
  note F = ainv_facts [OF inv' room']
  have nx: "ts_next (q 0) = None" using ainv_next [OF inv'] by (simp add: start_def)
  define q' where "q' = q(i := \<lparr>ts_seq = seq, ts_len = len, ts_round = rnd, ts_next = None\<rparr>, 0 := (q 0)\<lparr>ts_next := Some i\<rparr>)"
  have "rm_ok C (Suc (length ([] @ 0 # [] :: nat list))) (Some (q', n + 1))"
    by (rule insert_link [OF inv' room' len]) (use F nx in \<open>auto simp: q'_def\<close>)
  moreover have "add_insert q n i seq len rnd = Some (q', n + 1)"
    using nx F by (simp add: add_insert_def wr_def MAX_UIMP_QUEUE_ELEM_def q'_def)
  ultimately show ?thesis using Nil by simp
next
  case (Cons y ys)
  have inv': "ainv q n i ([] @ 0 # zs) seq len C" using inv by simp
  have nx: "ts_next (q 0) = start False zs" using ainv_next [OF inv'] .
  obtain q' n' pl where L: "insert_loop (Suc MAX_UIMP_QUEUE_ELEM) q n i 0 (start False zs) seq len rnd = Some (q', n', pl)"
    "case pl of None \<Rightarrow> rm_ok C (Suc (length ([] @ 0 # zs))) (Some (q', n'))
       | Some l \<Rightarrow> q' = q \<and> n' = n \<and> (\<exists>ws. [] @ 0 # zs = ws @ [l])"
    using insert_loop_spec [OF inv' _ len, of "Suc MAX_UIMP_QUEUE_ELEM" rnd] room
    by (auto simp: MAX_UIMP_QUEUE_ELEM_def)
  show ?thesis
  proof (cases pl)
    case None
    then show ?thesis using L nx Cons by (simp add: add_insert_def start_def)
  next
    case (Some l)
    then obtain ws where ws: "0 # zs = ws @ [l]" and q': "q' = q" "n' = n" using L by auto
    have inv2: "ainv q n i (ws @ l # []) seq len C" using inv ws by simp
    have room2: "length (ws @ l # []) < 256" using room ws by simp
    note F = ainv_facts [OF inv2 room2]
    have nl: "ts_next (q l) = None" using ainv_next [OF inv2] by (simp add: start_def)
    define q2 where "q2 = q(l := (q l)\<lparr>ts_next := Some i\<rparr>, i := \<lparr>ts_seq = seq, ts_len = len, ts_round = rnd, ts_next = None\<rparr>)"
    have "rm_ok C (Suc (length (ws @ l # []))) (Some (q2, n + 1))"
      by (rule insert_link [OF inv2 room2 len]) (use F nl in \<open>auto simp: q2_def\<close>)
    moreover have "add_insert q n i seq len rnd = Some (q2, n + 1)"
      using L nx Cons Some q' F
      by (simp add: add_insert_def start_def wr_def MAX_UIMP_QUEUE_ELEM_def q2_def)
    ultimately show ?thesis using ws by simp
  qed
qed

lemma add_body_spec:
  assumes rep: "qrep q n is" and sm: "small_blocks q" and pos: "pos_blocks q"
    and t: "unat seq + unat len < 2147483648" "0 < unat seq" "len \<noteq> 0" and room: "2 * length is < 256"
  shows "rm_ok (cov q \<union> rng seq len) (2 * length is + 1) (add_body q n seq len rnd)"
proof (cases "is")
  case Nil
  then have z: "n = 0" "\<forall>i. ts_len (q i) = 0 \<and> ts_next (q i) = None" using rep by (auto simp: qrep_empty_iff)
  define q' where "q' = q(0 := \<lparr>ts_seq = seq, ts_len = len, ts_round = rnd, ts_next = None\<rparr>)"
  have "qrep q' 1 [0]" using z t by (auto simp: qrep_def q'_def MAX_UIMP_QUEUE_ELEM_def)
  moreover have "small_blocks q'" "pos_blocks q'"
    using z t sm by (auto simp: q'_def small_blocks_def)
  moreover have "cov q' = cov q \<union> rng seq len"
    unfolding q'_def cov_upd using z by (auto simp: cov_def blk_def rng_def)
  moreover have "add_body q n seq len rnd = Some (q', 1)"
    using z by (simp add: add_body_def find_free.simps wr_def MAX_UIMP_QUEUE_ELEM_def q'_def)
  ultimately show ?thesis using Nil unfolding rm_ok_def by fastforce
next
  case (Cons x zs)
  then have x: "x = 0" using rep qrep_head by fastforce
  define i where "i = find_free q 0 (unat n)"
  note ff = qrep_find_free [OF rep, of 0, simplified, folded i_def]
  have inv: "ainv q n i ([] @ 0 # zs) seq len (cov q \<union> rng seq len)"
    using rep sm pos t ff Cons x by (simp add: ainv_def)
  have i0: "i \<noteq> 0" using ff Cons x by auto
  have mn: "min (unat n) MAX_UIMP_QUEUE_ELEM = unat n"
    using qrep_length [OF rep] qrep_unat [OF rep] by (simp add: MAX_UIMP_QUEUE_ELEM_def)
  have "add_done (cov q \<union> rng seq len) (2 * length is + 1)
      (add_loop (4 * MAX_UIMP_QUEUE_ELEM) q n i (start False (0 # zs)) seq len rnd)"
    using add_loop_done [OF inv t(3), of "2 * length is + 1" "4 * MAX_UIMP_QUEUE_ELEM"] room Cons
    by (simp add: MAX_UIMP_QUEUE_ELEM_def)
  then obtain q1 n1 i1 is1 s1 l1 where
    L: "add_loop (4 * MAX_UIMP_QUEUE_ELEM) q n i (Some 0) seq len rnd = Some (q1, n1, i1, s1, l1)"
      "ainv q1 n1 i1 is1 s1 l1 (cov q \<union> rng seq len)" "is1 \<noteq> []"
      "length is1 + (if l1 = 0 then 0 else 1) \<le> 2 * length is + 1"
    unfolding add_done_def start_def by auto
  have b: "add_body q n seq len rnd = (if l1 \<noteq> 0 then add_insert q1 n1 i1 s1 l1 rnd else Some (q1, n1))"
    using L(1) i0 by (simp add: add_body_def mn i_def [symmetric])
  show ?thesis
  proof (cases "l1 = 0")
    case True
    then show ?thesis using L b unfolding rm_ok_def ainv_def by auto
  next
    case False
    obtain zs1 where is1: "is1 = 0 # zs1"
      using L(2,3) qrep_head [of q1 n1 is1] by (cases is1) (auto simp: ainv_def)
    have "rm_ok (cov q \<union> rng seq len) (Suc (length (0 # zs1))) (add_insert q1 n1 i1 s1 l1 rnd)"
      by (rule add_insert_spec) (use L is1 False room in auto)
    then show ?thesis using b False L(4) is1 by (auto elim: rm_ok_mono)
  qed
qed

section \<open>Merging neighbours\<close>

lemma merge_step_spec:
  assumes rep: "qrep q n (xs @ a # p # zs)" and sm: "small_blocks q" and pos: "pos_blocks q"
  shows "\<exists>q' n' ps xs'. merge_step q n a p = (q', n', ps) \<and> qrep q' n' (xs' @ ps # zs)
    \<and> small_blocks q' \<and> pos_blocks q' \<and> cov q' = cov q \<and> length xs' \<le> length xs + 1"
proof -
  have ne: "a \<noteq> p" "p \<noteq> a" and l: "ts_len (q a) \<noteq> 0" "ts_len (q p) \<noteq> 0"
    using rep by (auto simp: qrep_unfold)
  note ba = small_blocksD [OF sm, of a] and bp = small_blocksD [OF sm, of p]
  consider (adj) "ts_len (q a) + ts_seq (q a) = ts_seq (q p) \<and> ts_round (q a) = ts_round (q p)"
    | (dup) "\<not> (ts_len (q a) + ts_seq (q a) = ts_seq (q p) \<and> ts_round (q a) = ts_round (q p))"
        "ts_seq (q a) = ts_seq (q p) \<and> ts_len (q a) = ts_len (q p)"
    | (none) "\<not> (ts_len (q a) + ts_seq (q a) = ts_seq (q p) \<and> ts_round (q a) = ts_round (q p))"
        "\<not> (ts_seq (q a) = ts_seq (q p) \<and> ts_len (q a) = ts_len (q p))"
    by blast
  then show ?thesis
  proof cases
    case adj
    define q' where "q' = q(a := (q a)\<lparr>ts_len := ts_len (q a) + ts_len (q p), ts_next := ts_next (q p)\<rparr>,
      p := (q p)\<lparr>ts_seq := 0, ts_len := 0, ts_next := None\<rparr>)"
    have m: "merge_step q n a p = (q', n - 1, a)"
      using adj ne by (simp add: merge_step_def Let_def q'_def)
    have e: "unat (ts_seq (q p)) = unat (ts_seq (q a)) + unat (ts_len (q a))"
      using adj ba by (simp add: add.commute)
    have ul: "unat (ts_len (q a) + ts_len (q p)) = unat (ts_len (q a)) + unat (ts_len (q p))"
      using e bp by (intro unat_plus32) linarith
    have nz: "ts_len (q a) + ts_len (q p) \<noteq> 0" using ul l by (metis add_is_0 unat_0 unat_eq_0)
    have "qrep q' (n - 1) (xs @ a # zs)"
      by (rule qrep_unlink [OF rep]) (use ne nz in \<open>auto simp: q'_def\<close>)
    moreover have "cov q' = cov q"
      unfolding cov_split2 [OF ne(1)] using ne e ul by (auto simp: q'_def blk_def)
    moreover have "small_blocks q'" "pos_blocks q'"
      using sm pos e ul bp l by (auto simp: q'_def small_blocks_def)
    ultimately show ?thesis using m
      by (intro exI [of _ q'] exI [of _ "n - 1"] exI [of _ a] exI [of _ xs]) simp
  next
    case dup
    define q' where "q' = q(a := (q a)\<lparr>ts_next := ts_next (q p), ts_round :=
        (if ts_round (q p) \<le> ts_round (q a) then ts_round (q a) else ts_round (q p))\<rparr>,
      p := (q p)\<lparr>ts_next := None, ts_seq := 0, ts_len := 0, ts_round := 0\<rparr>)"
    have m: "merge_step q n a p = (q', n - 1, a)"
      unfolding merge_step_def if_not_P [OF dup(1)] using dup(2) ne by (simp add: Let_def q'_def)
    have "qrep q' (n - 1) (xs @ a # zs)"
      by (rule qrep_unlink [OF rep]) (use ne l in \<open>auto simp: q'_def\<close>)
    moreover have "cov q' = cov q"
      unfolding cov_split2 [OF ne(1)] using ne dup by (auto simp: q'_def blk_def)
    moreover have "small_blocks q'" "pos_blocks q'"
      using sm pos by (auto simp: q'_def small_blocks_def)
    ultimately show ?thesis using m
      by (intro exI [of _ q'] exI [of _ "n - 1"] exI [of _ a] exI [of _ xs]) simp
  next
    case none
    have "merge_step q n a p = (q, n, p)"
      unfolding merge_step_def if_not_P [OF none(1)] using none(2) by auto
    moreover have "qrep q n ((xs @ [a]) @ p # zs)" using rep by simp
    ultimately show ?thesis using sm pos
      by (intro exI [of _ q] exI [of _ n] exI [of _ p] exI [of _ "xs @ [a]"]) simp
  qed
qed

lemma merge_loop_spec:
  assumes "qrep q n (xs @ a # zs)" "small_blocks q" "pos_blocks q" "length zs < fuel"
  shows "rm_ok (cov q) (length (xs @ a # zs)) (merge_loop fuel q n a (start False zs))"
  using assms
proof (induction zs arbitrary: q n xs a fuel)
  case Nil
  then show ?case by (auto simp: start_def rm_ok_def)
next
  case (Cons p zs)
  obtain f where f: "fuel = Suc f" using Cons.prems(4) by (cases fuel) auto
  obtain q' n' ps xs' where M: "merge_step q n a p = (q', n', ps)" "qrep q' n' (xs' @ ps # zs)"
    "small_blocks q'" "pos_blocks q'" "cov q' = cov q" "length xs' \<le> length xs + 1"
    using merge_step_spec [OF Cons.prems(1-3)] by blast
  have "rm_ok (cov q') (length (xs' @ ps # zs)) (merge_loop f q' n' ps (start False zs))"
    by (rule Cons.IH [OF M(2-4)]) (use Cons.prems f in simp)
  moreover have "ts_next (q' ps) = start False zs" using qrep_next [OF M(2)] by (simp add: start_def)
  ultimately have "rm_ok (cov q) (length (xs' @ ps # zs)) (merge_loop fuel q n a (start False (p # zs)))"
    using M f by (simp add: start_def)
  then show ?case by (rule rm_ok_mono) (use M in simp)
qed

lemma merge_spec:
  assumes "qrep q n is" "small_blocks q" "pos_blocks q"
  shows "rm_ok (cov q) (length is) (tlt_segment_merge q n)"
proof (cases "is")
  case Nil
  then show ?thesis using assms by (auto simp: tlt_segment_merge_def qrep_empty_iff rm_ok_def)
next
  case (Cons x zs)
  then have x: "x = 0" using assms qrep_head by fastforce
  have nx: "ts_next (q 0) = start False zs"
    using qrep_next [of q n "[]" 0 zs] assms Cons x by (simp add: start_def)
  have "rm_ok (cov q) (length ([] @ 0 # zs)) (merge_loop (Suc MAX_UIMP_QUEUE_ELEM) q n 0 (start False zs))"
    by (rule merge_loop_spec)
      (use assms Cons x qrep_length [OF assms(1)] in \<open>simp_all add: MAX_UIMP_QUEUE_ELEM_def\<close>)
  then show ?thesis using assms Cons x nx by (auto simp: tlt_segment_merge_def rm_ok_def)
qed

section \<open>Rearranging the last block\<close>

lemma find_last_spec:
  assumes "qrep q n (xs @ p # zs)" "length zs < fuel"
  shows "find_last fuel q (prev_ptr xs) p = Some (prev_ptr (butlast (xs @ p # zs)), last (xs @ p # zs))"
  using assms
proof (induction zs arbitrary: xs p fuel)
  case Nil
  then show ?case using qrep_next [of q n xs p "[]"] by (cases fuel) (auto simp: butlast_append)
next
  case (Cons y zs)
  obtain f where f: "fuel = Suc f" using Cons.prems(2) by (cases fuel) auto
  have "qrep q n ((xs @ [p]) @ y # zs)" using Cons.prems by simp
  from Cons.IH [OF this, of f] have
    "find_last f q (Some p) y = Some (prev_ptr (butlast (xs @ p # y # zs)), last (xs @ p # y # zs))"
    using Cons.prems f by (simp add: prev_ptr_def)
  then show ?case using f qrep_next [OF Cons.prems(1)] by simp
qed

lemma scan_merged:
  assumes "qrep q n (xs @ zs)" "length zs < fuel"
  shows "rearrange_scan fuel q l (start False zs) True = Some (q, True)"
  using assms
proof (induction zs arbitrary: xs fuel)
  case (Cons y zs)
  obtain f where f: "fuel = Suc f" using Cons.prems(2) by (cases fuel) auto
  have "qrep q n ((xs @ [y]) @ zs)" using Cons.prems by simp
  then have "rearrange_scan f q l (start False zs) True = Some (q, True)"
    using Cons.IH [of "xs @ [y]" f] Cons.prems f by simp
  moreover have "ts_next (q y) = start False zs"
    using qrep_next [OF Cons.prems(1)] by (simp add: start_def)
  ultimately show ?case using f by (simp add: start_def)
qed (simp add: start_def)

text \<open>The last block \<open>l\<close> was joined to block \<open>c\<close>.\<close>

definition joined :: "uimpq \<Rightarrow> nat \<Rightarrow> nat \<Rightarrow> uimpq \<Rightarrow> bool" where
  "joined q c l q' = (c \<noteq> l \<and> (\<exists>s' l'. q' = q(c := (q c)\<lparr>ts_len := l', ts_seq := s'\<rparr>)
     \<and> l' \<noteq> 0 \<and> unat s' + unat l' < 2147483648 \<and> 0 < unat s'
     \<and> blk (q' c) = blk (q c) \<union> blk (q l)))"

lemma scan_spec:
  assumes "qrep q n (xs @ zs)" "small_blocks q" "pos_blocks q" "l \<in> set (xs @ zs)" "length zs < fuel"
  shows "rearrange_scan fuel q l (start False zs) False = Some (q, False)
    \<or> (\<exists>c\<in>set zs. \<exists>q'. joined q c l q'
         \<and> rearrange_scan fuel q l (start False zs) False = Some (q', True))"
  using assms
proof (induction zs arbitrary: xs fuel)
  case (Cons c zs)
  obtain f where f: "fuel = Suc f" "length zs < f" using Cons.prems(5) by (cases fuel) auto
  note rep = Cons.prems(1) and sm = Cons.prems(2) and pos = Cons.prems(3)
  have lc: "ts_len (q c) \<noteq> 0" "ts_len (q l) \<noteq> 0" using rep Cons.prems(4) by (auto simp: qrep_len_0)
  then have ulc: "0 < unat (ts_len (q c))" "0 < unat (ts_len (q l))" by (simp_all add: unat_gt_0)
  note bc = small_blocksD [OF sm, of c] and bl = small_blocksD [OF sm, of l]
  have nx: "ts_next (q c) = start False zs" using qrep_next [OF rep] by (simp add: start_def)
  have rep': "qrep q n ((xs @ [c]) @ zs)" using rep by simp
  have join: "\<exists>d\<in>set (c # zs). \<exists>q'. joined q d l q'
      \<and> rearrange_scan fuel q l (start False (c # zs)) False = Some (q', True)"
    if r: "ts_round (q c) = ts_round (q l)" and q': "q' = q(c := (q c)\<lparr>ts_len := l', ts_seq := s'\<rparr>)"
      and ul: "unat l' = unat (ts_len (q c)) + unat (ts_len (q l))"
      and s': "unat s' + unat l' < 2147483648" "0 < unat s'" "blk (q' c) = blk (q c) \<union> blk (q l)"
      and ne: "c \<noteq> l"
      and step: "rearrange_scan (Suc f) q l (Some c) False = rearrange_scan f q' l (ts_next (q' c)) True"
    for q' s' l'
  proof -
    have l': "l' \<noteq> 0" using ul ulc by auto
    have "qrep q' n ((xs @ [c]) @ zs)"
      by (rule qrep_same [OF rep']) (use l' lc in \<open>auto simp: q'\<close>)
    from scan_merged [OF this f(2)]
    have "rearrange_scan fuel q l (start False (c # zs)) False = Some (q', True)"
      using step nx f by (simp add: start_def q')
    moreover have "joined q c l q'" unfolding joined_def using l' s' ne q' by blast
    ultimately show ?thesis by auto
  qed
  consider (front) "ts_round (q c) = ts_round (q l)" "ts_end (q l) = ts_seq (q c)"
    | (behind) "ts_round (q c) = ts_round (q l)" "ts_end (q l) \<noteq> ts_seq (q c)" "ts_end (q c) = ts_seq (q l)"
    | (none) "ts_round (q c) \<noteq> ts_round (q l) \<or> (ts_end (q l) \<noteq> ts_seq (q c) \<and> ts_end (q c) \<noteq> ts_seq (q l))"
    by blast
  then show ?case
  proof cases
    case front
    have ne: "c \<noteq> l" using front(2) bl ulc by auto
    have e: "unat (ts_seq (q c)) = unat (ts_seq (q l)) + unat (ts_len (q l))" using front bl by simp
    have ul: "unat (ts_len (q l) + ts_len (q c)) = unat (ts_len (q l)) + unat (ts_len (q c))"
      using e bc by (intro unat_plus32) linarith
    note J = join [where s' = "ts_seq (q l)" and l' = "ts_len (q l) + ts_len (q c)", OF front(1) refl]
    show ?thesis
      by (intro disjI2 J) (use front ne ul e bc pos lc in \<open>auto simp: blk_def Let_def\<close>)
  next
    case behind
    have ne: "c \<noteq> l" using behind(3) bl ulc by auto
    have e: "unat (ts_seq (q l)) = unat (ts_seq (q c)) + unat (ts_len (q c))"
      using behind bc by simp
    have ul: "unat (ts_len (q c) + ts_len (q l)) = unat (ts_len (q c)) + unat (ts_len (q l))"
      using e bl by (intro unat_plus32) linarith
    note J = join [where s' = "ts_seq (q c)" and l' = "ts_len (q c) + ts_len (q l)", OF behind(1) refl]
    show ?thesis
      by (intro disjI2 J) (use behind ne ul e bl pos lc in \<open>auto simp: blk_def Let_def\<close>)
  next
    case none
    then have "rearrange_scan fuel q l (start False (c # zs)) False = rearrange_scan f q l (start False zs) False"
      using nx f by (auto simp: start_def)
    then show ?thesis using Cons.IH [OF rep' sm pos _ f(2)] Cons.prems(4) by auto
  qed
qed (simp add: start_def)

lemma rearrange_spec:
  assumes "qrep q n is" "small_blocks q" "pos_blocks q" "length is < fuel"
  shows "rm_ok (cov q) (length is) (tlt_segment_rearrange_last_block fuel q n)"
  using assms
proof (induction fuel arbitrary: q n "is")
  case (Suc fuel)
  note rep = Suc.prems(1) and sm = Suc.prems(2) and pos = Suc.prems(3)
  show ?case
  proof (cases "ts_next (q 0) = None")
    case True
    then show ?thesis using Suc.prems by (auto simp: rm_ok_def)
  next
    case False
    then obtain y where nx0: "ts_next (q 0) = Some y" by auto
    then have "is \<noteq> []" using rep by (auto simp: qrep_empty_iff)
    then obtain zs where is0: "is = [] @ 0 # zs" using qrep_head [OF rep] by (cases "is") auto
    then have "zs \<noteq> []" using qrep_next [of q n "[]" 0 zs] rep False by auto
    then obtain ws a l where zs: "is = ws @ [a, l]"
      using is0 by (metis append_Cons append_Nil append_butlast_last_id append.assoc)
    have room: "length is \<le> 256" using qrep_length [OF rep] .
    have "find_last (Suc MAX_UIMP_QUEUE_ELEM) q (prev_ptr []) 0 = Some (prev_ptr (butlast is), last is)"
      unfolding is0 by (rule find_last_spec) (use rep room is0 in \<open>simp_all add: MAX_UIMP_QUEUE_ELEM_def\<close>)
    then have fl: "find_last (Suc MAX_UIMP_QUEUE_ELEM) q None 0 = Some (Some a, l)"
      unfolding zs by (simp add: prev_ptr_def butlast_append)
    have st: "start False is = Some 0" using is0 by (simp add: start_def)
    have ne: "a \<noteq> l" and rep2: "qrep q n (ws @ a # l # [])" using rep zs by (auto simp: qrep_unfold)
    have "rearrange_scan (Suc MAX_UIMP_QUEUE_ELEM) q l (start False is) False = Some (q, False)
      \<or> (\<exists>c\<in>set is. \<exists>q'. joined q c l q'
         \<and> rearrange_scan (Suc MAX_UIMP_QUEUE_ELEM) q l (start False is) False = Some (q', True))"
      by (rule scan_spec [where xs = "[]", simplified, OF rep sm pos])
        (use room zs in \<open>auto simp: MAX_UIMP_QUEUE_ELEM_def\<close>)
    then show ?thesis
    proof
      assume "rearrange_scan (Suc MAX_UIMP_QUEUE_ELEM) q l (start False is) False = Some (q, False)"
      then show ?thesis using fl st False rep sm pos by (auto simp: rm_ok_def)
    next
      assume "\<exists>c\<in>set is. \<exists>q'. joined q c l q'
        \<and> rearrange_scan (Suc MAX_UIMP_QUEUE_ELEM) q l (start False is) False = Some (q', True)"
      then obtain c q1 s' l' where c: "c \<in> set is" "c \<noteq> l"
        and J: "q1 = q(c := (q c)\<lparr>ts_len := l', ts_seq := s'\<rparr>)" "l' \<noteq> 0" "unat s' + unat l' < 2147483648"
          "0 < unat s'" "blk (q1 c) = blk (q c) \<union> blk (q l)"
        and sc: "rearrange_scan (Suc MAX_UIMP_QUEUE_ELEM) q l (Some 0) False = Some (q1, True)"
        unfolding joined_def st by blast
      define q3 where "q3 = (q1(l := \<lparr>ts_seq = 0, ts_len = 0, ts_round = 0, ts_next = None\<rparr>))(a := (q1 a)\<lparr>ts_next := None\<rparr>)"
      have lc: "ts_len (q c) \<noteq> 0" "ts_len (q a) \<noteq> 0" using rep c zs by (auto simp: qrep_len_0)
      have nl: "ts_next (q l) = None" using qrep_next [of q n "ws @ [a]" l "[]"] rep2 by simp
      have rep3: "qrep q3 (n - 1) (ws @ [a])"
        by (rule qrep_unlink [OF rep2]) (use ne c J lc nl in \<open>auto simp: q3_def\<close>)
      have sm3: "small_blocks q3" "pos_blocks q3"
        using sm pos J ne by (auto simp: q3_def small_blocks_def)
      have "blk (q3 k) = blk (q1 k)" if "k \<noteq> l" for k using that by (auto simp: q3_def blk_def)
      then have "cov q3 = blk (q1 c) \<union> (\<Union>k\<in>-{c, l}. blk (q k))"
        unfolding cov_split2 [OF c(2)] using ne c(2) by (auto simp: q3_def J(1) blk_def)
      then have cv: "cov q3 = cov q" using cov_split2 [OF c(2), of q] J(5) by auto
      have "rm_ok (cov q3) (length (ws @ [a])) (tlt_segment_rearrange_last_block fuel q3 (n - 1))"
        by (rule Suc.IH [OF rep3 sm3]) (use Suc.prems zs in simp)
      moreover have "tlt_segment_rearrange_last_block (Suc fuel) q n
        = tlt_segment_rearrange_last_block fuel q3 (n - 1)"
        using nx0 fl sc ne by (simp add: q3_def Let_def del: find_last.simps rearrange_scan.simps)
      ultimately show ?thesis using cv zs by (auto elim: rm_ok_mono)
    qed
  qed
qed simp

section \<open>tlt_segment_add as a whole\<close>

lemma rm_ok_bind:
  assumes "rm_ok C m r" "\<And>q n is. qrep q n is \<Longrightarrow> small_blocks q \<Longrightarrow> pos_blocks q \<Longrightarrow>
    cov q = C \<Longrightarrow> length is \<le> m \<Longrightarrow> rm_ok C m (g q n)"
  shows "rm_ok C m (case r of None \<Rightarrow> None | Some (q, n) \<Rightarrow> g q n)"
  using assms unfolding rm_ok_def by fastforce

lemma clean_up:
  assumes "rm_ok C m r"
  shows "rm_ok C m (case r of None \<Rightarrow> None | Some (q1, n1) \<Rightarrow>
     (case tlt_segment_merge q1 n1 of None \<Rightarrow> None | Some (q2, n2) \<Rightarrow>
        tlt_segment_rearrange_last_block (Suc MAX_UIMP_QUEUE_ELEM) q2 n2))"
proof (rule rm_ok_bind [OF assms], rule rm_ok_bind)
  fix q n "is" assume "qrep q n is" "small_blocks q" "pos_blocks q" "cov q = C" "length is \<le> m"
  then show "rm_ok C m (tlt_segment_merge q n)"
    using merge_spec [of q n "is"] rm_ok_mono by blast
next
  fix q n "is" assume "qrep q n is" "small_blocks q" "pos_blocks q" "cov q = C" "length is \<le> m"
  then show "rm_ok C m (tlt_segment_rearrange_last_block (Suc MAX_UIMP_QUEUE_ELEM) q n)"
    using rearrange_spec [of q n "is" "Suc MAX_UIMP_QUEUE_ELEM"] qrep_length [of q n "is"] rm_ok_mono
    by (auto simp: MAX_UIMP_QUEUE_ELEM_def)
qed

lemma bind_case: "Option.bind r (\<lambda>(a, b). g a b) = (case r of None \<Rightarrow> None | Some (a, b) \<Rightarrow> g a b)"
  by (cases r) auto

lemma add_spec:
  assumes "qrep q n is" "small_blocks q" "pos_blocks q"
    "unat seq + unat len < 2147483648" "0 < unat seq" "len \<noteq> 0" "2 * length is < 256"
  shows "rm_ok (cov q \<union> rng seq len) (2 * length is + 1) (tlt_segment_add q n seq len rnd)"
  using clean_up [OF add_body_spec [OF assms, of rnd]]
  unfolding tlt_segment_add_def bind_case .

section \<open>New data behind everything queued\<close>

definition above_all :: "uimpq \<Rightarrow> u32 \<Rightarrow> bool" where
  "above_all q seq = (\<forall>i. ts_len (q i) \<noteq> 0 \<longrightarrow> unat (ts_seq (q i)) + unat (ts_len (q i)) \<le> unat seq)"

lemma add_loop_fresh:
  assumes "qrep q n (xs @ zs)" "small_blocks q" "above_all q seq"
    "unat seq + unat len < 2147483648" "len \<noteq> 0" "length zs < fuel"
  shows "add_loop fuel q n i (start False zs) seq len rnd = Some (q, n, i, seq, len)"
  using assms
proof (induction zs arbitrary: xs fuel)
  case (Cons p ys)
  obtain f where f: "fuel = Suc f" using Cons.prems(6) by (cases fuel) auto
  have lp: "ts_len (q p) \<noteq> 0" using Cons.prems(1) by (simp add: qrep_len)
  have step: "add_step q n i p seq len rnd = Some (False, q, n, i, seq, len)"
    by (rule noop_step [OF Cons.prems(2,4,5) lp]) (use Cons.prems(3) lp in \<open>simp add: above_all_def\<close>)
  have "qrep q n ((xs @ [p]) @ ys)" using Cons.prems by simp
  then have "add_loop f q n i (start False ys) seq len rnd = Some (q, n, i, seq, len)"
    using Cons.IH [of "xs @ [p]" f] Cons.prems f by simp
  moreover have "ts_next (q p) = start False ys"
    using qrep_next [OF Cons.prems(1)] by (simp add: start_def)
  ultimately show ?case using step f by (simp add: start_def)
qed (simp add: start_def)

lemma add_body_fresh:
  assumes rep: "qrep q n (0 # zs)" and "small_blocks q" "above_all q seq"
    "unat seq + unat len < 2147483648" "len \<noteq> 0"
  shows "add_body q n seq len rnd = add_insert q n (find_free q 0 (unat n)) seq len rnd"
proof -
  note ff = qrep_find_free [OF rep, of 0, simplified]
  have i0: "find_free q 0 (unat n) \<noteq> 0" using ff by auto
  have mn: "min (unat n) MAX_UIMP_QUEUE_ELEM = unat n"
    using qrep_length [OF rep] qrep_unat [OF rep] by (simp add: MAX_UIMP_QUEUE_ELEM_def)
  have "add_loop (4 * MAX_UIMP_QUEUE_ELEM) q n (find_free q 0 (unat n)) (start False (0 # zs)) seq len rnd
    = Some (q, n, find_free q 0 (unat n), seq, len)"
    by (rule add_loop_fresh [where xs = "[]"])
      (use assms qrep_length [OF rep] in \<open>simp_all add: MAX_UIMP_QUEUE_ELEM_def\<close>)
  then show ?thesis using i0 assms(5) by (simp add: add_body_def mn start_def)
qed

lemma add_fresh_spec:
  assumes rep: "qrep q n is" and sm: "small_blocks q" and pos: "pos_blocks q" and ab: "above_all q seq"
    and t: "unat seq + unat len < 2147483648" "0 < unat seq" "len \<noteq> 0" and room: "length is < 256"
  shows "rm_ok (cov q \<union> rng seq len) (length is + 1) (tlt_segment_add q n seq len rnd)"
proof -
  have "rm_ok (cov q \<union> rng seq len) (length is + 1) (add_body q n seq len rnd)"
  proof (cases "is")
    case Nil
    then show ?thesis using add_body_spec [OF rep sm pos t, of rnd] by simp
  next
    case (Cons x zs)
    then have x: "x = 0" using rep qrep_head by fastforce
    define i where "i = find_free q 0 (unat n)"
    note ff = qrep_find_free [OF rep, of 0, simplified, folded i_def]
    have "ainv q n i (0 # zs) seq len (cov q \<union> rng seq len)"
      using rep sm pos t ff Cons x by (simp add: ainv_def)
    from add_insert_spec [OF this _ t(3), of rnd] show ?thesis
      using add_body_fresh [of q n zs seq len rnd] rep sm ab t room Cons x by (simp add: i_def)
  qed
  from clean_up [OF this] show ?thesis unfolding tlt_segment_add_def bind_case .
qed

lemma insert_loop_end:
  assumes "qrep q n (xs @ p # zs)" "small_blocks q" "above_all q seq"
    "unat seq + unat len < 2147483648" "len \<noteq> 0" "length zs < fuel"
  shows "insert_loop fuel q n i p (start False zs) seq len rnd = Some (q, n, Some (last (p # zs)))"
  using assms
proof (induction zs arbitrary: xs p fuel)
  case (Cons y ys)
  obtain f where f: "fuel = Suc f" using Cons.prems(6) by (cases fuel) auto
  have rep': "qrep q n ((xs @ [p]) @ y # ys)" using Cons.prems by simp
  have ly: "ts_len (q y) \<noteq> 0" using rep' by (simp add: qrep_len)
  have "unat (ts_seq (q y)) < unat (seq + len)"
    using Cons.prems(3-5) ly unat_plus32 [of seq len] unat_gt_0 [of "ts_len (q y)"]
    unfolding above_all_def by fastforce
  moreover have "unat (seq + len) < 2147483648"
    using Cons.prems(4) unat_plus32 [of seq len] by simp
  ultimately have "\<not> TCP_SEQ_LEQ (seq + len) (ts_seq (q y))"
    using small_blocksD(2) [OF Cons.prems(2), of y] by (simp add: seq_leq_small)
  moreover have "ts_next (q y) = start False ys" using qrep_next [OF rep'] by (simp add: start_def)
  ultimately show ?case
    using Cons.IH [OF rep' Cons.prems(2-5), of f] Cons.prems f by (simp add: start_def)
qed (simp add: start_def)

text \<open>A full queue: the write goes to index 256.\<close>

lemma add_full:
  assumes rep: "qrep q n is" and full: "length is = 256" and sm: "small_blocks q" and ab: "above_all q seq"
    and t: "unat seq + unat len < 2147483648" "len \<noteq> 0"
  shows "tlt_segment_add q n seq len rnd = None"
proof -
  obtain x zs where Cons: "is = x # zs" using full by (cases "is") auto
  then have x: "x = 0" using rep qrep_head by fastforce
  have repz: "qrep q n ([] @ 0 # zs)" using rep Cons x by simp
  define i where "i = find_free q 0 (unat n)"
  note ff = qrep_find_free [OF rep, of 0, simplified, folded i_def]
  have all: "set is = {..<256}"
    using rep full by (intro card_subset_eq) (auto simp: qrep_def MAX_UIMP_QUEUE_ELEM_def distinct_card)
  then have i: "\<not> i < 256" using ff by auto
  obtain y ys where zs: "zs = y # ys" using full Cons by (cases zs) auto
  have nx: "ts_next (q 0) = start False zs" using qrep_next [OF repz] by (simp add: start_def)
  have "insert_loop (Suc MAX_UIMP_QUEUE_ELEM) q n i 0 (start False zs) seq len rnd = Some (q, n, Some (last (0 # zs)))"
    by (rule insert_loop_end [OF repz sm ab t]) (use full Cons in \<open>simp add: MAX_UIMP_QUEUE_ELEM_def\<close>)
  then have "add_insert q n i seq len rnd = None"
    using i nx zs by (simp add: add_insert_def start_def wr_def MAX_UIMP_QUEUE_ELEM_def)
  then show ?thesis
    using add_body_fresh [of q n zs seq len rnd] rep sm ab t Cons x
    by (simp add: tlt_segment_add_def i_def)
qed

end
