(* ===== verification/Tlt.thy ===== *)
theory Tlt
  imports Lwip_Pcb Tlt_Queue_Merge
begin

text \<open>
  The TLT state machine (\<^verbatim>\<open>src/src/vma/lwip/tlt.c\<close>, lines 584-771): which packets
  are marked important, how the receiver echoes the mark, and the queue of
  bytes sent unimportant.  A queue operation that would leave its array makes
  the result None.  The properties cover the queue contents after output and
  input, the important-packet clock, the echo, and loss detection by rounds.
\<close>

section \<open>Marks\<close>

definition TLT_TOS_IMP :: u8 where "TLT_TOS_IMP = push_bit 2 0x0A"
definition TLT_TOS_IMPE :: u8 where "TLT_TOS_IMPE = push_bit 2 0x0C"
definition TLT_TOS_IMPF :: u8 where "TLT_TOS_IMPF = push_bit 2 0x12"
definition TLT_TOS_IMPEF :: u8 where "TLT_TOS_IMPEF = push_bit 2 0x14"
definition TLT_TOS_IMPFR :: u8 where "TLT_TOS_IMPFR = push_bit 2 0x1A"
definition TLT_TOS_IMPC :: u8 where "TLT_TOS_IMPC = push_bit 2 0x1A"
definition TLT_TOS_UIMP :: u8 where "TLT_TOS_UIMP = push_bit 2 0x08"

lemmas tlt_tos_defs = TLT_TOS_IMP_def TLT_TOS_IMPE_def TLT_TOS_IMPF_def TLT_TOS_IMPEF_def
  TLT_TOS_IMPFR_def TLT_TOS_IMPC_def TLT_TOS_UIMP_def

section \<open>Initial state and output\<close>

definition tlt_init :: "tcp_pcb \<Rightarrow> tcp_pcb" where
  "tlt_init pcb = pcb\<lparr>tlt := tlt_zero\<lparr>recv_state := Idle, send_state := Idle\<rparr>\<rparr>"

definition seg_tos_or :: "tcp_seg \<Rightarrow> u8 \<Rightarrow> tcp_seg" where
  "seg_tos_or seg m = seg\<lparr>sg_tos := sg_tos seg OR m\<rparr>"

definition tlt_send_syn :: "tcp_pcb \<Rightarrow> tcp_seg \<Rightarrow> tcp_pcb \<times> tcp_seg" where
  "tlt_send_syn pcb seg = (pcb\<lparr>tlt := (tlt pcb)\<lparr>send_state := Pending\<rparr>\<rparr>, seg_tos_or seg TLT_TOS_IMP)"

definition tlt_send_ack :: "tcp_pcb \<Rightarrow> tcp_seg \<Rightarrow> tcp_pcb \<times> tcp_seg" where
  "tlt_send_ack pcb seg =
     (case recv_state (tlt pcb) of
        Pending \<Rightarrow> (pcb\<lparr>tlt := (tlt pcb)\<lparr>recv_state := Idle\<rparr>\<rparr>, seg_tos_or seg TLT_TOS_IMPE)
      | PendingForce \<Rightarrow> (pcb\<lparr>tlt := (tlt pcb)\<lparr>recv_state := Idle\<rparr>\<rparr>, seg_tos_or seg TLT_TOS_IMPEF)
      | Idle \<Rightarrow> (pcb, seg_tos_or seg TLT_TOS_IMPC))"

definition tlt_send_payload :: "tcp_pcb \<Rightarrow> tcp_seg \<Rightarrow> (tcp_pcb \<times> tcp_seg) option" where
  "tlt_send_payload pcb seg =
     (case send_state (tlt pcb) of
        Pending \<Rightarrow> Some (pcb\<lparr>tlt := (tlt pcb)\<lparr>send_state := Idle\<rparr>\<rparr>, seg_tos_or seg TLT_TOS_IMP)
      | PendingForce \<Rightarrow> Some (pcb\<lparr>tlt := (tlt pcb)\<lparr>send_state := Idle\<rparr>\<rparr>, seg_tos_or seg TLT_TOS_IMPF)
      | Idle \<Rightarrow> do {
          let seg = seg_tos_or seg TLT_TOS_UIMP;
          (q, n) \<leftarrow> tlt_segment_add (uimp_queue (tlt pcb)) (uimp_queue_len (tlt pcb))
                       (sg_seqno seg - iss pcb) (ucast (sg_len seg)) (cur_round (tlt pcb));
          Some (pcb\<lparr>tlt := (tlt pcb)\<lparr>uimp_queue := q, uimp_queue_len := n,
                  dirty_map := dirty_map (tlt pcb) OR 1\<rparr>\<rparr>, seg)
        })"

definition tlt_out_empty_ack :: "tcp_pcb \<Rightarrow> tcp_pcb \<times> u8" where
  "tlt_out_empty_ack pcb =
     (case recv_state (tlt pcb) of
        Pending \<Rightarrow> (pcb\<lparr>tlt := (tlt pcb)\<lparr>recv_state := Idle\<rparr>\<rparr>, tos pcb OR TLT_TOS_IMPE)
      | PendingForce \<Rightarrow> (pcb\<lparr>tlt := (tlt pcb)\<lparr>recv_state := Idle\<rparr>\<rparr>, tos pcb OR TLT_TOS_IMPEF)
      | Idle \<Rightarrow> (pcb, tos pcb OR TLT_TOS_IMPC))"

definition tlt_out :: "tcp_pcb \<Rightarrow> tcp_seg \<Rightarrow> (tcp_pcb \<times> tcp_seg) option" where
  "tlt_out pcb seg =
     (if sg_len seg \<noteq> 0 then tlt_send_payload pcb seg
      else if has_flag (sg_tcphdr seg) TCP_SYN then Some (tlt_send_syn pcb seg)
      else if has_flag (sg_tcphdr seg) TCP_ACK then Some (tlt_send_ack pcb seg)
      else Some (pcb, seg))"

section \<open>Taking unimportant bytes for a forced transmission\<close>

text \<open>The offset and length peeked, or None when the queue is empty (the function
  then returns 0 and leaves its out-parameters alone).\<close>

definition tlt_uimpq_peek :: "tcp_pcb \<Rightarrow> u32 \<Rightarrow> (u32 \<times> u32) option" where
  "tlt_uimpq_peek pcb maxLen =
     (let h = uimp_queue (tlt pcb) 0 in
      if ts_len h \<noteq> 0 then Some (ts_seq h, if ts_len h > maxLen then maxLen else ts_len h)
      else None)"

definition tlt_uimpq_pop :: "tcp_pcb \<Rightarrow> u32 \<Rightarrow> u32 \<Rightarrow> (tcp_pcb \<times> (u32 \<times> u32) option) option" where
  "tlt_uimpq_pop pcb maxLen rnd =
     (case tlt_uimpq_peek pcb maxLen of
        None \<Rightarrow> Some (pcb, None)
      | Some (s, l) \<Rightarrow> do {
          (q, n) \<leftarrow> tlt_segment_remove_round (uimp_queue (tlt pcb)) (uimp_queue_len (tlt pcb)) s l rnd;
          Some (pcb\<lparr>tlt := (tlt pcb)\<lparr>uimp_queue := q, uimp_queue_len := n\<rparr>\<rparr>, Some (s, l))
        })"

section \<open>Loss detection\<close>

fun is_lost_walk :: "nat \<Rightarrow> uimpq \<Rightarrow> nat option \<Rightarrow> u32 \<Rightarrow> bool option" where
  "is_lost_walk fuel q None bound = Some False"
| "is_lost_walk 0 q (Some p) bound = None"
| "is_lost_walk (Suc fuel) q (Some p) bound =
     (if ts_len (q p) = 0 then None
      else if ts_round (q p) < bound then Some True
      else is_lost_walk fuel q (ts_next (q p)) bound)"

definition tlt_is_lost :: "tcp_pcb \<Rightarrow> bool \<Rightarrow> bool option" where
  "tlt_is_lost pcb check_dirty = do {
     old \<leftarrow> (if ts_len (uimp_queue (tlt pcb) 0) \<noteq> 0
             then is_lost_walk (Suc MAX_UIMP_QUEUE_ELEM) (uimp_queue (tlt pcb)) (Some 0)
                    (cur_round (tlt pcb) - 2)
             else Some False);
     Some (old \<or> (check_dirty \<and> dirty_map (tlt pcb) AND 4 = 0))
   }"

section \<open>Input\<close>

definition tlt_recv_mark :: "tlt_param \<Rightarrow> u8 \<Rightarrow> tlt_param" where
  "tlt_recv_mark t m =
     (if m = TLT_TOS_IMP then t\<lparr>recv_state := Pending\<rparr>
      else if m = TLT_TOS_IMPE then
        t\<lparr>send_state := Pending, cur_round := cur_round t + 1, dirty_map := push_bit 1 (dirty_map t)\<rparr>
      else if m = TLT_TOS_IMPF then t\<lparr>recv_state := PendingForce\<rparr>
      else if m = TLT_TOS_IMPEF then
        t\<lparr>send_state := Pending, cur_round := cur_round t + 1, dirty_map := push_bit 1 (dirty_map t)\<rparr>
      else t)"

text \<open>\<open>tlt_in\<close> accepts every packet.\<close>

definition tlt_in :: "tcp_pcb \<Rightarrow> tcp_seg \<Rightarrow> u8 \<Rightarrow> tcp_pcb option" where
  "tlt_in pcb seg tos_in = do {
     (q, n) \<leftarrow> (if has_flag (sg_tcphdr seg) TCP_ACK
                then tlt_segment_remove (uimp_queue (tlt pcb)) (uimp_queue_len (tlt pcb)) 0
                       (th_ackno (sg_tcphdr seg) - iss pcb)
                else Some (uimp_queue (tlt pcb), uimp_queue_len (tlt pcb)));
     Some (pcb\<lparr>tlt := tlt_recv_mark ((tlt pcb)\<lparr>uimp_queue := q, uimp_queue_len := n\<rparr>)
                       (tos_in AND NOT 3)\<rparr>)
   }"

section \<open>Runs\<close>

text \<open>What can happen to the TLT state of a connection: a segment goes out, an empty
  ACK goes out, a packet comes in, or tcp_output turns a pending important
  mark into a forced one (tcp_out.c, line 1558).\<close>

datatype tlt_ev = Out tcp_seg | Out_ack | In tcp_seg u8 | Force

fun tlt_step :: "tcp_pcb \<Rightarrow> tlt_ev \<Rightarrow> (tcp_pcb \<times> u8) option" where
  "tlt_step pcb (Out seg) = map_option (\<lambda>(pcb', seg'). (pcb', sg_tos seg')) (tlt_out pcb seg)"
| "tlt_step pcb Out_ack = Some (tlt_out_empty_ack pcb)"
| "tlt_step pcb (In seg m) = map_option (\<lambda>pcb'. (pcb', m)) (tlt_in pcb seg m)"
| "tlt_step pcb Force =
     (if send_state (tlt pcb) \<noteq> Idle
      then Some (pcb\<lparr>tlt := (tlt pcb)\<lparr>send_state := PendingForce\<rparr>\<rparr>, 0) else Some (pcb, 0))"

text \<open>The trace of a run: each event with the mark the packet carried.\<close>

fun tlt_run :: "tcp_pcb \<Rightarrow> tlt_ev list \<Rightarrow> (tcp_pcb \<times> (tlt_ev \<times> u8) list) option" where
  "tlt_run pcb [] = Some (pcb, [])"
| "tlt_run pcb (e # es) =
     (case tlt_step pcb e of None \<Rightarrow> None
      | Some (pcb', m) \<Rightarrow>
        (case tlt_run pcb' es of None \<Rightarrow> None
         | Some (pcb'', tr) \<Rightarrow> Some (pcb'', (e, m) # tr)))"

definition dscp :: "u8 \<Rightarrow> u8" where
  "dscp m = m AND NOT 3"

fun important_data :: "tlt_ev \<times> u8 \<Rightarrow> bool" where
  "important_data (Out seg, m) = (sg_len seg \<noteq> 0 \<and> dscp m \<in> {TLT_TOS_IMP, TLT_TOS_IMPF})"
| "important_data _ = False"

fun grants :: "tlt_ev \<times> u8 \<Rightarrow> bool" where
  "grants (Out seg, m) = (sg_len seg = 0 \<and> has_flag (sg_tcphdr seg) TCP_SYN)"
| "grants (In seg m, _) = (dscp m \<in> {TLT_TOS_IMPE, TLT_TOS_IMPEF})"
| "grants _ = False"

fun echo :: "tlt_ev \<times> u8 \<Rightarrow> bool" where
  "echo (Out seg, m) = (sg_len seg = 0 \<and> dscp m \<in> {TLT_TOS_IMPE, TLT_TOS_IMPEF})"
| "echo (Out_ack, m) = (dscp m \<in> {TLT_TOS_IMPE, TLT_TOS_IMPEF})"
| "echo _ = False"

fun important_in :: "tlt_ev \<times> u8 \<Rightarrow> bool" where
  "important_in (In seg m, _) = (dscp m \<in> {TLT_TOS_IMP, TLT_TOS_IMPF})"
| "important_in _ = False"

definition occ :: "('a \<Rightarrow> bool) \<Rightarrow> 'a list \<Rightarrow> nat" where
  "occ P xs = length (filter P xs)"

text \<open>Segments start with the DSCP bits of an unmarked connection.\<close>

fun unmarked :: "tlt_ev \<Rightarrow> bool" where
  "unmarked (Out seg) = (dscp (sg_tos seg) = 0)"
| "unmarked _ = True"

section \<open>Lemmas\<close>

definition tlt_ok :: "tcp_pcb \<Rightarrow> bool" where
  "tlt_ok pcb = (\<exists>is. qrep (uimp_queue (tlt pcb)) (uimp_queue_len (tlt pcb)) is
     \<and> small_blocks (uimp_queue (tlt pcb)) \<and> pos_blocks (uimp_queue (tlt pcb)))"

definition tlt_bytes :: "tcp_pcb \<Rightarrow> nat set" where
  "tlt_bytes pcb = cov (uimp_queue (tlt pcb))"

definition tlt_blocks :: "tcp_pcb \<Rightarrow> nat" where
  "tlt_blocks pcb = unat (uimp_queue_len (tlt pcb))"

lemma occ_simps [simp]:
  "occ P [] = 0" "occ P (x # xs) = (if P x then Suc (occ P xs) else occ P xs)"
  by (simp_all add: occ_def)

lemma tlt_recv_mark_queue [simp]:
  "uimp_queue (tlt_recv_mark t m) = uimp_queue t"
  "uimp_queue_len (tlt_recv_mark t m) = uimp_queue_len t"
  by (simp_all add: tlt_recv_mark_def)

lemma rm_ok_tlt:
  assumes "rm_ok C m r" "r = Some (q, n)" "uimp_queue (tlt pcb) = q" "uimp_queue_len (tlt pcb) = n"
  shows "tlt_ok pcb \<and> tlt_bytes pcb = C \<and> tlt_blocks pcb \<le> m"
  using assms unfolding rm_ok_def tlt_ok_def tlt_bytes_def tlt_blocks_def
  by (auto simp: qrep_unat)

lemma dscp_or: "dscp (x OR m) = dscp x OR dscp m"
  by (simp add: dscp_def bit.conj_disj_distrib2)

lemma dscp_marks [simp]:
  "dscp TLT_TOS_IMP = TLT_TOS_IMP" "dscp TLT_TOS_IMPE = TLT_TOS_IMPE" "dscp TLT_TOS_IMPF = TLT_TOS_IMPF"
  "dscp TLT_TOS_IMPEF = TLT_TOS_IMPEF" "dscp TLT_TOS_IMPC = TLT_TOS_IMPC" "dscp TLT_TOS_UIMP = TLT_TOS_UIMP"
  by (simp_all add: dscp_def tlt_tos_defs)

lemma tlt_run_Cons:
  "tlt_run pcb (e # es) = Some (pcb'', tr) \<longleftrightarrow>
   (\<exists>pcb' m tr'. tlt_step pcb e = Some (pcb', m) \<and> tlt_run pcb' es = Some (pcb'', tr') \<and> tr = (e, m) # tr')"
  by (auto split: option.splits)

lemma marks_differ:
  "TLT_TOS_UIMP \<noteq> TLT_TOS_IMP" "TLT_TOS_UIMP \<noteq> TLT_TOS_IMPF" "TLT_TOS_IMPE \<noteq> TLT_TOS_IMP"
  "TLT_TOS_IMPE \<noteq> TLT_TOS_IMPF" "TLT_TOS_IMPEF \<noteq> TLT_TOS_IMP" "TLT_TOS_IMPEF \<noteq> TLT_TOS_IMPF"
  "TLT_TOS_IMPEF \<noteq> TLT_TOS_IMPE" "TLT_TOS_IMPC \<noteq> TLT_TOS_IMPE" "TLT_TOS_IMPC \<noteq> TLT_TOS_IMPEF"
  "TLT_TOS_IMPF \<noteq> TLT_TOS_IMP" "TLT_TOS_IMPF \<noteq> TLT_TOS_IMPE" "TLT_TOS_IMP \<noteq> TLT_TOS_IMPE"
  "TLT_TOS_IMP \<noteq> TLT_TOS_IMPEF" "TLT_TOS_IMPF \<noteq> TLT_TOS_IMPEF" "TLT_TOS_IMPE \<noteq> 0" "TLT_TOS_IMPEF \<noteq> 0"
  by (simp_all add: tlt_tos_defs)

lemma send_state_recv_mark:
  "send_state (tlt_recv_mark t m) = (if m \<in> {TLT_TOS_IMPE, TLT_TOS_IMPEF} then Pending else send_state t)"
  by (auto simp: tlt_recv_mark_def marks_differ)

lemma recv_state_recv_mark:
  "recv_state (tlt_recv_mark t m) = (if m = TLT_TOS_IMP then Pending
     else if m = TLT_TOS_IMPF then PendingForce else recv_state t)"
  by (auto simp: tlt_recv_mark_def marks_differ)

text \<open>One event: an important data packet uses up the pending mark.\<close>

lemma clock_step:
  assumes "tlt_step pcb e = Some (pcb', m)" "unmarked e"
  shows "(if important_data (e, m) then 1 else 0) + (if send_state (tlt pcb') \<noteq> Idle then 1 else 0)
    \<le> (if grants (e, m) then 1 else 0) + (if send_state (tlt pcb) \<noteq> Idle then 1 else (0 :: nat))"
proof (cases e)
  case (Out seg)
  then show ?thesis using assms
    by (auto simp: tlt_out_def tlt_send_payload_def tlt_send_syn_def tlt_send_ack_def seg_tos_or_def
        dscp_or marks_differ bind_eq_Some_conv split: if_splits tlt_state.splits)
next
  case (In seg m')
  then show ?thesis using assms
    by (auto simp: tlt_in_def send_state_recv_mark dscp_def bind_eq_Some_conv)
qed (use assms in \<open>auto simp: tlt_out_empty_ack_def split: tlt_state.splits if_splits\<close>)

lemma echo_step:
  assumes "tlt_step pcb e = Some (pcb', m)" "unmarked e" "dscp (tos pcb) = 0"
  shows "(if echo (e, m) then 1 else 0) + (if recv_state (tlt pcb') \<noteq> Idle then 1 else 0)
    \<le> (if important_in (e, m) then 1 else 0) + (if recv_state (tlt pcb) \<noteq> Idle then 1 else (0 :: nat))
    \<and> tos pcb' = tos pcb"
proof (cases e)
  case (Out seg)
  then show ?thesis using assms
    by (auto simp: tlt_out_def tlt_send_payload_def tlt_send_syn_def tlt_send_ack_def seg_tos_or_def
        dscp_or marks_differ bind_eq_Some_conv split: if_splits tlt_state.splits)
next
  case (In seg m')
  then show ?thesis using assms
    by (auto simp: tlt_in_def recv_state_recv_mark dscp_def bind_eq_Some_conv)
qed (use assms in \<open>auto simp: tlt_out_empty_ack_def dscp_or marks_differ split: tlt_state.splits if_splits\<close>)

lemma tlt_okE:
  assumes "tlt_ok pcb"
  obtains "is" where "qrep (uimp_queue (tlt pcb)) (uimp_queue_len (tlt pcb)) is"
    "small_blocks (uimp_queue (tlt pcb))" "pos_blocks (uimp_queue (tlt pcb))" "length is = tlt_blocks pcb"
  using assms unfolding tlt_ok_def tlt_blocks_def by (auto simp: qrep_unat)

lemma skip_old_rounds:
  assumes "rnd \<noteq> 0xFFFFFFFF" "\<forall>i. ts_round (q i) < rnd" "lpath q ps zs None"
    "\<forall>i\<in>set zs. ts_len (q i) \<noteq> 0" "length zs < fuel"
  shows "rm_loop fuel q n pps ps False seq len rnd = Some (q, n)"
  using assms
proof (induction zs arbitrary: ps pps fuel)
  case (Cons p zs)
  obtain f where f: "fuel = Suc f" using Cons.prems(5) by (cases fuel) auto
  have "rm_step q n pps p seq len rnd = Some (False, q, n, p, False)"
    using Cons.prems(1,2) by (simp add: rm_step_def)
  then show ?case using Cons f by simp
qed simp

lemma is_lost_walk_spec:
  assumes "lpath q ps zs None" "\<forall>i\<in>set zs. ts_len (q i) \<noteq> 0" "length zs < fuel"
  shows "is_lost_walk fuel q ps b = Some (\<exists>i\<in>set zs. ts_round (q i) < b)"
  using assms
proof (induction zs arbitrary: ps fuel)
  case (Cons p zs)
  obtain f where f: "fuel = Suc f" using Cons.prems(3) by (cases fuel) auto
  show ?case using Cons f by simp
qed simp

text \<open>A queue whose blocks all lie behind offset 2^31.\<close>

definition tlt_ok_far :: "tcp_pcb \<Rightarrow> bool" where
  "tlt_ok_far pcb = (\<exists>is. qrep (uimp_queue (tlt pcb)) (uimp_queue_len (tlt pcb)) is
     \<and> (\<forall>i. ts_len (uimp_queue (tlt pcb) i) \<noteq> 0 \<longrightarrow> 2147483648 < unat (ts_seq (uimp_queue (tlt pcb) i))))"

lemma far_step:
  assumes "2147483648 < unat (ts_seq (q p))"
    "unat (ts_seq (q p)) + unat (ts_len (q p)) < unat a"
  shows "rm_step q n pps p 0 a 0xFFFFFFFF = Some (False, q, n, p, False)"
proof -
  have e: "unat (ts_end (q p)) = unat (ts_seq (q p)) + unat (ts_len (q p))"
    using assms(2) unat_lt32 [of a] by (intro unat_plus32) linarith
  have "\<not> TCP_SEQ_LEQ a (ts_end (q p))" "\<not> TCP_SEQ_LEQ 0 (ts_seq (q p))"
    "TCP_SEQ_LEQ (ts_end (q p)) 0" "TCP_SEQ_LEQ (ts_end (q p)) a"
    using assms e unfolding seq_leq_iff seq_lt_unat unat_diff_cases word_unat_eq_iff
    by (auto split: if_splits) (use unat_lt32 [of a] in linarith)+
  then show ?thesis by (simp add: rm_step_def)
qed

lemma far_loop:
  assumes "lpath q ps zs None" "\<forall>i\<in>set zs. 2147483648 < unat (ts_seq (q i))"
    "\<forall>i\<in>set zs. unat (ts_seq (q i)) + unat (ts_len (q i)) < unat a" "length zs < fuel"
  shows "rm_loop fuel q n pps ps False 0 a 0xFFFFFFFF = Some (q, n)"
  using assms
proof (induction zs arbitrary: ps pps fuel)
  case (Cons p zs)
  obtain f where f: "fuel = Suc f" using Cons.prems(4) by (cases fuel) auto
  show ?case using Cons f far_step [of q p a n pps] by simp
qed simp

lemma above_all_cov: "cov q \<subseteq> {..<unat s} \<Longrightarrow> above_all q s"
proof (unfold above_all_def, intro allI impI)
  fix i assume c: "cov q \<subseteq> {..<unat s}" and l: "ts_len (q i) \<noteq> 0"
  then have "unat (ts_seq (q i)) + unat (ts_len (q i)) - 1 \<in> cov q"
    using blk_sub_cov [of q i] unat_gt_0 [of "ts_len (q i)"] by (fastforce simp: blk_def)
  then have "unat (ts_seq (q i)) + unat (ts_len (q i)) - 1 < unat s" using c by blast
  then show "unat (ts_seq (q i)) + unat (ts_len (q i)) \<le> unat s" by linarith
qed

section \<open>Concrete connections\<close>

definition ex_queue :: "u32 \<Rightarrow> uimpq" where
  "ex_queue s = (\<lambda>_. empty_tseg)(0 := \<lparr>ts_seq = s, ts_len = 1000, ts_round = 1, ts_next = None\<rparr>)"

definition ex_pcb :: "u32 \<Rightarrow> tcp_pcb" where
  "ex_pcb s = pcb_zero\<lparr>iss := 5000, tlt := tlt_zero\<lparr>uimp_queue := ex_queue s, uimp_queue_len := 1, cur_round := 1\<rparr>\<rparr>"

definition ex_data :: "u32 \<Rightarrow> tcp_seg" where
  "ex_data s = seg_zero\<lparr>sg_len := 500, sg_seqno := s, sg_tcphdr := TCPH_FLAGS_SET hdr_zero TCP_ACK\<rparr>"

definition ex_syn :: tcp_seg where
  "ex_syn = seg_zero\<lparr>sg_tcphdr := TCPH_FLAGS_SET hdr_zero TCP_SYN\<rparr>"

definition ex_ack :: "u32 \<Rightarrow> tcp_seg" where
  "ex_ack a = seg_zero\<lparr>sg_tcphdr := (TCPH_FLAGS_SET hdr_zero TCP_ACK)\<lparr>th_ackno := a\<rparr>\<rparr>"

definition ex_full :: uimpq where
  "ex_full = (\<lambda>i. if i < 256 then \<lparr>ts_seq = of_nat (2 * i + 1), ts_len = 1, ts_round = 0,
     ts_next = (if i < 255 then Some (Suc i) else None)\<rparr> else empty_tseg)"

lemma has_flag_cong: "th_hdrlen_rsvd_flags h = th_hdrlen_rsvd_flags h' \<Longrightarrow> has_flag h f = has_flag h' f"
  by (simp add: has_flag_def TCPH_FLAGS_def)

lemma has_flag_FLAGS_SET: "has_flag (TCPH_FLAGS_SET h f) g = (f AND TCP_FLAGS AND g \<noteq> 0)"
  by (simp add: has_flag_def TCPH_FLAGS_FLAGS_SET and.assoc)

lemma ex_flags [simp]:
  "has_flag (sg_tcphdr ex_syn) TCP_SYN" "has_flag (sg_tcphdr (ex_ack a)) TCP_ACK"
  "th_ackno (sg_tcphdr (ex_ack a)) = a" "sg_len ex_syn = 0" "sg_tos ex_syn = 0"
  "sg_len (ex_data s) = 500" "sg_seqno (ex_data s) = s" "sg_tos (ex_data s) = 0"
  using has_flag_cong [of "sg_tcphdr (ex_ack a)" "TCPH_FLAGS_SET hdr_zero TCP_ACK" TCP_ACK]
  by (simp_all add: ex_syn_def ex_ack_def ex_data_def has_flag_FLAGS_SET tcp_flag_defs seg_zero_def)

lemma ex_pcb_facts [simp]:
  "iss (ex_pcb s) = 5000" "send_state (tlt (ex_pcb s)) = Idle" "tlt_blocks (ex_pcb s) = 1"
  "uimp_queue (tlt (ex_pcb s)) = ex_queue s" "cur_round (tlt (ex_pcb s)) = 1"
  by (simp_all add: ex_pcb_def tlt_blocks_def tlt_zero_def)

lemma ex_qrep: "qrep (ex_queue s) 1 [0]"
  by (simp add: qrep_unfold ex_queue_def MAX_UIMP_QUEUE_ELEM_def empty_tseg_def)

lemma ex_ok: "unat s < 2147480000 \<Longrightarrow> 0 < unat s \<Longrightarrow> tlt_ok (ex_pcb s)"
  using ex_qrep [of s] unfolding tlt_ok_def
  by (intro exI [of _ "[0]"]) (simp add: small_blocks_def ex_pcb_def tlt_zero_def ex_queue_def empty_tseg_def)

lemma ex_bytes: "tlt_bytes (ex_pcb s) = {unat s ..< unat s + 1000}"
  unfolding tlt_bytes_def ex_pcb_facts ex_queue_def cov_upd by (simp add: blk_def empty_tseg_def)

lemma lpath_full: "i \<le> 255 \<Longrightarrow> lpath ex_full (Some i) [i..<256] None"
proof (induction "255 - i" arbitrary: i)
  case (Suc k)
  then have "lpath ex_full (Some (Suc i)) [Suc i..<256] None" by simp
  moreover have "[i..<256] = i # [Suc i..<256]" using Suc by (simp add: upt_conv_Cons)
  ultimately show ?case using Suc by (simp add: ex_full_def)
qed (simp add: ex_full_def upt_conv_Cons)

lemma unat_full: "i < 256 \<Longrightarrow> unat (1 + 2 * of_nat i :: u32) = 2 * i + 1"
proof -
  assume "i < 256"
  then have "unat (of_nat (2 * i + 1) :: u32) = 2 * i + 1" by (intro unat_of_nat32) linarith
  then show ?thesis by (simp add: add.commute)
qed

lemma full_qrep:
  assumes "xs = [0..<256]"
  shows "qrep ex_full 256 xs"
proof -
  have "distinct xs" unfolding assms by (rule distinct_upt)
  moreover have "set xs = {..<256}" unfolding assms set_upt atLeast0LessThan ..
  moreover have "length xs = 256" unfolding assms length_upt by simp
  moreover have "lpath ex_full (Some 0) xs None" unfolding assms by (rule lpath_full) simp
  ultimately show ?thesis by (auto simp: qrep_def MAX_UIMP_QUEUE_ELEM_def ex_full_def empty_tseg_def)
qed

section \<open>Properties\<close>

text \<open>C21. An incoming ACK takes exactly the acknowledged bytes out of the queue of
  unimportant bytes, whatever their rounds and however the blocks overlap; the
  queue stays well formed and does not grow.  The stream offset of the ACK is
  below 2^31.\<close>

theorem tlt_in_purges:
  assumes "tlt_ok pcb" "has_flag (sg_tcphdr seg) TCP_ACK" "near (iss pcb) (th_ackno (sg_tcphdr seg))"
  shows "\<exists>pcb'. tlt_in pcb seg m = Some pcb' \<and> tlt_ok pcb' \<and> tlt_blocks pcb' \<le> tlt_blocks pcb
    \<and> tlt_bytes pcb' = tlt_bytes pcb - {..<seq_off (iss pcb) (th_ackno (sg_tcphdr seg))}"
proof -
  obtain "is" where R: "qrep (uimp_queue (tlt pcb)) (uimp_queue_len (tlt pcb)) is"
    "small_blocks (uimp_queue (tlt pcb))" "pos_blocks (uimp_queue (tlt pcb))" "length is = tlt_blocks pcb"
    using assms(1) by (rule tlt_okE)
  let ?r = "tlt_segment_remove (uimp_queue (tlt pcb)) (uimp_queue_len (tlt pcb)) 0 (th_ackno (sg_tcphdr seg) - iss pcb)"
  have ok: "rm_ok (tlt_bytes pcb - {..<seq_off (iss pcb) (th_ackno (sg_tcphdr seg))}) (length is) ?r"
    using remove_purge [OF R(1-3)] assms(3) by (simp add: seq_off_def tlt_bytes_def)
  then obtain q n where r: "?r = Some (q, n)" by (auto simp: rm_ok_def)
  have "tlt_in pcb seg m = Some (pcb\<lparr>tlt := tlt_recv_mark ((tlt pcb)\<lparr>uimp_queue := q, uimp_queue_len := n\<rparr>) (m AND NOT 3)\<rparr>)"
    using r assms(2) by (simp add: tlt_in_def)
  then show ?thesis using rm_ok_tlt [OF ok r] R(4) by simp
qed

theorem tlt_in_purges_witness:
  "\<exists>pcb'. tlt_in (ex_pcb 1) (ex_ack 5501) 0 = Some pcb' \<and> tlt_bytes pcb' = {501..<1001}"
proof -
  have "{1..<1001} - {..<501} = {501..<1001 :: nat}" by auto
  then show ?thesis
    using tlt_in_purges [of "ex_pcb 1" "ex_ack 5501" 0] ex_ok [of 1] by (auto simp: ex_bytes seq_off_def)
qed

text \<open>A data segment sent while no mark is pending is marked unimportant, and the
  queue then covers the old bytes and exactly the bytes of the segment.  With
  at most 127 blocks queued this holds for every segment, new or
  retransmitted, and never writes outside the array.\<close>

theorem tlt_out_queues:
  assumes "tlt_ok pcb" "tlt_blocks pcb \<le> 127" "send_state (tlt pcb) = Idle" "sg_len seg \<noteq> 0"
    "0 < seq_off (iss pcb) (sg_seqno seg)" "seq_off (iss pcb) (sg_seqno seg) + unat (sg_len seg) < 2147483648"
  shows "\<exists>pcb' seg'. tlt_out pcb seg = Some (pcb', seg') \<and> tlt_ok pcb'
    \<and> tlt_bytes pcb' = tlt_bytes pcb \<union>
        {seq_off (iss pcb) (sg_seqno seg) ..< seq_off (iss pcb) (sg_seqno seg) + unat (sg_len seg)}
    \<and> sg_tos seg' = sg_tos seg OR TLT_TOS_UIMP \<and> send_state (tlt pcb') = Idle"
proof -
  obtain "is" where R: "qrep (uimp_queue (tlt pcb)) (uimp_queue_len (tlt pcb)) is"
    "small_blocks (uimp_queue (tlt pcb))" "pos_blocks (uimp_queue (tlt pcb))" "length is = tlt_blocks pcb"
    using assms(1) by (rule tlt_okE)
  let ?r = "tlt_segment_add (uimp_queue (tlt pcb)) (uimp_queue_len (tlt pcb)) (sg_seqno seg - iss pcb)
    (ucast (sg_len seg)) (cur_round (tlt pcb))"
  have nz: "(ucast (sg_len seg) :: u32) \<noteq> 0" using assms(4) by (metis unat_eq_0 unat_ucast16_32)
  have ok: "rm_ok (tlt_bytes pcb \<union> rng (sg_seqno seg - iss pcb) (ucast (sg_len seg))) (2 * length is + 1) ?r"
    using add_spec [OF R(1-3) _ _ nz, of "sg_seqno seg - iss pcb"] assms R(4)
    by (simp add: seq_off_def tlt_bytes_def)
  then obtain q n where r: "?r = Some (q, n)" by (auto simp: rm_ok_def)
  let ?p = "pcb\<lparr>tlt := (tlt pcb)\<lparr>uimp_queue := q, uimp_queue_len := n, dirty_map := dirty_map (tlt pcb) OR 1\<rparr>\<rparr>"
  have "tlt_out pcb seg = Some (?p, seg_tos_or seg TLT_TOS_UIMP)"
    using r assms(3,4) by (simp add: tlt_out_def tlt_send_payload_def seg_tos_or_def)
  then show ?thesis
    using rm_ok_tlt [OF ok r, of ?p] assms(3) by (simp add: seg_tos_or_def seq_off_def rng_def)
qed

theorem tlt_out_queues_witness:
  "\<exists>pcb' seg'. tlt_out (ex_pcb 1) (ex_data 6001) = Some (pcb', seg') \<and> tlt_bytes pcb' = {1..<1501}
     \<and> sg_tos seg' = TLT_TOS_UIMP"
proof -
  have "{1..<1001} \<union> {1001..<1501} = {1..<1501 :: nat}" by auto
  then show ?thesis
    using tlt_out_queues [of "ex_pcb 1" "ex_data 6001"] ex_ok [of 1] by (auto simp: ex_bytes seq_off_def)
qed

text \<open>C22. Important packets are clocked by echoes.  In every run that starts with no mark
  pending, the number of data packets sent as important or important-forced is
  at most the number of SYNs sent plus the number of important echoes
  received.\<close>

theorem important_clock:
  assumes "tlt_run pcb es = Some (pcb', tr)" "send_state (tlt pcb) = Idle" "list_all unmarked es"
  shows "occ important_data tr \<le> occ grants tr"
proof -
  have "occ important_data tr + (if send_state (tlt pcb') \<noteq> Idle then 1 else 0)
      \<le> occ grants tr + (if send_state (tlt pcb) \<noteq> Idle then 1 else 0)"
    using assms(1,3)
  proof (induction es arbitrary: pcb tr)
    case (Cons e es)
    then obtain p1 m tr1 where s: "tlt_step pcb e = Some (p1, m)" and r: "tlt_run p1 es = Some (pcb', tr1)"
      and tr: "tr = (e, m) # tr1" by (auto simp: tlt_run_Cons simp del: tlt_run.simps)
    show ?case using Cons.IH [OF r] clock_step [OF s] Cons.prems(2) tr by (simp split: if_splits)
  qed simp
  then show ?thesis using assms(2) by simp
qed

theorem important_clock_witness:
  "\<exists>pcb' tr. tlt_run pcb_zero [Out ex_syn, Out (ex_data 1)] = Some (pcb', tr)
     \<and> occ important_data tr = 1 \<and> occ important_data tr \<le> occ grants tr"
proof -
  let ?p = "pcb_zero\<lparr>tlt := (tlt pcb_zero)\<lparr>send_state := Idle\<rparr>\<rparr>"
  let ?tr = "[(Out ex_syn, TLT_TOS_IMP), (Out (ex_data 1), TLT_TOS_IMP)]"
  have s: "send_state (tlt pcb_zero) = Idle" by (simp add: pcb_zero_def tlt_zero_def)
  have r: "tlt_run pcb_zero [Out ex_syn, Out (ex_data 1)] = Some (?p, ?tr)"
    by (simp add: tlt_out_def tlt_send_syn_def tlt_send_payload_def seg_tos_or_def)
  then have "occ important_data ?tr \<le> occ grants ?tr"
    by (rule important_clock) (simp_all add: s dscp_def)
  then show ?thesis using r by simp
qed

text \<open>C23. The receiver never invents an echo: in every run that starts with nothing to
  echo, the number of echoes sent is at most the number of important packets
  received.\<close>

theorem echo_conservation:
  assumes "tlt_run pcb es = Some (pcb', tr)" "recv_state (tlt pcb) = Idle" "list_all unmarked es"
    "dscp (tos pcb) = 0"
  shows "occ echo tr \<le> occ important_in tr"
proof -
  have "occ echo tr + (if recv_state (tlt pcb') \<noteq> Idle then 1 else 0)
      \<le> occ important_in tr + (if recv_state (tlt pcb) \<noteq> Idle then 1 else 0)"
    using assms(1,3,4)
  proof (induction es arbitrary: pcb tr)
    case (Cons e es)
    then obtain p1 m tr1 where s: "tlt_step pcb e = Some (p1, m)" and r: "tlt_run p1 es = Some (pcb', tr1)"
      and tr: "tr = (e, m) # tr1" by (auto simp: tlt_run_Cons simp del: tlt_run.simps)
    show ?case using Cons.IH [OF r] echo_step [OF s] Cons.prems(2,3) tr by (simp split: if_splits)
  qed simp
  then show ?thesis using assms(2) by simp
qed

theorem echo_conservation_witness:
  "\<exists>pcb' tr. tlt_run pcb_zero [In ex_syn TLT_TOS_IMP, Out_ack] = Some (pcb', tr)
     \<and> occ echo tr = 1 \<and> occ echo tr \<le> occ important_in tr"
proof -
  let ?tr = "[(In ex_syn TLT_TOS_IMP, TLT_TOS_IMP), (Out_ack, TLT_TOS_IMPE)]"
  have na: "\<not> has_flag (sg_tcphdr ex_syn) TCP_ACK"
    by (simp add: ex_syn_def has_flag_FLAGS_SET tcp_flag_defs)
  have m: "tlt_recv_mark t (TLT_TOS_IMP AND NOT 3) = t\<lparr>recv_state := Pending\<rparr>" for t
    using dscp_marks(1) by (simp only: dscp_def tlt_recv_mark_def simp_thms if_True)
  have t: "tos pcb_zero = 0" by (simp add: pcb_zero_def)
  obtain p where i: "tlt_step pcb_zero (In ex_syn TLT_TOS_IMP) = Some (p, TLT_TOS_IMP)"
    "recv_state (tlt p) = Pending" "tos p = 0"
    unfolding tlt_step.simps tlt_in_def m using na t by simp
  have "tlt_step p Out_ack = Some (p\<lparr>tlt := (tlt p)\<lparr>recv_state := Idle\<rparr>\<rparr>, TLT_TOS_IMPE)"
    using i by (simp add: tlt_out_empty_ack_def)
  then obtain p' where r: "tlt_run pcb_zero [In ex_syn TLT_TOS_IMP, Out_ack] = Some (p', ?tr)"
    using i by simp
  then have "occ echo ?tr \<le> occ important_in ?tr"
    by (rule echo_conservation) (simp_all add: pcb_zero_def tlt_zero_def dscp_def)
  then show ?thesis using r by simp
qed

text \<open>Popping from the queue with a round that the head block has reached takes at most
  maxLen bytes from the front of the head block and nothing else: the popped
  range leaves the head, every other block stays, and the queue stays well
  formed.\<close>

theorem tlt_uimpq_pop_takes:
  assumes "tlt_ok pcb" "tlt_blocks pcb \<noteq> 0"
    "rnd = 0xFFFFFFFF \<or> rnd \<le> ts_round (uimp_queue (tlt pcb) 0)"
  shows "\<exists>pcb' s l. tlt_uimpq_pop pcb maxLen rnd = Some (pcb', Some (s, l)) \<and> tlt_ok pcb'
    \<and> s = ts_seq (uimp_queue (tlt pcb) 0) \<and> l = min maxLen (ts_len (uimp_queue (tlt pcb) 0))
    \<and> tlt_bytes pcb' = blk (uimp_queue (tlt pcb) 0) - rng s l \<union> (\<Union>j\<in>-{0}. blk (uimp_queue (tlt pcb) j))"
proof -
  let ?q = "uimp_queue (tlt pcb)"
  obtain "is" where R: "qrep ?q (uimp_queue_len (tlt pcb)) is"
    "small_blocks ?q" "pos_blocks ?q" "length is = tlt_blocks pcb"
    using assms(1) by (rule tlt_okE)
  obtain ys where ys: "is = 0 # ys" using R assms(2) qrep_head [OF R(1)] by (cases "is") auto
  have l0: "ts_len (?q 0) \<noteq> 0" using R(1) ys by (simp add: qrep_nonempty)
  define l where "l = min maxLen (ts_len (?q 0))"
  have pk: "tlt_uimpq_peek pcb maxLen = Some (ts_seq (?q 0), l)"
    using l0 by (auto simp: tlt_uimpq_peek_def l_def min_def Let_def)
  let ?r = "tlt_segment_remove_round ?q (uimp_queue_len (tlt pcb)) (ts_seq (?q 0)) l rnd"
  have ok: "rm_ok ({unat (ts_seq (?q 0)) + unat l ..< unat (ts_seq (?q 0)) + unat (ts_len (?q 0))}
       \<union> (\<Union>j\<in>-{0}. blk (?q j))) (length (0 # ys)) ?r"
    by (rule remove_head) (use R ys assms(3) in \<open>auto simp: l_def\<close>)
  then obtain q n where r: "?r = Some (q, n)" by (auto simp: rm_ok_def)
  let ?p = "pcb\<lparr>tlt := (tlt pcb)\<lparr>uimp_queue := q, uimp_queue_len := n\<rparr>\<rparr>"
  have "tlt_uimpq_pop pcb maxLen rnd = Some (?p, Some (ts_seq (?q 0), l))"
    using pk r by (simp add: tlt_uimpq_pop_def)
  moreover have "{unat (ts_seq (?q 0)) + unat l ..< unat (ts_seq (?q 0)) + unat (ts_len (?q 0))}
      = blk (?q 0) - rng (ts_seq (?q 0)) l" by (auto simp: blk_def rng_def)
  ultimately show ?thesis using rm_ok_tlt [OF ok r, of ?p] by (simp add: l_def)
qed

theorem tlt_uimpq_pop_takes_witness:
  "\<exists>pcb'. tlt_uimpq_pop (ex_pcb 1) 100 1 = Some (pcb', Some (1, 100)) \<and> tlt_bytes pcb' = {101..<1001}"
proof -
  have "{1..<1001} - {1..<101} = {101..<1001 :: nat}" by auto
  then show ?thesis
    using tlt_uimpq_pop_takes [of "ex_pcb 1" 1 100] ex_ok [of 1]
    by (auto simp: ex_queue_def blk_def rng_def empty_tseg_def min_def split: if_splits)
qed

text \<open>When every queued block is older than the round passed to tlt_uimpq_pop, the call
  still returns a range but removes nothing.  tcp_output passes cur_round - 2,
  and tlt_is_lost reports loss for blocks older than that, so the bytes of a
  lost block stay queued after their forced retransmission.\<close>

theorem tlt_uimpq_pop_skips_lost:
  assumes "tlt_ok pcb" "tlt_blocks pcb \<noteq> 0" "rnd \<noteq> 0xFFFFFFFF"
    "\<forall>i. ts_round (uimp_queue (tlt pcb) i) < rnd"
  shows "tlt_uimpq_pop pcb maxLen rnd = Some (pcb, tlt_uimpq_peek pcb maxLen)
    \<and> tlt_uimpq_peek pcb maxLen \<noteq> None"
proof -
  let ?q = "uimp_queue (tlt pcb)"
  obtain "is" where R: "qrep ?q (uimp_queue_len (tlt pcb)) is" "length is = tlt_blocks pcb"
    using assms(1) by (rule tlt_okE)
  have ne: "is \<noteq> []" using R(2) assms(2) by auto
  then have l0: "ts_len (?q 0) \<noteq> 0" using R(1) by (simp add: qrep_nonempty)
  have "rm_loop (2 * MAX_UIMP_QUEUE_ELEM) ?q (uimp_queue_len (tlt pcb)) None (Some 0) False s l rnd
      = Some (?q, uimp_queue_len (tlt pcb))" for s l
    by (rule skip_old_rounds [OF assms(3,4), of _ "is"])
      (use R(1) ne qrep_length [OF R(1)] in \<open>auto simp: qrep_unfold MAX_UIMP_QUEUE_ELEM_def\<close>)
  then show ?thesis using l0
    by (auto simp: tlt_uimpq_pop_def tlt_uimpq_peek_def tlt_segment_remove_round_def Let_def)
qed

theorem tlt_uimpq_pop_skips_lost_witness:
  "tlt_uimpq_pop (ex_pcb 1) 1460 2 = Some (ex_pcb 1, Some (1, 1000))"
  using tlt_uimpq_pop_skips_lost [of "ex_pcb 1" 2 1460] ex_ok [of 1]
  by (simp add: ex_queue_def empty_tseg_def tlt_uimpq_peek_def)

text \<open>On a well-formed queue tlt_is_lost (without the dirty check) terminates and says
  whether some queued block was last sent in a round before cur_round - 2,
  computed modulo 2^32.\<close>

theorem tlt_is_lost_spec:
  assumes "tlt_ok pcb"
  shows "tlt_is_lost pcb False = Some (\<exists>i. ts_len (uimp_queue (tlt pcb) i) \<noteq> 0
    \<and> ts_round (uimp_queue (tlt pcb) i) < cur_round (tlt pcb) - 2)"
proof -
  let ?q = "uimp_queue (tlt pcb)"
  obtain "is" where R: "qrep ?q (uimp_queue_len (tlt pcb)) is" using assms by (rule tlt_okE)
  show ?thesis
  proof (cases "is")
    case Nil
    then have "\<forall>i. ts_len (?q i) = 0" using R by (simp add: qrep_empty_iff)
    then show ?thesis by (simp add: tlt_is_lost_def)
  next
    case (Cons x ys)
    then have l0: "ts_len (?q 0) \<noteq> 0" using R by (simp add: qrep_nonempty)
    have "is_lost_walk (Suc MAX_UIMP_QUEUE_ELEM) ?q (Some 0) b = Some (\<exists>i\<in>set is. ts_round (?q i) < b)" for b
      by (rule is_lost_walk_spec)
        (use R Cons qrep_length [OF R] in \<open>auto simp: qrep_def MAX_UIMP_QUEUE_ELEM_def\<close>)
    then show ?thesis using l0 qrep_len [OF R] by (auto simp: tlt_is_lost_def)
  qed
qed

theorem tlt_is_lost_spec_witness:
  "tlt_is_lost ((ex_pcb 1)\<lparr>tlt := (tlt (ex_pcb 1))\<lparr>cur_round := 4\<rparr>\<rparr>) False = Some True"
proof -
  let ?p = "(ex_pcb 1)\<lparr>tlt := (tlt (ex_pcb 1))\<lparr>cur_round := 4\<rparr>\<rparr>"
  have "tlt_ok ?p" using ex_ok [of 1] by (simp add: tlt_ok_def)
  from tlt_is_lost_spec [OF this] show ?thesis
    by (auto simp: ex_queue_def empty_tseg_def intro!: exI [of _ 0])
qed

text \<open>In the first two rounds the bound cur_round - 2 wraps around: every queued block
  counts as lost, including one sent in the current round.\<close>

theorem tlt_is_lost_wraps:
  assumes "tlt_ok pcb" "tlt_blocks pcb \<noteq> 0" "cur_round (tlt pcb) < 2"
    "\<forall>i. ts_round (uimp_queue (tlt pcb) i) \<le> cur_round (tlt pcb)"
  shows "tlt_is_lost pcb False = Some True"
proof -
  let ?q = "uimp_queue (tlt pcb)"
  obtain "is" where R: "qrep ?q (uimp_queue_len (tlt pcb)) is" "length is = tlt_blocks pcb"
    using assms(1) by (rule tlt_okE)
  have l0: "ts_len (?q 0) \<noteq> 0" using R assms(2) by (auto simp: qrep_nonempty)
  have "cur_round (tlt pcb) = 0 \<or> cur_round (tlt pcb) = 1"
    using assms(3) by (auto simp: word_less_nat_alt word_unat_eq_iff)
  moreover have "unat (- 1 :: u32) = 4294967295"
    by (simp add: unsigned_minus_1_eq_mask mask_eq_exp_minus_1)
  ultimately have "ts_round (?q 0) < cur_round (tlt pcb) - 2"
    using assms(4) [rule_format, of 0] by (auto simp: word_less_nat_alt word_le_nat_alt)
  then show ?thesis using l0 by (simp add: tlt_is_lost_def)
qed

theorem tlt_is_lost_wraps_witness: "tlt_is_lost (ex_pcb 1) False = Some True"
  using tlt_is_lost_wraps [of "ex_pcb 1"] ex_ok [of 1]
  by (simp add: ex_queue_def empty_tseg_def)

text \<open>Acknowledged blocks behind offset 2^31 are never removed: after 2 GB of stream the
  serial comparison with the fixed start offset 0 takes them for unsent data,
  and the queue keeps them although the ACK covers them.\<close>

theorem tlt_in_keeps_far_blocks:
  assumes "tlt_ok_far pcb" "has_flag (sg_tcphdr seg) TCP_ACK"
    "\<forall>i. ts_len (uimp_queue (tlt pcb) i) \<noteq> 0 \<longrightarrow>
       unat (ts_seq (uimp_queue (tlt pcb) i)) + unat (ts_len (uimp_queue (tlt pcb) i))
         < seq_off (iss pcb) (th_ackno (sg_tcphdr seg))"
  shows "\<exists>pcb'. tlt_in pcb seg m = Some pcb' \<and> tlt_bytes pcb' = tlt_bytes pcb
    \<and> tlt_blocks pcb' = tlt_blocks pcb"
proof -
  let ?q = "uimp_queue (tlt pcb)" and ?n = "uimp_queue_len (tlt pcb)"
  let ?a = "th_ackno (sg_tcphdr seg) - iss pcb"
  obtain "is" where R: "qrep ?q ?n is"
    and far: "\<And>i. ts_len (?q i) \<noteq> 0 \<Longrightarrow> 2147483648 < unat (ts_seq (?q i))"
    using assms(1) by (auto simp: tlt_ok_far_def)
  have "rm_loop (2 * MAX_UIMP_QUEUE_ELEM) ?q ?n None (Some 0) False 0 ?a 0xFFFFFFFF = Some (?q, ?n)"
    if "ts_len (?q 0) \<noteq> 0"
    by (rule far_loop [of _ _ "is"])
      (use R that far assms(3) qrep_nonempty [OF R] qrep_length [OF R]
        in \<open>auto simp: qrep_unfold MAX_UIMP_QUEUE_ELEM_def seq_off_def\<close>)
  then have "tlt_segment_remove ?q ?n 0 ?a = Some (?q, ?n)"
    by (simp add: tlt_segment_remove_def tlt_segment_remove_round_def)
  then show ?thesis
    using assms(2) by (simp add: tlt_in_def tlt_bytes_def tlt_blocks_def)
qed

theorem tlt_in_keeps_far_blocks_witness:
  "\<exists>pcb'. tlt_in (ex_pcb 0x80000001) (ex_ack 0x80002000) 0 = Some pcb'
     \<and> tlt_bytes pcb' = {0x80000001 ..< 0x80000001 + 1000}"
proof -
  have "tlt_ok_far (ex_pcb 0x80000001)"
    unfolding tlt_ok_far_def using ex_qrep [of "0x80000001"]
    by (intro exI [of _ "[0]"]) (simp add: ex_pcb_def tlt_zero_def ex_queue_def empty_tseg_def)
  moreover have "\<forall>i. ts_len (uimp_queue (tlt (ex_pcb 0x80000001)) i) \<noteq> 0 \<longrightarrow>
      unat (ts_seq (uimp_queue (tlt (ex_pcb 0x80000001)) i)) + unat (ts_len (uimp_queue (tlt (ex_pcb 0x80000001)) i))
        < seq_off (iss (ex_pcb 0x80000001)) (th_ackno (sg_tcphdr (ex_ack 0x80002000)))"
    by (simp add: ex_queue_def empty_tseg_def seq_off_def)
  ultimately show ?thesis
    using tlt_in_keeps_far_blocks [of "ex_pcb 0x80000001" "ex_ack 0x80002000" 0]
    by (fastforce simp: ex_bytes)
qed

text \<open>C35. The queue array overflows: with 256 blocks queued, sending one more unimportant
  segment of new data writes cell 256 of the 256-cell array.\<close>

theorem tlt_out_overflows:
  assumes "tlt_ok pcb" "tlt_blocks pcb = 256" "send_state (tlt pcb) = Idle" "sg_len seg \<noteq> 0"
    "tlt_bytes pcb \<subseteq> {..<seq_off (iss pcb) (sg_seqno seg)}"
    "seq_off (iss pcb) (sg_seqno seg) + unat (sg_len seg) < 2147483648"
  shows "tlt_out pcb seg = None"
proof -
  let ?q = "uimp_queue (tlt pcb)"
  obtain "is" where R: "qrep ?q (uimp_queue_len (tlt pcb)) is"
    "small_blocks ?q" "length is = tlt_blocks pcb" using assms(1) by (rule tlt_okE)
  have ab: "above_all ?q (sg_seqno seg - iss pcb)"
    using assms(5) above_all_cov by (simp add: tlt_bytes_def seq_off_def)
  have nz: "(ucast (sg_len seg) :: u32) \<noteq> 0" using assms(4) by (metis unat_eq_0 unat_ucast16_32)
  have "tlt_segment_add ?q (uimp_queue_len (tlt pcb)) (sg_seqno seg - iss pcb) (ucast (sg_len seg)) r = None" for r
    by (rule add_full [OF R(1) _ R(2) ab]) (use R(3) assms nz in \<open>auto simp: seq_off_def\<close>)
  then show ?thesis using assms(3,4) by (simp add: tlt_out_def tlt_send_payload_def seg_tos_or_def)
qed

theorem tlt_out_overflows_witness:
  "tlt_out (pcb_zero\<lparr>tlt := tlt_zero\<lparr>uimp_queue := ex_full, uimp_queue_len := 256\<rparr>\<rparr>) (ex_data 6000) = None"
proof -
  let ?p = "pcb_zero\<lparr>tlt := tlt_zero\<lparr>uimp_queue := ex_full, uimp_queue_len := 256\<rparr>\<rparr>"
  have i: "iss pcb_zero = 0" by (simp add: pcb_zero_def)
  obtain xs :: "nat list" where "xs = [0..<256]" by blast
  from full_qrep [OF this] have "tlt_ok ?p" unfolding tlt_ok_def
    by (intro exI [of _ xs]) (auto simp: small_blocks_def ex_full_def empty_tseg_def unat_full)
  moreover have "tlt_bytes ?p \<subseteq> {..<6000}"
    by (auto simp: tlt_bytes_def cov_def blk_def ex_full_def empty_tseg_def unat_full split: if_splits)
  ultimately show ?thesis
    using tlt_out_overflows [of ?p "ex_data 6000"] by (simp add: tlt_blocks_def tlt_zero_def i seq_off_def)
qed

end
