(* ===== verification/Tlt_Stream.thy ===== *)
theory Tlt_Stream
  imports Tlt
begin

text \<open>
  The contract between the TLT sender and its queue of unimportant bytes, as a
  locale: appending new data adds exactly its bytes, an acknowledgement
  removes exactly the acknowledged bytes.  The sender's bookkeeping over a
  whole stream is proved once from the contract and then instantiated with
  the array queue of \<^verbatim>\<open>src/src/vma/lwip/tlt.c\<close>.
\<close>

section \<open>A stream of sends and acknowledgements\<close>

datatype stream_op =
    Sent_important u16
  | Sent_unimportant u16 u32
  | Acked u32

text \<open>The operations a queue provides: app a range with its round, purge below an
  offset.  The third component of the state is the offset of the next byte.\<close>

fun stream_run :: "('q \<Rightarrow> u32 \<Rightarrow> u32 \<Rightarrow> u32 \<Rightarrow> 'q option) \<Rightarrow> ('q \<Rightarrow> u32 \<Rightarrow> 'q option)
    \<Rightarrow> 'q \<Rightarrow> u32 \<Rightarrow> stream_op list \<Rightarrow> ('q \<times> u32) option" where
  "stream_run app purge q nxt [] = Some (q, nxt)"
| "stream_run app purge q nxt (Sent_important l # ops) = stream_run app purge q (nxt + ucast l) ops"
| "stream_run app purge q nxt (Sent_unimportant l r # ops) =
     (case app q nxt (ucast l) r of None \<Rightarrow> None
      | Some q' \<Rightarrow> stream_run app purge q' (nxt + ucast l) ops)"
| "stream_run app purge q nxt (Acked a # ops) =
     (case purge q a of None \<Rightarrow> None | Some q' \<Rightarrow> stream_run app purge q' nxt ops)"

text \<open>What the queue should hold: the bytes sent unimportant and not acknowledged.\<close>

fun stream_spec :: "nat set \<Rightarrow> nat \<Rightarrow> stream_op list \<Rightarrow> nat set" where
  "stream_spec B nxt [] = B"
| "stream_spec B nxt (Sent_important l # ops) = stream_spec B (nxt + unat l) ops"
| "stream_spec B nxt (Sent_unimportant l r # ops) =
     stream_spec (B \<union> {nxt..<nxt + unat l}) (nxt + unat l) ops"
| "stream_spec B nxt (Acked a # ops) = stream_spec (B - {..<unat a}) nxt ops"

fun op_len :: "stream_op \<Rightarrow> nat" where
  "op_len (Sent_important l) = unat l"
| "op_len (Sent_unimportant l r) = unat l"
| "op_len (Acked a) = 0"

fun op_ok :: "stream_op \<Rightarrow> bool" where
  "op_ok (Sent_important l) = True"
| "op_ok (Sent_unimportant l r) = (l \<noteq> 0)"
| "op_ok (Acked a) = (unat a < 2147483648)"

fun is_unimportant :: "stream_op \<Rightarrow> bool" where
  "is_unimportant (Sent_unimportant l r) = True"
| "is_unimportant _ = False"

section \<open>The contract\<close>

locale byte_queue =
  fixes ok :: "'q \<Rightarrow> bool"
    and bytes :: "'q \<Rightarrow> nat set"
    and blocks :: "'q \<Rightarrow> nat"
    and cap :: nat
    and app :: "'q \<Rightarrow> u32 \<Rightarrow> u32 \<Rightarrow> u32 \<Rightarrow> 'q option"
    and purge :: "'q \<Rightarrow> u32 \<Rightarrow> 'q option"
  assumes app_law:
    "ok q \<Longrightarrow> blocks q < cap \<Longrightarrow> bytes q \<subseteq> {..<unat s} \<Longrightarrow> 0 < unat s \<Longrightarrow> l \<noteq> 0 \<Longrightarrow>
     unat s + unat l < 2147483648 \<Longrightarrow>
     \<exists>q'. app q s l r = Some q' \<and> ok q' \<and> bytes q' = bytes q \<union> {unat s..<unat s + unat l}
       \<and> blocks q' \<le> blocks q + 1"
  and purge_law:
    "ok q \<Longrightarrow> unat a < 2147483648 \<Longrightarrow>
     \<exists>q'. purge q a = Some q' \<and> ok q' \<and> bytes q' = bytes q - {..<unat a} \<and> blocks q' \<le> blocks q"
begin

lemma tracks:
  assumes "ok q" "bytes q \<subseteq> {..<unat nxt}" "0 < unat nxt" "list_all op_ok ops"
    "unat nxt + sum_list (map op_len ops) < 2147483648"
    "blocks q + occ is_unimportant ops \<le> cap"
  shows "\<exists>q' nxt'. stream_run app purge q nxt ops = Some (q', nxt') \<and> ok q'
    \<and> bytes q' = stream_spec (bytes q) (unat nxt) ops"
  using assms
proof (induction ops arbitrary: q nxt)
  case (Cons op ops)
  have u: "unat (nxt + ucast l) = unat nxt + unat l" if "op_len op = unat l" for l :: u16
    using Cons.prems(5) that unat_plus32 [of nxt "ucast l"] by simp
  show ?case
  proof (cases op)
    case (Sent_important l)
    have "\<exists>q' nxt'. stream_run app purge q (nxt + ucast l) ops = Some (q', nxt') \<and> ok q'
      \<and> bytes q' = stream_spec (bytes q) (unat (nxt + ucast l)) ops"
      by (rule Cons.IH) (use Cons.prems u [of l] Sent_important in auto)
    then show ?thesis using u [of l] Sent_important by simp
  next
    case (Sent_unimportant l r)
    have nz: "(ucast l :: u32) \<noteq> 0"
      using Cons.prems(4) Sent_unimportant unat_ucast16_32 [of l] by (auto simp: unat_eq_0 [symmetric])
    obtain q1 where q1: "app q nxt (ucast l) r = Some q1" "ok q1"
      "bytes q1 = bytes q \<union> {unat nxt..<unat nxt + unat l}" "blocks q1 \<le> blocks q + 1"
      using app_law [OF Cons.prems(1) _ Cons.prems(2,3) nz, of r] Cons.prems(5,6) Sent_unimportant by auto
    have "\<exists>q' nxt'. stream_run app purge q1 (nxt + ucast l) ops = Some (q', nxt') \<and> ok q'
      \<and> bytes q' = stream_spec (bytes q1) (unat (nxt + ucast l)) ops"
      by (rule Cons.IH) (use Cons.prems u [of l] Sent_unimportant q1 in auto)
    then show ?thesis using u [of l] Sent_unimportant q1 by simp
  next
    case (Acked a)
    obtain q1 where q1: "purge q a = Some q1" "ok q1" "bytes q1 = bytes q - {..<unat a}" "blocks q1 \<le> blocks q"
      using purge_law [OF Cons.prems(1), of a] Cons.prems(4) Acked by auto
    have "\<exists>q' nxt'. stream_run app purge q1 nxt ops = Some (q', nxt') \<and> ok q'
      \<and> bytes q' = stream_spec (bytes q1) (unat nxt) ops"
      by (rule Cons.IH) (use Cons.prems Acked q1 in auto)
    then show ?thesis using Acked q1 by simp
  qed
qed simp

end

section \<open>The array queue meets the contract\<close>

definition aq_ok :: "uimpq \<times> u16 \<Rightarrow> bool" where
  "aq_ok s = (\<exists>is. qrep (fst s) (snd s) is \<and> small_blocks (fst s) \<and> pos_blocks (fst s))"

definition aq_append :: "uimpq \<times> u16 \<Rightarrow> u32 \<Rightarrow> u32 \<Rightarrow> u32 \<Rightarrow> (uimpq \<times> u16) option" where
  "aq_append s seq len rnd = tlt_segment_add (fst s) (snd s) seq len rnd"

definition aq_purge :: "uimpq \<times> u16 \<Rightarrow> u32 \<Rightarrow> (uimpq \<times> u16) option" where
  "aq_purge s a = tlt_segment_remove (fst s) (snd s) 0 a"

lemma rm_ok_aq:
  "rm_ok C m r \<Longrightarrow> \<exists>s. r = Some s \<and> aq_ok s \<and> cov (fst s) = C \<and> unat (snd s) \<le> m"
  unfolding rm_ok_def aq_ok_def by (auto simp: qrep_unat)

interpretation aq: byte_queue aq_ok "\<lambda>s. cov (fst s)" "\<lambda>s. unat (snd s)" MAX_UIMP_QUEUE_ELEM
  aq_append aq_purge
proof (standard, goal_cases)
  case (1 q s l r)
  obtain "is" where R: "qrep (fst q) (snd q) is" "small_blocks (fst q)" "pos_blocks (fst q)"
    using 1(1) by (auto simp: aq_ok_def)
  have "rm_ok (cov (fst q) \<union> rng s l) (length is + 1) (tlt_segment_add (fst q) (snd q) s l r)"
    by (rule add_fresh_spec [OF R])
      (use 1 qrep_unat [OF R(1)] above_all_cov in \<open>auto simp: MAX_UIMP_QUEUE_ELEM_def\<close>)
  from rm_ok_aq [OF this] show ?case
    using qrep_unat [OF R(1)] by (auto simp: aq_append_def rng_def)
next
  case (2 q a)
  obtain "is" where R: "qrep (fst q) (snd q) is" "small_blocks (fst q)" "pos_blocks (fst q)"
    using 2(1) by (auto simp: aq_ok_def)
  from rm_ok_aq [OF remove_purge [OF R 2(2)]] show ?case
    using qrep_unat [OF R(1)] by (auto simp: aq_purge_def)
qed

lemma aq_empty: "aq_ok ((\<lambda>_. empty_tseg), 0)" "cov (\<lambda>_. empty_tseg) = {}"
  by (auto simp: aq_ok_def qrep_empty_iff empty_tseg_def small_blocks_def cov_def intro!: exI [of _ "[]"])



end
