(* ===== verification/Dctcp.thy ===== *)
theory Dctcp
  imports Lwip_Pcb
begin

text \<open>
  DCTCP (\<^verbatim>\<open>src/src/vma/lwip/dctcp.c\<close>): echoing congestion marks, estimating the
  marked fraction Alpha (scaled by 65536) and reducing the window.  All
  arithmetic is at the widths of the C code.
\<close>

definition TOS_ECT_1 :: u8 where "TOS_ECT_1 = 1"
definition TOS_ECT_CE :: u8 where "TOS_ECT_CE = 3"
definition DCTCP_SCF :: u32 where "DCTCP_SCF = 65536"
definition DCTCP_SHF :: nat where "DCTCP_SHF = 4"

definition dctcp_init :: "tcp_pcb \<Rightarrow> tcp_pcb" where
  "dctcp_init pcb = pcb\<lparr>dctcp := dctcp_zero\<lparr>dc_enabled := 1, dc_WindowEnd := lastack pcb, dc_Alpha := 1\<rparr>\<rparr>"

definition dctcp_send_empty :: "tcp_pcb \<Rightarrow> tcp_hdr \<Rightarrow> tcp_pcb \<times> tcp_hdr" where
  "dctcp_send_empty pcb h =
     (let h = TCPH_UNSET_FLAG h TCP_ECE;
          h = TCPH_UNSET_FLAG h TCP_CWR;
          d = dctcp pcb
      in if has_flag h TCP_SYN then
           (let h = (if has_flag h TCP_ACK then h else TCPH_SET_FLAG h TCP_CWR)
            in (pcb\<lparr>dctcp := d\<lparr>dc_enabled := 1\<rparr>\<rparr>, TCPH_SET_FLAG h TCP_ECE))
         else
           (let (d, h) = (if dc_pending_cwr d \<noteq> 0
                          then (d\<lparr>dc_pending_cwr := 0\<rparr>, TCPH_SET_FLAG h TCP_CWR) else (d, h));
                (d, h) = (if dc_ce d > 0
                          then (d\<lparr>dc_ce := dc_ce d - 1\<rparr>, TCPH_SET_FLAG h TCP_ECE) else (d, h))
            in (pcb\<lparr>dctcp := d\<rparr>, h)))"

definition dctcp_send :: "tcp_pcb \<Rightarrow> tcp_seg \<Rightarrow> tcp_pcb \<times> tcp_seg" where
  "dctcp_send pcb seg =
     (let (pcb, h) = dctcp_send_empty pcb (sg_tcphdr seg);
          seg = seg\<lparr>sg_tcphdr := h, sg_tos := sg_tos seg AND NOT TOS_ECT_CE\<rparr>
      in if has_flag h TCP_SYN then (pcb, seg)
         else if sg_len seg \<noteq> 0 then (pcb, seg\<lparr>sg_tos := sg_tos seg OR TOS_ECT_1\<rparr>)
         else (pcb, seg))"

text \<open>The end of an observation window (lines 110-124).\<close>

definition dctcp_window_end :: "dctcp_param \<Rightarrow> u32 \<Rightarrow> dctcp_param" where
  "dctcp_window_end d snd_nxt' =
     (let ScaledM = DCTCP_SCF * dc_BytesMarked d;
          ScaledM = ScaledM div dc_BytesAcked d;
          a = (if drop_bit DCTCP_SHF (dc_Alpha d) = 0 then 0 else dc_Alpha d);
          a = a + (drop_bit DCTCP_SHF ScaledM - drop_bit DCTCP_SHF a);
          a = (if a > DCTCP_SCF then DCTCP_SCF else a)
      in d\<lparr>dc_Alpha := a, dc_WindowEnd := snd_nxt', dc_BytesAcked := 0, dc_BytesMarked := 0\<rparr>)"

definition dctcp_ack :: "dctcp_param \<Rightarrow> tcp_hdr \<Rightarrow> u32 \<Rightarrow> u32 \<Rightarrow> dctcp_param" where
  "dctcp_ack d h lastack' snd_nxt' =
     (let b = th_ackno h - lastack';
          d = d\<lparr>dc_BytesAcked := dc_BytesAcked d + b\<rparr>;
          d = (if has_flag h TCP_ECE then d\<lparr>dc_BytesMarked := dc_BytesMarked d + b\<rparr> else d)
      in if TCP_SEQ_LEQ (th_ackno h) (dc_WindowEnd d) then d
         else if dc_BytesAcked d > 0 then dctcp_window_end d snd_nxt'
         else d)"

definition dctcp_recv :: "tcp_pcb \<Rightarrow> u8 \<Rightarrow> tcp_hdr \<Rightarrow> tcp_pcb" where
  "dctcp_recv pcb ecn h =
     (let d = dctcp pcb;
          d = (if ecn AND 3 = TOS_ECT_CE then d\<lparr>dc_ce := dc_ce d + 1\<rparr> else d);
          d = (if has_flag h TCP_ACK \<and> \<not> has_flag h TCP_SYN
               then dctcp_ack d h (lastack pcb) (snd_nxt pcb) else d);
          d = (if has_flag h TCP_ECE \<and> \<not> has_flag h TCP_SYN \<and> dc_next_ece d \<le> snd_nxt pcb
               then d\<lparr>dc_pending_ece := 1, dc_next_ece := snd_nxt pcb + cwnd pcb\<rparr> else d)
      in pcb\<lparr>dctcp := d\<rparr>)"

definition dctcp_reduce_cwnd :: "tcp_pcb \<Rightarrow> tcp_pcb \<times> bool" where
  "dctcp_reduce_cwnd pcb =
     (if dc_pending_ece (dctcp pcb) = 0 then (pcb, False)
      else (let c = (ucast (cwnd pcb) :: u64);
                c = c * ucast (DCTCP_SCF - dc_Alpha (dctcp pcb) div 2);
                c = c div ucast DCTCP_SCF
            in (pcb\<lparr>cwnd := ucast c,
                    dctcp := (dctcp pcb)\<lparr>dc_pending_ece := 0, dc_pending_cwr := 1\<rparr>\<rparr>, True)))"

definition dctcp_reduce_cwnd_rto :: "tcp_pcb \<Rightarrow> tcp_pcb" where
  "dctcp_reduce_cwnd_rto pcb = pcb\<lparr>dctcp := (dctcp pcb)\<lparr>dc_pending_cwr := 1\<rparr>\<rparr>"

section \<open>Alpha\<close>

definition alpha_ok :: "tcp_pcb \<Rightarrow> bool" where
  "alpha_ok pcb = (dc_Alpha (dctcp pcb) \<le> DCTCP_SCF)"

lemma window_end_alpha: "dc_Alpha (dctcp_window_end d s) \<le> DCTCP_SCF"
  by (simp add: dctcp_window_end_def Let_def not_less)

lemma dctcp_ack_alpha: "dc_Alpha d \<le> DCTCP_SCF \<Longrightarrow> dc_Alpha (dctcp_ack d h l s) \<le> DCTCP_SCF"
  using window_end_alpha by (auto simp: dctcp_ack_def Let_def)



lemma unat_drop4: "unat (drop_bit 4 (x :: u32)) = unat x div 16"
  by (simp add: drop_bit_eq_div unat_div_distrib)

lemma unat_div32: "unat (x div (y :: u32)) = unat x div unat y"
  by (rule unat_div_distrib)

lemma unat_scale:
  "unat m < 65536 \<Longrightarrow> unat (DCTCP_SCF * m) = 65536 * unat m"
  by (simp add: DCTCP_SCF_def unat_word_ariths)

lemma ewma_bound:
  fixes A S :: nat
  assumes "A \<le> 65536" "S \<le> 65536"
  shows "A - A div 16 + S div 16 \<le> 65536"
proof -
  have "16 * (A div 16) + A mod 16 = A" "A mod 16 < 16" by simp_all
  moreover have "S div 16 \<le> 4096" using assms(2) by simp
  ultimately show ?thesis using assms(1) by linarith
qed

text \<open>At the end of a window in which fewer than 65536 bytes were marked, the update is
  the exact moving average: Alpha loses a sixteenth of itself and gains a
  sixteenth of the scaled fraction of marked bytes.\<close>

theorem dctcp_window_end_ewma:
  assumes "unat (dc_Alpha d) \<le> 65536" "0 < unat (dc_BytesAcked d)"
    "unat (dc_BytesMarked d) \<le> unat (dc_BytesAcked d)" "unat (dc_BytesMarked d) < 65536"
    "A = (if unat (dc_Alpha d) < 16 then 0 else unat (dc_Alpha d))"
  shows "unat (dc_Alpha (dctcp_window_end d s))
    = A - A div 16 + (65536 * unat (dc_BytesMarked d) div unat (dc_BytesAcked d)) div 16"
proof -
  define S where "S = 65536 * unat (dc_BytesMarked d) div unat (dc_BytesAcked d)"
  define a where "a = (if drop_bit DCTCP_SHF (dc_Alpha d) = 0 then 0 else dc_Alpha d)"
  define M where "M = DCTCP_SCF * dc_BytesMarked d div dc_BytesAcked d"
  have uM: "unat M = S" using assms(4) by (simp add: M_def S_def unat_div32 unat_scale)
  have S: "S \<le> 65536" using assms(2,3) unfolding S_def
    by (metis div_le_mono mult_le_mono2 nonzero_mult_div_cancel_right neq0_conv)
  have ua: "unat a = A"
    using assms(5) by (simp add: a_def DCTCP_SHF_def word_unat_eq_iff unat_drop4 div_eq_0_iff)
  have A: "A \<le> 65536" using assms(1,5) by auto
  have e: "a + (drop_bit 4 M - drop_bit 4 a) = (a - drop_bit 4 a) + drop_bit 4 M" by simp
  have "unat (a - drop_bit 4 a) = A - A div 16"
    using ua by (subst unat_minus32) (simp_all add: unat_drop4)
  then have u: "unat (a + (drop_bit 4 M - drop_bit 4 a)) = A - A div 16 + S div 16"
    using ewma_bound [OF A S] uM unat_plus32 [of "a - drop_bit 4 a" "drop_bit 4 M"]
    unfolding e unat_drop4 by linarith
  then have "\<not> DCTCP_SCF < a + (drop_bit 4 M - drop_bit 4 a)"
    using ewma_bound [OF A S] by (simp add: DCTCP_SCF_def word_less_nat_alt)
  then show ?thesis
    using u unfolding dctcp_window_end_def Let_def a_def [symmetric] M_def [symmetric] S_def [symmetric]
    by (simp add: DCTCP_SHF_def)
qed

theorem dctcp_window_end_ewma_witness:
  "unat (dc_Alpha (dctcp_window_end (dctcp_zero\<lparr>dc_Alpha := 1600, dc_BytesAcked := 2000, dc_BytesMarked := 1000\<rparr>) 7))
   = 1600 - 100 + 2048"
  by (subst dctcp_window_end_ewma [where A = 1600]) simp_all

text \<open>The scaling overflows: when exactly 65536 bytes were acknowledged and all of them
  were marked, the product DCTCP_SCF * BytesMarked is 0 modulo 2^32 and Alpha
  decays as if nothing had been marked.\<close>

theorem dctcp_scale_overflow:
  assumes "dc_BytesMarked d = 65536" "dc_BytesAcked d = 65536" "16 \<le> unat (dc_Alpha d)"
    "unat (dc_Alpha d) \<le> 65536"
  shows "unat (dc_Alpha (dctcp_window_end d s)) = unat (dc_Alpha d) - unat (dc_Alpha d) div 16"
proof -
  have nz: "drop_bit 4 (dc_Alpha d) \<noteq> 0" using assms(3) by (simp add: word_unat_eq_iff unat_drop4 div_eq_0_iff)
  have u: "unat (dc_Alpha d - drop_bit 4 (dc_Alpha d)) = unat (dc_Alpha d) - unat (dc_Alpha d) div 16"
    by (subst unat_minus32) (simp_all add: unat_drop4)
  have "\<not> DCTCP_SCF < dc_Alpha d - drop_bit 4 (dc_Alpha d)"
    using u assms(4) by (simp add: DCTCP_SCF_def word_less_nat_alt)
  then show ?thesis
    using u nz assms(1,2) by (simp add: dctcp_window_end_def DCTCP_SHF_def DCTCP_SCF_def Let_def)
qed

theorem dctcp_scale_overflow_witness:
  "unat (dc_Alpha (dctcp_window_end (dctcp_zero\<lparr>dc_Alpha := 1600, dc_BytesAcked := 65536, dc_BytesMarked := 65536\<rparr>) 7))
   = 1500"
  using dctcp_scale_overflow [of "dctcp_zero\<lparr>dc_Alpha := 1600, dc_BytesAcked := 65536, dc_BytesMarked := 65536\<rparr>" 7]
  by simp

section \<open>Reducing the window\<close>

lemma reduce_cwnd_value:
  assumes "alpha_ok pcb" "dc_pending_ece (dctcp pcb) \<noteq> 0"
  shows "unat (cwnd (fst (dctcp_reduce_cwnd pcb)))
    = unat (cwnd pcb) * (65536 - unat (dc_Alpha (dctcp pcb)) div 2) div 65536"
proof -
  let ?c = "cwnd pcb" and ?A = "dc_Alpha (dctcp pcb)"
  have A: "unat ?A \<le> 65536" using assms(1) by (simp add: alpha_ok_def DCTCP_SCF_def word_le_nat_alt)
  have k: "unat (DCTCP_SCF - ?A div 2) = 65536 - unat ?A div 2"
    using A by (subst unat_minus32) (simp_all add: DCTCP_SCF_def unat_div32)
  have le: "unat ?c * (65536 - unat ?A div 2) \<le> 4294967295 * 65536"
    using unat_lt32 [of ?c] by (intro mult_le_mono) linarith+
  have p: "unat ((ucast ?c :: u64) * ucast (DCTCP_SCF - ?A div 2)) = unat ?c * (65536 - unat ?A div 2)"
    using le k by (simp add: unat_word_ariths)
  have q: "unat (((ucast ?c :: u64) * ucast (DCTCP_SCF - ?A div 2)) div ucast DCTCP_SCF)
      = unat ?c * (65536 - unat ?A div 2) div 65536"
    by (simp only: unat_div_distrib p unat_ucast32_64) (simp add: DCTCP_SCF_def)
  have "unat ?c * (65536 - unat ?A div 2) div 65536 < 4294967296"
    using le by (simp add: div_less_iff_less_mult)
  then show ?thesis
    using assms(2) q by (simp add: dctcp_reduce_cwnd_def Let_def unat_ucast64_32)
qed

text \<open>A pending congestion echo reduces the window by the factor 1 - Alpha/2: the new
  window is between half the old one (rounded down) and the old one, is
  announced with CWR, and the echo is consumed.\<close>

theorem dctcp_reduce_cwnd_bounds:
  assumes "alpha_ok pcb" "dc_pending_ece (dctcp pcb) \<noteq> 0"
  shows "unat (cwnd pcb) div 2 \<le> unat (cwnd (fst (dctcp_reduce_cwnd pcb)))
    \<and> unat (cwnd (fst (dctcp_reduce_cwnd pcb))) \<le> unat (cwnd pcb)
    \<and> snd (dctcp_reduce_cwnd pcb) \<and> dc_pending_ece (dctcp (fst (dctcp_reduce_cwnd pcb))) = 0
    \<and> dc_pending_cwr (dctcp (fst (dctcp_reduce_cwnd pcb))) = 1"
proof -
  let ?A = "unat (dc_Alpha (dctcp pcb))" and ?c = "unat (cwnd pcb)"
  have A: "?A div 2 \<le> 32768" using assms(1) by (simp add: alpha_ok_def DCTCP_SCF_def word_le_nat_alt)
  have "?c * 32768 \<le> ?c * (65536 - ?A div 2)" using A by (intro mult_le_mono2) linarith
  then have lo: "?c div 2 \<le> ?c * (65536 - ?A div 2) div 65536"
    using div_le_mono [of "?c * 32768" _ 65536] by simp
  have "?c * (65536 - ?A div 2) \<le> ?c * 65536" by (intro mult_le_mono2) linarith
  then have hi: "?c * (65536 - ?A div 2) div 65536 \<le> ?c"
    using div_le_mono [of _ "?c * 65536" 65536] by simp
  show ?thesis using lo hi assms(2) reduce_cwnd_value [OF assms]
    by (simp add: dctcp_reduce_cwnd_def Let_def)
qed

theorem dctcp_reduce_cwnd_bounds_witness:
  "unat (cwnd (fst (dctcp_reduce_cwnd (pcb_zero\<lparr>cwnd := 100, dctcp := dctcp_zero\<lparr>dc_pending_ece := 1, dc_Alpha := 65536\<rparr>\<rparr>)))) \<ge> 50"
  using dctcp_reduce_cwnd_bounds [of "pcb_zero\<lparr>cwnd := 100, dctcp := dctcp_zero\<lparr>dc_pending_ece := 1, dc_Alpha := 65536\<rparr>\<rparr>"]
  by (simp add: alpha_ok_def DCTCP_SCF_def)

text \<open>The reduction has no floor: with Alpha at its maximum, every reduction halves the
  window, so 32 marked windows in a row leave a window of 0 bytes.\<close>

theorem dctcp_reduces_to_zero:
  assumes "dc_Alpha (dctcp pcb) = DCTCP_SCF"
  shows "cwnd (((\<lambda>p. fst (dctcp_reduce_cwnd (p\<lparr>dctcp := (dctcp p)\<lparr>dc_pending_ece := 1\<rparr>\<rparr>))) ^^ 32) pcb) = 0"
proof -
  define f where "f = (\<lambda>p. fst (dctcp_reduce_cwnd (p\<lparr>dctcp := (dctcp p)\<lparr>dc_pending_ece := 1\<rparr>\<rparr>)))"
  have step: "dc_Alpha (dctcp (f p)) = DCTCP_SCF \<and> unat (cwnd (f p)) = unat (cwnd p) div 2"
    if "dc_Alpha (dctcp p) = DCTCP_SCF" for p
    using reduce_cwnd_value [of "p\<lparr>dctcp := (dctcp p)\<lparr>dc_pending_ece := 1\<rparr>\<rparr>"] that
    by (simp add: f_def alpha_ok_def dctcp_reduce_cwnd_def Let_def DCTCP_SCF_def)
  have it: "dc_Alpha (dctcp ((f ^^ k) pcb)) = DCTCP_SCF \<and> unat (cwnd ((f ^^ k) pcb)) = unat (cwnd pcb) div 2 ^ k" for k
  proof (induction k)
    case (Suc k)
    have "unat (cwnd pcb) div 2 ^ k div 2 = unat (cwnd pcb) div 2 ^ Suc k"
      by (simp add: div_mult2_eq [symmetric] mult.commute)
    then show ?case using Suc step [of "(f ^^ k) pcb"] by simp
  qed (use assms in simp)
  have "unat (cwnd ((f ^^ 32) pcb)) = 0" using it [of 32] unat_lt32 [of "cwnd pcb"] by (simp add: div_eq_0_iff)
  then show ?thesis unfolding f_def by (simp add: unat_eq_0)
qed

theorem dctcp_reduces_to_zero_witness:
  "cwnd (((\<lambda>p. fst (dctcp_reduce_cwnd (p\<lparr>dctcp := (dctcp p)\<lparr>dc_pending_ece := 1\<rparr>\<rparr>))) ^^ 32)
     (pcb_zero\<lparr>cwnd := 1000000, dctcp := dctcp_zero\<lparr>dc_Alpha := 65536\<rparr>\<rparr>)) = 0"
  by (rule dctcp_reduces_to_zero) (simp add: DCTCP_SCF_def)

section \<open>Echoing marks\<close>

text \<open>A run of DCTCP on a connection: headers received with their ECN field, headers
  sent.  The result lists the headers as they go out.\<close>

datatype dc_ev = Recv u8 tcp_hdr | Send tcp_hdr

fun dc_run :: "tcp_pcb \<Rightarrow> dc_ev list \<Rightarrow> tcp_pcb \<times> tcp_hdr list" where
  "dc_run pcb [] = (pcb, [])"
| "dc_run pcb (Recv ecn h # es) = dc_run (dctcp_recv pcb ecn h) es"
| "dc_run pcb (Send h # es) =
     (case dctcp_send_empty pcb h of (pcb', h') \<Rightarrow>
        (case dc_run pcb' es of (pcb'', hs) \<Rightarrow> (pcb'', h' # hs)))"

fun ce_marked :: "dc_ev \<Rightarrow> bool" where
  "ce_marked (Recv ecn h) = (ecn AND 3 = TOS_ECT_CE)"
| "ce_marked (Send h) = False"

text \<open>Freshly built headers of established traffic: no SYN, no ECE or CWR yet.\<close>

fun fresh_hdr :: "dc_ev \<Rightarrow> bool" where
  "fresh_hdr (Recv ecn h) = True"
| "fresh_hdr (Send h) = (\<not> has_flag h TCP_SYN \<and> \<not> has_flag h TCP_ECE \<and> \<not> has_flag h TCP_CWR)"

lemma dctcp_ack_ce [simp]: "dc_ce (dctcp_ack d h l s) = dc_ce d"
  by (simp add: dctcp_ack_def dctcp_window_end_def Let_def)

lemma recv_ce: "dc_ce (dctcp (dctcp_recv pcb ecn h)) =
   dc_ce (dctcp pcb) + (if ecn AND 3 = TOS_ECT_CE then 1 else 0)"
  by (simp add: dctcp_recv_def Let_def)

lemma send_ce:
  assumes "dctcp_send_empty pcb h = (pcb', h')" "fresh_hdr (Send h)" "0 \<le> dc_ce (dctcp pcb)"
  shows "dc_ce (dctcp pcb') = dc_ce (dctcp pcb) - (if has_flag h' TCP_ECE then 1 else 0)
    \<and> 0 \<le> dc_ce (dctcp pcb')"
  using assms
  by (auto simp: dctcp_send_empty_def TCPH_UNSET_FLAG_id Let_def has_flag_SET_FLAG tcp_flag_defs
      split: if_splits)



text \<open>C36. Clearing flags does nothing: TCPH_UNSET_FLAG leaves every header as it is, so a
  retransmitted header that carries ECE goes out with ECE again although no
  echo is owed.\<close>

theorem dctcp_stale_ece:
  assumes "has_flag h TCP_ECE" "\<not> has_flag h TCP_SYN" "dc_ce (dctcp pcb) = 0"
  shows "TCPH_UNSET_FLAG h TCP_ECE = h \<and> has_flag (snd (dctcp_send_empty pcb h)) TCP_ECE"
  using assms by (simp add: TCPH_UNSET_FLAG_id dctcp_send_empty_def Let_def has_flag_SET_FLAG)

theorem dctcp_stale_ece_witness:
  "has_flag (snd (dctcp_send_empty pcb_zero (TCPH_SET_FLAG hdr_zero TCP_ECE))) TCP_ECE"
proof -
  have z: "\<not> has_flag hdr_zero f" for f
    by (simp add: has_flag_def TCPH_FLAGS_def hdr_zero_def ntohs_def htons_def)
  show ?thesis
    using dctcp_stale_ece [of "TCPH_SET_FLAG hdr_zero TCP_ECE" pcb_zero]
    by (simp add: has_flag_SET_FLAG z tcp_flag_defs pcb_zero_def dctcp_zero_def)
qed

text \<open>The once-per-window test is not safe against wrap-around: when snd_nxt has just
  passed 0 and next_ece lies just before it, the window has been passed in
  sequence order, yet the echo is ignored and no reduction is scheduled.\<close>

theorem dctcp_ece_ignored_after_wrap:
  assumes "has_flag h TCP_ECE" "\<not> has_flag h TCP_SYN" "dc_pending_ece (dctcp pcb) = 0"
    "3221225472 \<le> unat (dc_next_ece (dctcp pcb))"
    "unat (snd_nxt pcb) < 1073741824"
  shows "TCP_SEQ_GEQ (snd_nxt pcb) (dc_next_ece (dctcp pcb))
    \<and> dc_pending_ece (dctcp (dctcp_recv pcb ecn h)) = 0"
proof -
  have "TCP_SEQ_GEQ (snd_nxt pcb) (dc_next_ece (dctcp pcb))"
    using assms(4,5) by (simp add: seq_geq_iff seq_lt_unat unat_diff_cases)
  moreover have "\<not> dc_next_ece (dctcp pcb) \<le> snd_nxt pcb"
    using assms(4,5) by (simp add: word_le_nat_alt)
  moreover have "dc_next_ece (dctcp_ack d h l s) = dc_next_ece d"
    "dc_pending_ece (dctcp_ack d h l s) = dc_pending_ece d" for d l s
    by (simp_all add: dctcp_ack_def dctcp_window_end_def Let_def)
  ultimately show ?thesis using assms(3) by (simp add: dctcp_recv_def Let_def)
qed

theorem dctcp_ece_ignored_after_wrap_witness:
  "dc_pending_ece (dctcp (dctcp_recv (pcb_zero\<lparr>snd_nxt := 5, dctcp := dctcp_zero\<lparr>dc_next_ece := 0xFFFFFFF0\<rparr>\<rparr>) 0
     (TCPH_SET_FLAG hdr_zero TCP_ECE))) = 0"
proof -
  have z: "\<not> has_flag hdr_zero f" for f
    by (simp add: has_flag_def TCPH_FLAGS_def hdr_zero_def ntohs_def htons_def)
  show ?thesis
    using dctcp_ece_ignored_after_wrap [of "TCPH_SET_FLAG hdr_zero TCP_ECE"
        "pcb_zero\<lparr>snd_nxt := 5, dctcp := dctcp_zero\<lparr>dc_next_ece := 0xFFFFFFF0\<rparr>\<rparr>" 0]
    by (simp add: has_flag_SET_FLAG z tcp_flag_defs dctcp_zero_def)
qed

end
