(* ===== verification/Lwip_Cc.thy ===== *)
theory Lwip_Cc
  imports Lwip_Pcb
begin

text \<open>
  Congestion control modules: the dispatch of \<^verbatim>\<open>src/src/vma/lwip/cc.c\<close> and the three
  algorithms \<^verbatim>\<open>cc_lwip.c\<close>, \<^verbatim>\<open>cc_cubic.c\<close> (with the fixed-point arithmetic of
  \<^verbatim>\<open>cc_cubic.h\<close>) and \<^verbatim>\<open>cc_none.c\<close>.  None stands for undefined behaviour: a
  division by zero, a null or dangling pointer.  The contract every module
  keeps (a locale) is that it writes nothing but cwnd, ssthresh and its
  private data.
\<close>

datatype cc_ack = CC_ACK | CC_DUPACK
datatype cc_signal = CC_RTO | CC_NDUPACK

section \<open>cc_lwip.c\<close>

definition lwip_ack_received :: "tcp_pcb \<Rightarrow> cc_ack \<Rightarrow> tcp_pcb option" where
  "lwip_ack_received pcb type =
     (case type of
        CC_DUPACK \<Rightarrow>
          Some (if cwnd pcb + ucast (mss pcb) > cwnd pcb
                then pcb\<lparr>cwnd := cwnd pcb + ucast (mss pcb)\<rparr> else pcb)
      | CC_ACK \<Rightarrow>
          if cwnd pcb < ssthresh pcb then
            Some (if cwnd pcb + ucast (mss pcb) > cwnd pcb
                  then pcb\<lparr>cwnd := cwnd pcb + ucast (mss pcb)\<rparr> else pcb)
          else if cwnd pcb = 0 then None
          else (let new_cwnd = cwnd pcb + (ucast (mss pcb) * ucast (mss pcb)) div cwnd pcb
                in Some (if new_cwnd > cwnd pcb then pcb\<lparr>cwnd := new_cwnd\<rparr> else pcb)))"

text \<open>Half of the smaller of the two windows, but at least two segments (also used by
  CUBIC on a timeout).\<close>

definition half_window :: "tcp_pcb \<Rightarrow> u32" where
  "half_window pcb =
     (let s = (if cwnd pcb > snd_wnd pcb then snd_wnd pcb div 2 else cwnd pcb div 2)
      in if s < 2 * ucast (mss pcb) then 2 * ucast (mss pcb) else s)"

definition lwip_cong_signal :: "tcp_pcb \<Rightarrow> cc_signal \<Rightarrow> tcp_pcb" where
  "lwip_cong_signal pcb type =
     (let pcb = pcb\<lparr>ssthresh := half_window pcb\<rparr>
      in case type of
           CC_NDUPACK \<Rightarrow> pcb\<lparr>cwnd := ssthresh pcb + 3 * ucast (mss pcb)\<rparr>
         | CC_RTO \<Rightarrow> pcb\<lparr>cwnd := ucast (mss pcb)\<rparr>)"

definition lwip_post_recovery :: "tcp_pcb \<Rightarrow> tcp_pcb" where
  "lwip_post_recovery pcb = pcb\<lparr>cwnd := ssthresh pcb\<rparr>"

definition initial_cwnd :: "tcp_pcb \<Rightarrow> u32" where
  "initial_cwnd pcb = (if cwnd pcb = 1 then ucast (mss pcb) * 10 else ucast (mss pcb))"

definition lwip_conn_init :: "tcp_pcb \<Rightarrow> tcp_pcb" where
  "lwip_conn_init pcb = pcb\<lparr>cwnd := initial_cwnd pcb\<rparr>"

section \<open>cc_none.c\<close>

definition none_cc_conn_init :: "tcp_pcb \<Rightarrow> tcp_pcb" where
  "none_cc_conn_init pcb = pcb\<lparr>cwnd := 0xFFFFFFFF\<rparr>"

section \<open>cc_cubic.h\<close>

definition hz :: int where "hz = 100"

definition s64 :: "int \<Rightarrow> int" where
  "s64 x = signed_take_bit 63 x"

function cubic_rebase :: "int \<Rightarrow> nat \<Rightarrow> int \<times> nat" where
  "cubic_rebase s p = (if s \<ge> 256 then cubic_rebase (s div 8) (p + 1) else (s, p))"
  by auto

termination by (relation "measure (\<lambda>(s, p). nat s)") auto

declare cubic_rebase.simps [simp del]

definition cubic_k :: "u64 \<Rightarrow> int" where
  "cubic_k wmax_pkts =
     (let s0 = sint (push_bit 8 (wmax_pkts * 51) div 102);
          (s, p) = cubic_rebase s0 0;
          K = (((s * 275) div 2 ^ 8) + 98) - (((s * s * 120) div 2 ^ 8) div 2 ^ 8)
      in K * 2 ^ p)"

text \<open>C division truncates towards zero.\<close>

definition tdiv :: "int \<Rightarrow> int \<Rightarrow> int" where
  "tdiv a b = sgn a * sgn b * (\<bar>a\<bar> div \<bar>b\<bar>)"

definition cubic_cwnd :: "u64 \<Rightarrow> u64 \<Rightarrow> u32 \<Rightarrow> int \<Rightarrow> u64" where
  "cubic_cwnd ticks_since_cong wmax smss K =
     (let t = s64 (tdiv (s64 (sint (push_bit 8 ticks_since_cong) - s64 (K * hz))) hz);
          c = s64 (t * s64 (t * t));
          c = s64 (s64 (c * 102) * int (unat smss)) div 2 ^ 32
      in word_of_int c + wmax)"

definition tf_cwnd :: "u64 \<Rightarrow> u64 \<Rightarrow> u64 \<Rightarrow> u32 \<Rightarrow> u64" where
  "tf_cwnd ticks_since_cong rtt_ticks wmax smss =
     drop_bit 8 (wmax * 204 + (push_bit 8 (153 * ticks_since_cong * ucast smss) div 461) div rtt_ticks)"

section \<open>cc_cubic.c\<close>

definition cubic_zero :: cubic where
  "cubic_zero = \<lparr>cu_K = 0, cu_sum_rtt_ticks = 0, cu_max_cwnd = 0, cu_prev_max_cwnd = 0,
     cu_num_cong_events = 0, cu_min_rtt_ticks = 0, cu_mean_rtt_ticks = 0, cu_epoch_ack_count = 0,
     cu_t_last_cong = 0\<rparr>"

text \<open>The memory is cleared before the null check, so a failed allocation is already
  undefined behaviour.\<close>

definition cubic_cb_init :: "tcp_pcb \<Rightarrow> u64 \<Rightarrow> bool \<Rightarrow> tcp_pcb option" where
  "cubic_cb_init pcb ticks malloc_ok =
     (if malloc_ok
      then Some (pcb\<lparr>cc_data := Some (cubic_zero\<lparr>cu_t_last_cong := ticks, cu_min_rtt_ticks := 0,
                                   cu_mean_rtt_ticks := 1\<rparr>)\<rparr>)
      else None)"

definition cubic_cb_destroy :: "tcp_pcb \<Rightarrow> tcp_pcb" where
  "cubic_cb_destroy pcb = pcb\<lparr>cc_data := None\<rparr>"

definition cubic_record_rtt :: "tcp_pcb \<Rightarrow> cubic \<Rightarrow> cubic" where
  "cubic_record_rtt pcb c =
     (if t_rttupdated pcb \<ge> 8 then
        (let t = (word_of_int (sa pcb div 8) :: u64);
             c = (if t < cu_min_rtt_ticks c \<or> cu_min_rtt_ticks c = 0 then
                    (let c = c\<lparr>cu_min_rtt_ticks := (if t > 1 then t else 1)\<rparr>
                     in if cu_min_rtt_ticks c > cu_mean_rtt_ticks c
                        then c\<lparr>cu_mean_rtt_ticks := cu_min_rtt_ticks c\<rparr> else c)
                  else c)
         in c\<lparr>cu_sum_rtt_ticks := cu_sum_rtt_ticks c + t, cu_epoch_ack_count := cu_epoch_ack_count c + 1\<rparr>)
      else c)"

definition cubic_grow :: "tcp_pcb \<Rightarrow> cubic \<Rightarrow> u64 \<Rightarrow> (tcp_pcb \<times> cubic) option" where
  "cubic_grow pcb c ticks =
     (if cu_mean_rtt_ticks c = 0 then None
      else (let since = ticks - cu_t_last_cong c;
                w_tf = tf_cwnd since (cu_mean_rtt_ticks c) (cu_max_cwnd c) (ucast (mss pcb));
                w_next = cubic_cwnd (since + cu_mean_rtt_ticks c) (cu_max_cwnd c) (ucast (mss pcb)) (cu_K c)
            in do {
              pcb \<leftarrow> (if w_next < w_tf then Some (pcb\<lparr>cwnd := ucast w_tf\<rparr>)
                      else if ucast (cwnd pcb) < w_next then
                        (if cwnd pcb = 0 then None
                         else Some (pcb\<lparr>cwnd := cwnd pcb +
                                ucast (((w_next - ucast (cwnd pcb)) * ucast (mss pcb)) div ucast (cwnd pcb))\<rparr>))
                      else Some pcb);
              Some (pcb, if cu_num_cong_events c = 0 \<and> cu_max_cwnd c < ucast (cwnd pcb)
                         then c\<lparr>cu_max_cwnd := ucast (cwnd pcb)\<rparr> else c)
            }))"

definition cubic_ack_received :: "tcp_pcb \<Rightarrow> cc_ack \<Rightarrow> u64 \<Rightarrow> tcp_pcb option" where
  "cubic_ack_received pcb type ticks = do {
     c \<leftarrow> cc_data pcb;
     let c = cubic_record_rtt pcb c;
     if type = CC_ACK \<and> \<not> pcb_has pcb TF_INFR \<and> cwnd pcb < snd_wnd pcb then
       (if cwnd pcb \<le> ssthresh pcb
        then Some (pcb\<lparr>cwnd := cwnd pcb + ucast (mss pcb), cc_data := Some c\<rparr>)
        else if cu_min_rtt_ticks c > 0 then do {
          (pcb, c) \<leftarrow> cubic_grow pcb c ticks;
          Some (pcb\<lparr>cc_data := Some c\<rparr>)
        }
        else Some (pcb\<lparr>cc_data := Some c\<rparr>))
     else Some (pcb\<lparr>cc_data := Some c\<rparr>)
   }"

definition cubic_ssthresh_update :: "tcp_pcb \<Rightarrow> cubic \<Rightarrow> tcp_pcb" where
  "cubic_ssthresh_update pcb c =
     pcb\<lparr>ssthresh := (if cu_num_cong_events c = 0 then drop_bit 1 (cwnd pcb)
                     else drop_bit 8 (cwnd pcb * 204))\<rparr>"

definition cubic_cong_signal :: "tcp_pcb \<Rightarrow> cc_signal \<Rightarrow> u64 \<Rightarrow> tcp_pcb option" where
  "cubic_cong_signal pcb type ticks = do {
     c \<leftarrow> cc_data pcb;
     case type of
       CC_NDUPACK \<Rightarrow>
         Some (if pcb_has pcb TF_INFR then pcb
               else (cubic_ssthresh_update pcb c)\<lparr>cc_data :=
                      Some (c\<lparr>cu_num_cong_events := cu_num_cong_events c + 1,
                             cu_prev_max_cwnd := cu_max_cwnd c, cu_max_cwnd := ucast (cwnd pcb)\<rparr>)\<rparr>)
     | CC_RTO \<Rightarrow>
         Some (pcb\<lparr>ssthresh := half_window pcb, cwnd := ucast (mss pcb),
                   cc_data := Some (c\<lparr>cu_num_cong_events :=
                       (if nrtx pcb \<ge> 1 then cu_num_cong_events c + 1 else cu_num_cong_events c),
                     cu_t_last_cong := ticks\<rparr>)\<rparr>)
   }"

definition cubic_conn_init :: "tcp_pcb \<Rightarrow> tcp_pcb option" where
  "cubic_conn_init pcb = do {
     c \<leftarrow> cc_data pcb;
     Some (pcb\<lparr>cwnd := initial_cwnd pcb, ssthresh := ucast (mss pcb) * 3,
               cc_data := Some (c\<lparr>cu_max_cwnd := ucast (initial_cwnd pcb)\<rparr>)\<rparr>)
   }"

text \<open>Reading \<open>pcb->last_unacked->seqno\<close>: None when the pointer dangles.\<close>

definition last_unacked_seqno :: "tcp_pcb \<Rightarrow> nat \<Rightarrow> u32 option" where
  "last_unacked_seqno pcb a = map_option sg_seqno (find (\<lambda>s. sg_addr s = a) (unacked pcb))"

definition cubic_recovery_cwnd :: "tcp_pcb \<Rightarrow> cubic \<Rightarrow> u32 option" where
  "cubic_recovery_cwnd pcb c =
     (let by_beta = drop_bit 8 (204 * cu_max_cwnd c);
          cubic_w = (if by_beta > 1 then ucast by_beta else ucast (mss pcb))
      in case last_unacked pcb of
           None \<Rightarrow> Some cubic_w
         | Some a \<Rightarrow> do {
             s \<leftarrow> last_unacked_seqno pcb a;
             Some (if TCP_SEQ_GT (lastack pcb + ssthresh pcb) s
                   then s - lastack pcb + ucast (mss pcb) else cubic_w)
           })"

text \<open>The part of cubic_post_recovery that decays max_cwnd and the part
  after the window: the mean round trip time of the epoch
  and the next K.\<close>

definition cubic_fast_convergence :: "cubic \<Rightarrow> cubic" where
  "cubic_fast_convergence c =
     (if cu_max_cwnd c < cu_prev_max_cwnd c
      then c\<lparr>cu_max_cwnd := drop_bit 8 (cu_max_cwnd c * 230)\<rparr> else c)"

definition cubic_next_epoch :: "cubic \<Rightarrow> u16 \<Rightarrow> u64 \<Rightarrow> cubic" where
  "cubic_next_epoch c m ticks =
     (let c = c\<lparr>cu_t_last_cong := ticks\<rparr>;
          c = (if cu_epoch_ack_count c > 0 \<and> cu_sum_rtt_ticks c \<ge> ucast (cu_epoch_ack_count c)
               then c\<lparr>cu_mean_rtt_ticks := cu_sum_rtt_ticks c div ucast (cu_epoch_ack_count c)\<rparr> else c)
      in c\<lparr>cu_epoch_ack_count := 0, cu_sum_rtt_ticks := 0,
           cu_K := cubic_k (cu_max_cwnd c div ucast m)\<rparr>)"

definition cubic_post_recovery :: "tcp_pcb \<Rightarrow> u64 \<Rightarrow> tcp_pcb option" where
  "cubic_post_recovery pcb ticks = do {
     c \<leftarrow> cc_data pcb;
     let c = cubic_fast_convergence c;
     w \<leftarrow> (if pcb_has pcb TF_INFR then cubic_recovery_cwnd pcb c else Some (cwnd pcb));
     if mss pcb = 0 then None
     else Some (pcb\<lparr>cwnd := w, cc_data := Some (cubic_next_epoch c (mss pcb) ticks)\<rparr>)
   }"

section \<open>cc.c\<close>

definition cc_init :: "tcp_pcb \<Rightarrow> u64 \<Rightarrow> bool \<Rightarrow> tcp_pcb option" where
  "cc_init pcb ticks malloc_ok =
     (case cc_algo_of pcb of CC_MOD_CUBIC \<Rightarrow> cubic_cb_init pcb ticks malloc_ok | _ \<Rightarrow> Some pcb)"

definition cc_destroy :: "tcp_pcb \<Rightarrow> tcp_pcb" where
  "cc_destroy pcb = (case cc_algo_of pcb of CC_MOD_CUBIC \<Rightarrow> cubic_cb_destroy pcb | _ \<Rightarrow> pcb)"

definition cc_ack_received :: "tcp_pcb \<Rightarrow> cc_ack \<Rightarrow> u64 \<Rightarrow> tcp_pcb option" where
  "cc_ack_received pcb type ticks =
     (case cc_algo_of pcb of
        CC_MOD_LWIP \<Rightarrow> lwip_ack_received pcb type
      | CC_MOD_CUBIC \<Rightarrow> cubic_ack_received pcb type ticks
      | CC_MOD_NONE \<Rightarrow> Some pcb)"

definition cc_conn_init :: "tcp_pcb \<Rightarrow> tcp_pcb option" where
  "cc_conn_init pcb =
     (case cc_algo_of pcb of
        CC_MOD_LWIP \<Rightarrow> Some (lwip_conn_init pcb)
      | CC_MOD_CUBIC \<Rightarrow> cubic_conn_init pcb
      | CC_MOD_NONE \<Rightarrow> Some (none_cc_conn_init pcb))"

definition cc_cong_signal :: "tcp_pcb \<Rightarrow> cc_signal \<Rightarrow> u64 \<Rightarrow> tcp_pcb option" where
  "cc_cong_signal pcb type ticks =
     (case cc_algo_of pcb of
        CC_MOD_LWIP \<Rightarrow> Some (lwip_cong_signal pcb type)
      | CC_MOD_CUBIC \<Rightarrow> cubic_cong_signal pcb type ticks
      | CC_MOD_NONE \<Rightarrow> Some pcb)"

definition cc_post_recovery :: "tcp_pcb \<Rightarrow> u64 \<Rightarrow> tcp_pcb option" where
  "cc_post_recovery pcb ticks =
     (case cc_algo_of pcb of
        CC_MOD_LWIP \<Rightarrow> Some (lwip_post_recovery pcb)
      | CC_MOD_CUBIC \<Rightarrow> cubic_post_recovery pcb ticks
      | CC_MOD_NONE \<Rightarrow> Some pcb)"

section \<open>The contract of a module\<close>

text \<open>Equal up to the fields a congestion control module owns.\<close>

definition same_but_cc :: "tcp_pcb \<Rightarrow> tcp_pcb \<Rightarrow> bool" where
  "same_but_cc p p' = (p'\<lparr>cwnd := cwnd p, ssthresh := ssthresh p, cc_data := cc_data p\<rparr> = p)"

lemma same_but_cc_refl [simp]: "same_but_cc p p"
  by (simp add: same_but_cc_def)

lemma same_but_cc_upd [simp]:
  "same_but_cc p (p\<lparr>cwnd := c\<rparr>)" "same_but_cc p (p\<lparr>ssthresh := s\<rparr>)"
  "same_but_cc p (p\<lparr>cc_data := d\<rparr>)" "same_but_cc p (p\<lparr>cwnd := c, ssthresh := s\<rparr>)"
  "same_but_cc p (p\<lparr>cwnd := c, cc_data := d\<rparr>)" "same_but_cc p (p\<lparr>ssthresh := s, cc_data := d\<rparr>)"
  "same_but_cc p (p\<lparr>ssthresh := s, cwnd := c\<rparr>)"
  "same_but_cc p (p\<lparr>ssthresh := s, cwnd := c, cc_data := d\<rparr>)"
  "same_but_cc p (p\<lparr>cwnd := c, ssthresh := s, cc_data := d\<rparr>)"
  by (simp_all add: same_but_cc_def)

lemma same_but_cc_trans:
  assumes "same_but_cc p p'" "same_but_cc p' p''"
  shows "same_but_cc p p''"
proof -
  have "p''\<lparr>cwnd := cwnd p, ssthresh := ssthresh p, cc_data := cc_data p\<rparr>
    = (p''\<lparr>cwnd := cwnd p', ssthresh := ssthresh p', cc_data := cc_data p'\<rparr>)
        \<lparr>cwnd := cwnd p, ssthresh := ssthresh p, cc_data := cc_data p\<rparr>" by simp
  also have "\<dots> = p'\<lparr>cwnd := cwnd p, ssthresh := ssthresh p, cc_data := cc_data p\<rparr>"
    using assms(2) by (simp only: same_but_cc_def)
  also have "\<dots> = p" using assms(1) by (simp only: same_but_cc_def)
  finally show ?thesis by (simp only: same_but_cc_def)
qed

text \<open>The calls the TCP code makes, and a sequence of them.\<close>

datatype cc_call = Ack cc_ack u64 | Signal cc_signal u64 | Recovered u64 | Conn_init

fun cc_calls :: "(tcp_pcb \<Rightarrow> cc_ack \<Rightarrow> u64 \<Rightarrow> tcp_pcb option) \<Rightarrow> (tcp_pcb \<Rightarrow> cc_signal \<Rightarrow> u64 \<Rightarrow> tcp_pcb option)
    \<Rightarrow> (tcp_pcb \<Rightarrow> u64 \<Rightarrow> tcp_pcb option) \<Rightarrow> (tcp_pcb \<Rightarrow> tcp_pcb option)
    \<Rightarrow> tcp_pcb \<Rightarrow> cc_call list \<Rightarrow> tcp_pcb option" where
  "cc_calls ack sig post conn p [] = Some p"
| "cc_calls ack sig post conn p (c # cs) =
     (case (case c of Ack t k \<Rightarrow> ack p t k | Signal t k \<Rightarrow> sig p t k | Recovered k \<Rightarrow> post p k
                    | Conn_init \<Rightarrow> conn p) of
        None \<Rightarrow> None | Some p' \<Rightarrow> cc_calls ack sig post conn p' cs)"

locale cc_module =
  fixes ack :: "tcp_pcb \<Rightarrow> cc_ack \<Rightarrow> u64 \<Rightarrow> tcp_pcb option"
    and sig :: "tcp_pcb \<Rightarrow> cc_signal \<Rightarrow> u64 \<Rightarrow> tcp_pcb option"
    and post :: "tcp_pcb \<Rightarrow> u64 \<Rightarrow> tcp_pcb option"
    and conn :: "tcp_pcb \<Rightarrow> tcp_pcb option"
  assumes ack_frame: "ack p t k = Some p' \<Longrightarrow> same_but_cc p p'"
    and sig_frame: "sig p g k = Some p' \<Longrightarrow> same_but_cc p p'"
    and post_frame: "post p k = Some p' \<Longrightarrow> same_but_cc p p'"
    and conn_frame: "conn p = Some p' \<Longrightarrow> same_but_cc p p'"
begin

lemma calls_frame: "cc_calls ack sig post conn p cs = Some p' \<Longrightarrow> same_but_cc p p'"
proof (induction cs arbitrary: p)
  case (Cons c cs)
  then obtain p1 where "(case c of Ack t k \<Rightarrow> ack p t k | Signal t k \<Rightarrow> sig p t k | Recovered k \<Rightarrow> post p k
      | Conn_init \<Rightarrow> conn p) = Some p1" "cc_calls ack sig post conn p1 cs = Some p'"
    by (auto split: option.splits)
  moreover from this have "same_but_cc p p1"
    using ack_frame sig_frame post_frame conn_frame by (cases c) auto
  ultimately show ?case using Cons.IH same_but_cc_trans by blast
qed simp

end

lemma lwip_frames:
  "lwip_ack_received p t = Some p' \<Longrightarrow> same_but_cc p p'"
  "same_but_cc p (lwip_cong_signal p g)" "same_but_cc p (lwip_post_recovery p)"
  "same_but_cc p (lwip_conn_init p)" "same_but_cc p (none_cc_conn_init p)"
  by (auto simp: lwip_ack_received_def lwip_cong_signal_def lwip_post_recovery_def lwip_conn_init_def
      none_cc_conn_init_def Let_def split: cc_ack.splits cc_signal.splits if_splits)

lemma cubic_grow_frame: "cubic_grow p c k = Some (p', c') \<Longrightarrow> same_but_cc p p'"
  by (auto simp: cubic_grow_def Let_def bind_eq_Some_conv split: if_splits)

lemma cubic_ack_frame:
  assumes "cubic_ack_received p t k = Some p'"
  shows "same_but_cc p p'"
proof -
  obtain c where "cc_data p = Some c" using assms by (auto simp: cubic_ack_received_def bind_eq_Some_conv)
  then show ?thesis
    using assms unfolding cubic_ack_received_def Let_def
    by (auto simp: bind_eq_Some_conv split: if_splits
        intro: same_but_cc_trans [OF cubic_grow_frame])
qed

lemma cubic_signal_frame:
  assumes "cubic_cong_signal p g k = Some p'"
  shows "same_but_cc p p'"
proof -
  obtain c where c: "cc_data p = Some c" using assms by (cases "cc_data p") (simp_all add: cubic_cong_signal_def)
  show ?thesis
    using assms by (cases g) (simp_all add: c cubic_cong_signal_def cubic_ssthresh_update_def, (erule subst, simp add: cubic_ssthresh_update_def)+)
qed

lemma cubic_conn_frame:
  assumes "cubic_conn_init p = Some p'"
  shows "same_but_cc p p'"
proof -
  obtain c where c: "cc_data p = Some c" using assms by (cases "cc_data p") (simp_all add: cubic_conn_init_def)
  show ?thesis using assms by (simp add: c cubic_conn_init_def) (erule subst, simp)
qed

lemma cubic_post_frame:
  assumes "cubic_post_recovery p k = Some p'"
  shows "same_but_cc p p'"
proof -
  obtain c where c: "cc_data p = Some c" using assms by (cases "cc_data p") (simp_all add: cubic_post_recovery_def)
  define x where "x = (if pcb_has p TF_INFR then cubic_recovery_cwnd p (cubic_fast_convergence c) else Some (cwnd p))"
  have r: "Option.bind x (\<lambda>w. if mss p = 0 then None
      else Some (p\<lparr>cwnd := w, cc_data := Some (cubic_next_epoch (cubic_fast_convergence c) (mss p) k)\<rparr>)) = Some p'"
    using assms unfolding cubic_post_recovery_def c x_def Let_def Option.bind.simps(2) .
  then obtain w where "x = Some w" "mss p \<noteq> 0" by (cases x; cases "mss p = 0") simp_all
  with r show ?thesis by simp (erule subst, simp)
qed

lemmas cubic_frames = cubic_signal_frame cubic_conn_frame cubic_post_frame

interpretation cc: cc_module cc_ack_received cc_cong_signal cc_post_recovery cc_conn_init
proof (standard, goal_cases)
  case (1 p t k p')
  then show ?case using lwip_frames(1) cubic_ack_frame
    by (auto simp: cc_ack_received_def split: cc_algo.splits)
next
  case (2 p g k p')
  then show ?case using lwip_frames(2) [of p g] cubic_frames(1)
    by (auto simp: cc_cong_signal_def split: cc_algo.splits)
next
  case (3 p k p')
  then show ?case using lwip_frames(3) [of p] cubic_frames(3)
    by (auto simp: cc_post_recovery_def split: cc_algo.splits)
next
  case (4 p p')
  then show ?case using lwip_frames(4,5) [of p] cubic_frames(2)
    by (auto simp: cc_conn_init_def split: cc_algo.splits)
qed

section \<open>CUBIC is free of undefined behaviour\<close>

text \<open>What a CUBIC connection needs: its private data allocated, a positive mean round
  trip time (the divisor of \<^verbatim>\<open>tf_cwnd\<close>), a positive segment size (the divisor in
  post_recovery) and a last_unacked that points at a segment of the queue.\<close>

definition cubic_ok :: "tcp_pcb \<Rightarrow> bool" where
  "cubic_ok p = (cc_algo_of p = CC_MOD_CUBIC \<and> mss p \<noteq> 0
     \<and> (case cc_data p of None \<Rightarrow> False | Some c \<Rightarrow> cu_mean_rtt_ticks c \<noteq> 0)
     \<and> (case last_unacked p of None \<Rightarrow> True | Some a \<Rightarrow> list_ex (\<lambda>s. sg_addr s = a) (unacked p)))"

lemma same_but_cc_sel:
  assumes "same_but_cc p p'"
  shows "cc_algo_of p' = cc_algo_of p" "mss p' = mss p" "last_unacked p' = last_unacked p"
    "unacked p' = unacked p" "snd_wnd p' = snd_wnd p" "snd_nxt p' = snd_nxt p" "rcv_nxt p' = rcv_nxt p"
proof -
  define q where "q = p'\<lparr>cwnd := cwnd p, ssthresh := ssthresh p, cc_data := cc_data p\<rparr>"
  have q: "q = p" using assms by (simp only: same_but_cc_def q_def)
  have "cc_algo_of p' = cc_algo_of q" "mss p' = mss q" "last_unacked p' = last_unacked q"
    "unacked p' = unacked q" "snd_wnd p' = snd_wnd q" "snd_nxt p' = snd_nxt q" "rcv_nxt p' = rcv_nxt q"
    by (simp_all add: q_def)
  then show "cc_algo_of p' = cc_algo_of p" "mss p' = mss p" "last_unacked p' = last_unacked p"
    "unacked p' = unacked p" "snd_wnd p' = snd_wnd p" "snd_nxt p' = snd_nxt p" "rcv_nxt p' = rcv_nxt p"
    by (simp_all only: q)
qed

lemma cubic_ok_frame:
  assumes "cubic_ok p" "same_but_cc p p'" "cc_data p' = Some c" "cu_mean_rtt_ticks c \<noteq> 0"
  shows "cubic_ok p'"
  using assms unfolding cubic_ok_def same_but_cc_sel [OF assms(2)] by simp

lemma cubic_ok_dest:
  assumes "cubic_ok p"
  obtains c where "cc_data p = Some c" "cu_mean_rtt_ticks c \<noteq> 0" "mss p \<noteq> 0" "cc_algo_of p = CC_MOD_CUBIC"
  using assms by (auto simp: cubic_ok_def split: option.splits)

lemma cubic_record_rtt_mean: "cu_mean_rtt_ticks c \<noteq> 0 \<Longrightarrow> cu_mean_rtt_ticks (cubic_record_rtt p c) \<noteq> 0"
  by (auto simp: cubic_record_rtt_def Let_def word_less_nat_alt)

lemma cubic_grow_total:
  assumes "cu_mean_rtt_ticks c \<noteq> 0" "cwnd p \<noteq> 0"
  shows "\<exists>p' c'. cubic_grow p c k = Some (p', c') \<and> cu_mean_rtt_ticks c' \<noteq> 0"
  using assms by (simp add: cubic_grow_def Let_def)

lemma cubic_ack_total:
  assumes "cc_data p = Some c" "cu_mean_rtt_ticks c \<noteq> 0"
  shows "\<exists>p' c'. cubic_ack_received p t k = Some p' \<and> cc_data p' = Some c' \<and> cu_mean_rtt_ticks c' \<noteq> 0"
proof -
  define c1 where "c1 = cubic_record_rtt p c"
  have m: "cu_mean_rtt_ticks c1 \<noteq> 0" using cubic_record_rtt_mean assms(2) by (simp add: c1_def)
  show ?thesis
  proof (cases "ssthresh p < cwnd p")
    case True
    then have "cwnd p \<noteq> 0" by auto
    then obtain p' c' where "cubic_grow p c1 k = Some (p', c')" "cu_mean_rtt_ticks c' \<noteq> 0"
      using cubic_grow_total m by blast
    with m show ?thesis by (simp add: cubic_ack_received_def assms(1) c1_def [symmetric] Let_def)
  next
    case False
    with m show ?thesis by (simp add: cubic_ack_received_def assms(1) c1_def [symmetric] Let_def not_less)
  qed
qed

lemma cubic_signal_total:
  assumes "cc_data p = Some c" "cu_mean_rtt_ticks c \<noteq> 0"
  shows "\<exists>p' c'. cubic_cong_signal p g k = Some p' \<and> cc_data p' = Some c' \<and> cu_mean_rtt_ticks c' \<noteq> 0"
  using assms by (cases g) (simp_all add: cubic_cong_signal_def)

lemma cubic_next_epoch_mean:
  assumes "cu_mean_rtt_ticks c \<noteq> 0"
  shows "cu_mean_rtt_ticks (cubic_next_epoch c m k) \<noteq> 0"
proof -
  have "s div ucast n \<noteq> 0" if "n > 0" "ucast n \<le> s" for s :: u64 and n :: u32
  proof -
    have "0 < unat n" using that(1) by (simp add: word_less_nat_alt)
    moreover have "unat n \<le> unat s" using that(2) by (simp add: word_le_nat_alt)
    ultimately have "unat (s div ucast n) > 0"
      by (simp add: unat_div div_greater_zero_iff)
    then show ?thesis by auto
  qed
  with assms show ?thesis by (simp add: cubic_next_epoch_def Let_def)
qed

lemma cubic_post_total:
  assumes "cubic_ok p"
  shows "\<exists>p' c'. cubic_post_recovery p k = Some p' \<and> cc_data p' = Some c' \<and> cu_mean_rtt_ticks c' \<noteq> 0"
proof -
  obtain c where c: "cc_data p = Some c" "cu_mean_rtt_ticks c \<noteq> 0" "mss p \<noteq> 0"
    by (rule cubic_ok_dest [OF assms])
  have m: "cu_mean_rtt_ticks (cubic_next_epoch (cubic_fast_convergence c) (mss p) k) \<noteq> 0"
    by (rule cubic_next_epoch_mean) (simp add: cubic_fast_convergence_def c)
  have "\<exists>w. cubic_recovery_cwnd p (cubic_fast_convergence c) = Some w"
  proof (cases "last_unacked p")
    case None
    then show ?thesis by (simp add: cubic_recovery_cwnd_def Let_def)
  next
    case (Some a)
    then have "\<exists>s\<in>set (unacked p). sg_addr s = a"
      using assms by (auto simp: cubic_ok_def list_ex_iff)
    then obtain s where "find (\<lambda>s. sg_addr s = a) (unacked p) = Some s"
      by (metis (mono_tags, lifting) find_None_iff not_None_eq)
    with Some show ?thesis by (simp add: cubic_recovery_cwnd_def last_unacked_seqno_def Let_def)
  qed
  then obtain w where "cubic_recovery_cwnd p (cubic_fast_convergence c) = Some w" by blast
  with m c show ?thesis by (simp add: cubic_post_recovery_def Let_def)
qed

lemma cubic_conn_total:
  assumes "cc_data p = Some c" "cu_mean_rtt_ticks c \<noteq> 0"
  shows "\<exists>p' c'. cubic_conn_init p = Some p' \<and> cc_data p' = Some c' \<and> cu_mean_rtt_ticks c' \<noteq> 0"
  using assms by (simp add: cubic_conn_init_def)

lemma cubic_call_total:
  assumes "cubic_ok p"
  shows "\<exists>p'. (case c of Ack t k \<Rightarrow> cc_ack_received p t k | Signal g k \<Rightarrow> cc_cong_signal p g k
            | Recovered k \<Rightarrow> cc_post_recovery p k | Conn_init \<Rightarrow> cc_conn_init p) = Some p' \<and> cubic_ok p'"
proof -
  obtain d where d: "cc_data p = Some d" "cu_mean_rtt_ticks d \<noteq> 0" "cc_algo_of p = CC_MOD_CUBIC"
    by (rule cubic_ok_dest [OF assms])
  have lift: "\<exists>p'. f = Some p' \<and> cubic_ok p'"
    if "\<exists>p' c'. f = Some p' \<and> cc_data p' = Some c' \<and> cu_mean_rtt_ticks c' \<noteq> 0"
      "\<And>p'. f = Some p' \<Longrightarrow> same_but_cc p p'" for f
    using that cubic_ok_frame [OF assms] by blast
  show ?thesis
  proof (cases c)
    case (Ack t k)
    show ?thesis
      using lift [OF cubic_ack_total [OF d(1,2)] cubic_ack_frame] by (simp add: Ack cc_ack_received_def d(3))
  next
    case (Signal g k)
    show ?thesis
      using lift [OF cubic_signal_total [OF d(1,2)] cubic_signal_frame] by (simp add: Signal cc_cong_signal_def d(3))
  next
    case (Recovered k)
    show ?thesis
      using lift [OF cubic_post_total [OF assms] cubic_post_frame] by (simp add: Recovered cc_post_recovery_def d(3))
  next
    case Conn_init
    show ?thesis
      using lift [OF cubic_conn_total [OF d(1,2)] cubic_conn_frame] by (simp add: Conn_init cc_conn_init_def d(3))
  qed
qed

lemma unat_add_le: "unat (a + b :: u32) \<le> unat a + unat b"
  by (subst unat_word_ariths(1)) (rule mod_less_eq_dividend)

lemma ack_growth_nat:
  assumes "(w :: nat) \<noteq> 0" "m \<le> w" "m < 2 ^ 16"
  shows "(m * m) mod 2 ^ 32 div w \<le> m"
proof -
  have "m * m < 2 ^ 16 * 2 ^ 16" using assms(3) by (intro mult_strict_mono) auto
  then have "(m * m) mod 2 ^ 32 = m * m" by simp
  moreover have "m * m div w \<le> m * w div w" using assms(2) by (intro div_le_mono mult_le_mono) auto
  ultimately show ?thesis using assms(1) by simp
qed

section \<open>Properties\<close>

text \<open>Whatever sequence of acknowledgements, congestion signals, ends of recovery and
  connection starts the TCP code reports to the selected congestion control module, the
  module writes nothing of the connection but cwnd, ssthresh and its private data.\<close>

theorem cc_calls_frame:
  assumes "cc_calls cc_ack_received cc_cong_signal cc_post_recovery cc_conn_init p cs = Some p'"
  shows "same_but_cc p p'"
  by (rule cc.calls_frame [OF assms])

theorem cc_calls_frame_witness:
  "same_but_cc (pcb_zero\<lparr>mss := 1460, cwnd := 14600, snd_wnd := 20000\<rparr>)
     (pcb_zero\<lparr>mss := 1460, cwnd := 2920, snd_wnd := 20000, ssthresh := 7300\<rparr>)"
  by (rule cc_calls_frame [where cs = "[Signal CC_RTO 5, Ack CC_ACK 6]"])
     (simp add: pcb_zero_def cc_cong_signal_def lwip_cong_signal_def half_window_def
        cc_ack_received_def lwip_ack_received_def)



text \<open>The default module on an acknowledgement: with a window that is not zero it returns,
  the window never shrinks, and it grows by at most one segment when it holds at least one.\<close>

theorem lwip_ack_window:
  assumes "cwnd p \<noteq> 0"
  shows "\<exists>p'. lwip_ack_received p t = Some p' \<and> cwnd p \<le> cwnd p'
     \<and> (ucast (mss p) \<le> cwnd p \<longrightarrow> unat (cwnd p') \<le> unat (cwnd p) + unat (mss p))"
proof -
  have step: "unat (cwnd p + ucast (mss p)) \<le> unat (cwnd p) + unat (mss p)"
    using unat_add_le [of "cwnd p" "ucast (mss p)"] by simp
  have grow: "unat (cwnd p + ucast (mss p) * ucast (mss p) div cwnd p) \<le> unat (cwnd p) + unat (mss p)"
    if "ucast (mss p) \<le> cwnd p"
  proof -
    have "unat (ucast (mss p) * ucast (mss p) div cwnd p) \<le> unat (mss p)"
    proof -
      have "unat ((ucast (mss p) :: u32) * ucast (mss p)) = (unat (mss p) * unat (mss p)) mod 2 ^ 32"
        by (simp add: unat_word_ariths(2))
      then have "unat ((ucast (mss p) :: u32) * ucast (mss p) div cwnd p)
          = (unat (mss p) * unat (mss p)) mod 2 ^ 32 div unat (cwnd p)" by (simp only: unat_div)
      also have "\<dots> \<le> unat (mss p)"
        using that assms by (intro ack_growth_nat) (simp_all add: word_le_nat_alt unat_eq_zero)
      finally show ?thesis .
    qed
    then show ?thesis by (rule order_trans [OF unat_add_le add_left_mono])
  qed
  show ?thesis
    using assms step grow by (cases t) (auto simp: lwip_ack_received_def Let_def less_imp_le)
qed

theorem lwip_ack_window_witness:
  "\<exists>p'. lwip_ack_received (pcb_zero\<lparr>mss := 1460, cwnd := 14600\<rparr>) CC_ACK = Some p' \<and> 14600 \<le> cwnd p'
     \<and> (1460 \<le> (14600 :: u32) \<longrightarrow> unat (cwnd p') \<le> 14600 + 1460)"
  using lwip_ack_window [of "pcb_zero\<lparr>mss := 1460, cwnd := 14600\<rparr>" CC_ACK] by simp

text \<open>The slow start threshold CUBIC stores after its first congestion event is the window
  times 204/256, computed modulo 2^32 before the division: from 21053762 bytes on the product
  wraps, and the threshold of that window is 0.\<close>

theorem cubic_ssthresh_wraps:
  "unat (ssthresh (cubic_ssthresh_update p (c\<lparr>cu_num_cong_events := 1\<rparr>))) = (unat (cwnd p) * 204) mod 2 ^ 32 div 256
   \<and> ssthresh (cubic_ssthresh_update (p\<lparr>cwnd := 21053762\<rparr>) (c\<lparr>cu_num_cong_events := 1\<rparr>)) = 0"
  by (simp add: cubic_ssthresh_update_def unat_drop_bit_eq drop_bit_eq_div unat_word_ariths)

end
