(* ===== verification/Lwip_Net.thy ===== *)
theory Lwip_Net
  imports Lwip_Cc
begin

text \<open>
  The surroundings of the TCP code: the globals of \<^verbatim>\<open>src/src/vma/lwip/tcp.c\<close> and \<^verbatim>\<open>tcp_out.c\<close>
  and the functions the socket layer registers.  What a run of the code does
  outside the pcb is recorded in \<open>net\<close>: the packets handed to \<open>ip_output\<close> in
  order, the segments and buffers given back, the notifications to the socket
  layer.  What it asks for is the parameter \<open>tcp_env\<close>: the n-th call of an
  allocator gives the n-th value (None is a failed allocation), and a
  callback is a function on the state.  The theory also holds the allocation
  and release functions of tcp.c.
\<close>

section \<open>Packets and globals\<close>

text \<open>A packet: the fixed header, the bytes behind it (options and data), and the three
  arguments of ip_output.\<close>

record packet =
  pk_hdr :: tcp_hdr
  pk_data :: "u8 list"
  pk_rexmit :: bool
  pk_dummy :: bool
  pk_tos :: u8

datatype tcp_event = Ev_state tcp_state | Ev_err err

record net =
  tcp_ticks :: u32
  sys_now :: u32
  input_busy :: bool
  nt_sent :: "packet list"
  nt_seg_free :: "nat list"
  nt_pbuf_free :: "pbuf list"
  nt_events :: "tcp_event list"
  nt_pbufs :: nat
  nt_segs :: nat

record tcp_env =
  enable_wnd_scale :: bool
  rcv_wnd_scale :: u32
  lwip_tcp_mss :: u16
  enable_ts_option :: u8
  slow_tmr_interval :: u32
  lwip_cc_algo_module :: cc_algo
  malloc_ok :: bool
  external_ip_route_mtu :: u16
  external_tcp_tx_pbuf_alloc :: "nat \<Rightarrow> pbuf option"
  external_tcp_seg_alloc :: "nat \<Rightarrow> nat option"
  poll_cb :: "tcp_pcb \<Rightarrow> net \<Rightarrow> err \<times> tcp_pcb \<times> net"

definition set_tcp_state :: "tcp_pcb \<Rightarrow> net \<Rightarrow> tcp_state \<Rightarrow> tcp_pcb \<times> net" where
  "set_tcp_state pcb nt s = (pcb\<lparr>private_state := s\<rparr>, nt\<lparr>nt_events := nt_events nt @ [Ev_state s]\<rparr>)"

definition event_err :: "net \<Rightarrow> err \<Rightarrow> net" where
  "event_err nt e = nt\<lparr>nt_events := nt_events nt @ [Ev_err e]\<rparr>"

section \<open>Buffer memory\<close>

text \<open>Reads and writes of n bytes at an offset of a buffer; outside of it they are
  undefined.\<close>

definition buf_read :: "u8 list \<Rightarrow> int \<Rightarrow> nat \<Rightarrow> u8 list option" where
  "buf_read b off n = (if 0 \<le> off \<and> nat off + n \<le> length b then Some (take n (drop (nat off) b)) else None)"

definition buf_write :: "u8 list \<Rightarrow> int \<Rightarrow> u8 list \<Rightarrow> u8 list option" where
  "buf_write b off xs =
     (if 0 \<le> off \<and> nat off + length xs \<le> length b
      then Some (take (nat off) b @ xs @ drop (nat off + length xs) b) else None)"

lemma buf_write_length: "buf_write b off xs = Some b' \<Longrightarrow> length b' = length b"
  by (cases "0 \<le> off \<and> nat off + length xs \<le> length b") (simp_all add: buf_write_def, erule subst, simp)

lemma buf_read_write:
  "buf_write b off xs = Some b' \<Longrightarrow> buf_read b' off (length xs) = Some xs"
  by (cases "0 \<le> off \<and> nat off + length xs \<le> length b")
     (simp_all add: buf_write_def buf_read_def, erule subst, simp)

section \<open>Allocation\<close>

definition tcp_tx_pbuf_alloc ::
    "tcp_env \<Rightarrow> tcp_pcb \<Rightarrow> net \<Rightarrow> u16 \<Rightarrow> pbuf_type \<Rightarrow> pbuf option \<times> tcp_pcb \<times> net" where
  "tcp_tx_pbuf_alloc ev pcb nt len type =
     (case pbuf_alloc pcb of
        [] \<Rightarrow>
          (let nt' = nt\<lparr>nt_pbufs := nt_pbufs nt + 1\<rparr>
           in case external_tcp_tx_pbuf_alloc ev (nt_pbufs nt) of
                None \<Rightarrow> (None, pcb, nt')
              | Some p \<Rightarrow> (Some (p\<lparr>pb_type := type, pb_ref := 1, pb_flags := 0,
                                   pb_len := len, pb_tot_len := ucast len\<rparr>), pcb, nt'))
      | p # _ \<Rightarrow> (Some (p\<lparr>pb_len := len, pb_tot_len := ucast len\<rparr>), pcb\<lparr>pbuf_alloc := []\<rparr>, nt))"

text \<open>\<open>tcp_tx_pbuf_free\<close>: every pbuf of the chain on its own; one that is not PBUF_RAM
  loses a reference and is given back with the last.\<close>

fun tcp_tx_pbuf_free :: "net \<Rightarrow> pbuf list \<Rightarrow> net" where
  "tcp_tx_pbuf_free nt [] = nt"
| "tcp_tx_pbuf_free nt (p # ps) =
     tcp_tx_pbuf_free
       (nt\<lparr>nt_pbuf_free := nt_pbuf_free nt @ (if pb_type p = PBUF_RAM then [p] else fst (pbuf_free [p]))\<rparr>) ps"

definition tcp_tx_seg_free :: "net \<Rightarrow> tcp_seg \<Rightarrow> net" where
  "tcp_tx_seg_free nt seg =
     (let nt = tcp_tx_pbuf_free nt (sg_p seg)
      in nt\<lparr>nt_seg_free := nt_seg_free nt @ [sg_addr seg]\<rparr>)"

fun tcp_tx_segs_free :: "net \<Rightarrow> tcp_seg list \<Rightarrow> net" where
  "tcp_tx_segs_free nt [] = nt"
| "tcp_tx_segs_free nt (s # ss) = tcp_tx_segs_free (tcp_tx_seg_free nt s) ss"

definition tcp_seg_free :: "net \<Rightarrow> tcp_seg \<Rightarrow> net" where
  "tcp_seg_free nt seg =
     nt\<lparr>nt_pbuf_free := nt_pbuf_free nt @ fst (pbuf_free (sg_p seg)),
        nt_seg_free := nt_seg_free nt @ [sg_addr seg]\<rparr>"

fun tcp_segs_free :: "net \<Rightarrow> tcp_seg list \<Rightarrow> net" where
  "tcp_segs_free nt [] = nt"
| "tcp_segs_free nt (s # ss) = tcp_segs_free (tcp_seg_free nt s) ss"

definition tcp_seg_copy :: "tcp_env \<Rightarrow> net \<Rightarrow> tcp_seg \<Rightarrow> tcp_seg option \<times> net" where
  "tcp_seg_copy ev nt seg =
     (let nt' = nt\<lparr>nt_segs := nt_segs nt + 1\<rparr>
      in case external_tcp_seg_alloc ev (nt_segs nt) of
           None \<Rightarrow> (None, nt')
         | Some a \<Rightarrow> (Some (seg\<lparr>sg_addr := a, sg_p := pbuf_ref (sg_p seg)\<rparr>), nt'))"

definition tcp_tx_preallocted_buffers_free :: "tcp_pcb \<Rightarrow> net \<Rightarrow> tcp_pcb \<times> net" where
  "tcp_tx_preallocted_buffers_free pcb nt =
     (let nt = tcp_tx_segs_free nt (take 1 (seg_alloc pcb));
          nt = tcp_tx_pbuf_free nt (pbuf_alloc pcb)
      in (pcb\<lparr>seg_alloc := [], pbuf_alloc := []\<rparr>, nt))"

section \<open>Segment size\<close>

definition IP_HLEN :: nat where "IP_HLEN = 20"

text \<open>The arithmetic is on int, so an MTU below 40 gives a negative number, which is the
  minimum and is then truncated to 16 bits.\<close>

definition tcp_eff_send_mss :: "tcp_env \<Rightarrow> u16 \<Rightarrow> u16" where
  "tcp_eff_send_mss ev sendmss =
     (let mtu = external_ip_route_mtu ev
      in if mtu \<noteq> 0 then of_int (min (uint sendmss) (uint mtu - int IP_HLEN - int TCP_HLEN)) else sendmss)"

definition tcp_mss_follow_mtu_with_default :: "tcp_env \<Rightarrow> u16 \<Rightarrow> u16" where
  "tcp_mss_follow_mtu_with_default ev defsendmss =
     (let mtu = external_ip_route_mtu ev
      in if mtu \<noteq> 0 then max (of_int (uint mtu - int IP_HLEN - int TCP_HLEN)) 1 else defsendmss)"

section \<open>Lemmas\<close>

text \<open>Releasing touches only the record of what was given back.\<close>

lemma tcp_tx_pbuf_free_frame [simp]:
  "nt_sent (tcp_tx_pbuf_free nt ps) = nt_sent nt" "tcp_ticks (tcp_tx_pbuf_free nt ps) = tcp_ticks nt"
  "nt_seg_free (tcp_tx_pbuf_free nt ps) = nt_seg_free nt" "input_busy (tcp_tx_pbuf_free nt ps) = input_busy nt"
  "nt_events (tcp_tx_pbuf_free nt ps) = nt_events nt" "nt_pbufs (tcp_tx_pbuf_free nt ps) = nt_pbufs nt"
  "nt_segs (tcp_tx_pbuf_free nt ps) = nt_segs nt" "sys_now (tcp_tx_pbuf_free nt ps) = sys_now nt"
  by (induction nt ps rule: tcp_tx_pbuf_free.induct) simp_all

lemma tcp_tx_seg_free_frame [simp]:
  "nt_sent (tcp_tx_seg_free nt s) = nt_sent nt" "tcp_ticks (tcp_tx_seg_free nt s) = tcp_ticks nt"
  "nt_seg_free (tcp_tx_seg_free nt s) = nt_seg_free nt @ [sg_addr s]"
  "input_busy (tcp_tx_seg_free nt s) = input_busy nt" "nt_events (tcp_tx_seg_free nt s) = nt_events nt"
  "nt_segs (tcp_tx_seg_free nt s) = nt_segs nt" "nt_pbufs (tcp_tx_seg_free nt s) = nt_pbufs nt"
  by (simp_all add: tcp_tx_seg_free_def Let_def)

lemma tcp_tx_segs_free_frame [simp]:
  "nt_sent (tcp_tx_segs_free nt ss) = nt_sent nt"
  "nt_seg_free (tcp_tx_segs_free nt ss) = nt_seg_free nt @ map sg_addr ss"
  "nt_events (tcp_tx_segs_free nt ss) = nt_events nt" "tcp_ticks (tcp_tx_segs_free nt ss) = tcp_ticks nt"
  "input_busy (tcp_tx_segs_free nt ss) = input_busy nt"
  by (induction nt ss rule: tcp_tx_segs_free.induct) simp_all

lemma tcp_segs_free_frame [simp]:
  "nt_sent (tcp_segs_free nt ss) = nt_sent nt"
  "nt_seg_free (tcp_segs_free nt ss) = nt_seg_free nt @ map sg_addr ss"
  "nt_events (tcp_segs_free nt ss) = nt_events nt" "tcp_ticks (tcp_segs_free nt ss) = tcp_ticks nt"
  "input_busy (tcp_segs_free nt ss) = input_busy nt"
  by (induction nt ss rule: tcp_segs_free.induct) (simp_all add: tcp_seg_free_def)

end
