(* ===== verification/Tcp_Options.thy ===== *)
theory Tcp_Options
  imports Lwip_Net
begin

text \<open>
  TCP options: the length macros and option builders of \<^verbatim>\<open>src/src/vma/lwip/tcp_impl.h\<close> and
  \<^verbatim>\<open>tcp_out.c\<close> and the parser \<open>tcp_parseopt\<close> of \<^verbatim>\<open>tcp_in.c\<close>.  A builder gives the words
  it stores; the parser reads the bytes behind the fixed header.  A parse
  ends in \<open>Parsed\<close>, or leaves an array (\<open>Out_of_bounds\<close>), or is still running
  after the given number of options (\<open>No_fuel\<close>): every option but one
  advances the position, so 40 options are enough for the 40 bytes a header
  can hold, and the lemmas say exactly when they are not.
\<close>

section \<open>Option lengths\<close>

definition LWIP_TCP_OPT_LEN_TS :: nat where "LWIP_TCP_OPT_LEN_TS = 10"

definition LWIP_TCP_OPT_LENGTH_LEGACY :: "u8 \<Rightarrow> nat" where
  "LWIP_TCP_OPT_LENGTH_LEGACY f =
     (if f AND TF_SEG_OPTS_MSS \<noteq> 0 then 4 else 0)
   + (if f AND TF_SEG_OPTS_WNDSCALE \<noteq> 0 then 4 else 0)
   + (if f AND TF_SEG_OPTS_TS \<noteq> 0 then 12 else 0)
   + (if f AND TF_SEG_OPTS_SACK_PERM \<noteq> 0 then 4 else 0)"

definition LWIP_TCP_OPT_LENGTH :: "tcp_pcb \<Rightarrow> u8 \<Rightarrow> nat" where
  "LWIP_TCP_OPT_LENGTH pcb f =
     (if f AND TF_SEG_OPTS_SACK_PERM = 0 \<and> sack_permitted pcb \<noteq> 0 \<and> rcv_sack_block_cnt pcb \<noteq> 0
         \<and> LWIP_TCP_OPT_LENGTH_LEGACY f \<le> 28
      then min 40 (LWIP_TCP_OPT_LENGTH_LEGACY f + 8 * unat (rcv_sack_block_cnt pcb) + 4)
      else LWIP_TCP_OPT_LENGTH_LEGACY f)"

section \<open>Builders\<close>

definition TCP_BUILD_MSS_OPTION :: "u16 \<Rightarrow> u32" where
  "TCP_BUILD_MSS_OPTION m = htonl (push_bit 24 2 OR push_bit 16 4 OR push_bit 8 (ucast m div 256) OR (ucast m AND 255))"

definition TCP_BUILD_WNDSCALE_OPTION :: "u32 \<Rightarrow> u32" where
  "TCP_BUILD_WNDSCALE_OPTION s = htonl ((push_bit 24 1 OR push_bit 16 3 OR push_bit 8 3) OR s)"

definition tcp_build_timestamp_option :: "tcp_pcb \<Rightarrow> u32 \<Rightarrow> u32 list" where
  "tcp_build_timestamp_option pcb now = [htonl 0x0101080A, htonl now, htonl (ts_recent pcb)]"

definition tcp_build_sack_perm_option :: "u32 list" where
  "tcp_build_sack_perm_option = [htonl 0x04020101]"

definition sack_elements :: "tcp_pcb \<Rightarrow> nat" where
  "sack_elements pcb =
     (let optlen = LWIP_TCP_OPT_LENGTH_LEGACY (if pcb_has pcb TF_TIMESTAMP then TF_SEG_OPTS_TS else 0)
      in if optlen \<le> 28 \<and> rcv_sack_block_cnt pcb \<noteq> 0
         then min ((36 - optlen) div 8) (unat (rcv_sack_block_cnt pcb)) else 0)"

definition sack_words :: "sack_block list \<Rightarrow> u32 list" where
  "sack_words bs = concat (map (\<lambda>b. [htonl (block_le b), htonl (block_re b)]) bs)"

definition tcp_build_sack_option :: "tcp_pcb \<Rightarrow> u32 list" where
  "tcp_build_sack_option pcb =
     (let n = sack_elements pcb
      in if n = 0 then []
         else ntohl (push_bit 16 0x0101 OR push_bit 8 5 OR (of_nat (8 * n) + 2))
              # sack_words (take n (rcv_sack_block pcb)))"

definition words_bytes :: "u32 list \<Rightarrow> u8 list" where
  "words_bytes ws = concat (map le_bytes ws)"

section \<open>The parser\<close>

text \<open>\<open>struct tcp_in_data\<close>; of the IP header only the TOS byte is used.\<close>

record tcp_in_data =
  in_recv_data :: "pbuf list"
  in_tcphdr :: tcp_hdr
  in_tos :: u8
  in_seqno :: u32
  in_ackno :: u32
  in_inseg :: tcp_seg
  in_tcplen :: u16
  in_flags :: u8
  in_recv_flags :: u8
  in_sack_block :: "sack_block list"
  in_sack_block_cnt :: u8

datatype parse_res = Parsed tcp_pcb tcp_in_data | Out_of_bounds | No_fuel

datatype parse_step = Continue tcp_pcb tcp_in_data nat | Return tcp_pcb tcp_in_data | Bad

definition in_has :: "tcp_in_data \<Rightarrow> u16 \<Rightarrow> bool" where
  "in_has d f = (in_flags d AND ucast f \<noteq> 0)"

definition opt_at :: "u8 list \<Rightarrow> nat \<Rightarrow> u8 option" where
  "opt_at opts i = (if i < length opts then Some (opts ! i) else None)"

text \<open>Four bytes at a position, read as a word (\<open>opts[c] | opts[c+1] << 8 | \<dots>\<close>).\<close>

definition opt_word :: "u8 list \<Rightarrow> nat \<Rightarrow> u32 option" where
  "opt_word opts i = do {
     a \<leftarrow> opt_at opts i; b \<leftarrow> opt_at opts (i + 1);
     c \<leftarrow> opt_at opts (i + 2); d \<leftarrow> opt_at opts (i + 3);
     Some (le_word a b c d)
   }"

definition parse_mss :: "u8 list \<Rightarrow> nat \<Rightarrow> tcp_pcb \<Rightarrow> tcp_in_data \<Rightarrow> nat \<Rightarrow> parse_step" where
  "parse_mss opts max_c pcb d c =
     (case opt_at opts (c + 1) of None \<Rightarrow> Bad | Some l \<Rightarrow>
        if l \<noteq> 4 \<or> c + 4 > max_c then Return pcb d
        else if \<not> in_has d TCP_SYN then Continue pcb d (c + 4)
        else case (opt_at opts (c + 2), opt_at opts (c + 3)) of
               (Some a, Some b) \<Rightarrow>
                 (let m = (push_bit 8 (ucast a) OR ucast b :: u16);
                      snd_mss = (if m > advtsd_mss pcb \<or> m = 0 then advtsd_mss pcb else m)
                  in Continue (UPDATE_PCB_BY_MSS pcb snd_mss) d (c + 4))
             | _ \<Rightarrow> Bad)"

definition parse_wscale :: "tcp_env \<Rightarrow> u8 list \<Rightarrow> nat \<Rightarrow> tcp_pcb \<Rightarrow> tcp_in_data \<Rightarrow> nat \<Rightarrow> parse_step" where
  "parse_wscale ev opts max_c pcb d c =
     (case opt_at opts (c + 1) of None \<Rightarrow> Bad | Some l \<Rightarrow>
        if l \<noteq> 3 \<or> c + 3 > max_c then Return pcb d
        else if enable_wnd_scale ev \<and> in_has d TCP_SYN \<and> \<not> pcb_has pcb TF_WND_SCALE then
          (case opt_at opts (c + 2) of None \<Rightarrow> Bad | Some s \<Rightarrow>
             Continue (set_flag (pcb\<lparr>snd_scale := (if s > 14 then 14 else s),
                                     rcv_scale := ucast (rcv_wnd_scale ev)\<rparr>) TF_WND_SCALE) d (c + 3))
        else Continue pcb d (c + 3))"

definition parse_ts :: "u8 list \<Rightarrow> nat \<Rightarrow> tcp_pcb \<Rightarrow> tcp_in_data \<Rightarrow> nat \<Rightarrow> parse_step" where
  "parse_ts opts max_c pcb d c =
     (case opt_at opts (c + 1) of None \<Rightarrow> Bad | Some l \<Rightarrow>
        if l \<noteq> 0x0A \<or> c + 10 > max_c then Return pcb d
        else case opt_word opts (c + 2) of None \<Rightarrow> Bad | Some tsval \<Rightarrow>
          Continue
            (if in_has d TCP_SYN then
               (if enable_ts_opt pcb \<noteq> 0 then set_flag (pcb\<lparr>ts_recent := ntohl tsval\<rparr>) TF_TIMESTAMP else pcb)
             else if TCP_SEQ_BETWEEN (ts_lastacksent pcb) (in_seqno d) (in_seqno d + ucast (in_tcplen d))
               then pcb\<lparr>ts_recent := ntohl tsval\<rparr>
             else pcb) d (c + 10))"

fun parse_sack_blocks :: "u8 list \<Rightarrow> nat \<Rightarrow> tcp_in_data \<Rightarrow> nat \<Rightarrow> (tcp_in_data \<times> nat) option" where
  "parse_sack_blocks opts 0 d c = Some (d, c)"
| "parse_sack_blocks opts (Suc n) d c =
     (case (opt_word opts c, opt_word opts (c + 4)) of
        (Some le, Some re) \<Rightarrow>
          if unat (in_sack_block_cnt d) < 4 then
            parse_sack_blocks opts n
              (d\<lparr>in_sack_block := (in_sack_block d)[unat (in_sack_block_cnt d) :=
                    \<lparr>block_le = ntohl le, block_re = ntohl re\<rparr>],
                 in_sack_block_cnt := in_sack_block_cnt d + 1\<rparr>) (c + 8)
          else None
      | _ \<Rightarrow> None)"

definition parse_sack :: "u8 list \<Rightarrow> tcp_pcb \<Rightarrow> tcp_in_data \<Rightarrow> nat \<Rightarrow> parse_step" where
  "parse_sack opts pcb d c =
     (case opt_at opts (c + 1) of None \<Rightarrow> Bad | Some sack_len \<Rightarrow>
        if sack_len \<ge> 10 then
          (case parse_sack_blocks opts ((unat sack_len - 2) div 8) (d\<lparr>in_sack_block_cnt := 0\<rparr>) (c + 2) of
             None \<Rightarrow> Bad | Some (d, c) \<Rightarrow> Continue pcb d c)
        else Continue pcb d (c + unat sack_len))"

definition parse_other :: "u8 list \<Rightarrow> tcp_pcb \<Rightarrow> tcp_in_data \<Rightarrow> nat \<Rightarrow> parse_step" where
  "parse_other opts pcb d c =
     (case opt_at opts (c + 1) of None \<Rightarrow> Bad | Some l \<Rightarrow>
        if l = 0 then Return pcb d else Continue pcb d (c + unat l))"

definition parse_opt :: "tcp_env \<Rightarrow> u8 list \<Rightarrow> nat \<Rightarrow> tcp_pcb \<Rightarrow> tcp_in_data \<Rightarrow> nat \<Rightarrow> parse_step" where
  "parse_opt ev opts max_c pcb d c =
     (case opt_at opts c of None \<Rightarrow> Bad | Some opt \<Rightarrow>
        if opt = 0 then Return pcb d
        else if opt = 1 then Continue pcb d (c + 1)
        else if opt = 2 then parse_mss opts max_c pcb d c
        else if opt = 3 then parse_wscale ev opts max_c pcb d c
        else if opt = 8 then parse_ts opts max_c pcb d c
        else if opt = 4 then
          Continue (if in_has d TCP_SYN then pcb\<lparr>sack_permitted := 1\<rparr> else pcb) d (c + 2)
        else if opt = 5 then parse_sack opts pcb d c
        else parse_other opts pcb d c)"

fun parse_loop :: "nat \<Rightarrow> tcp_env \<Rightarrow> u8 list \<Rightarrow> nat \<Rightarrow> tcp_pcb \<Rightarrow> tcp_in_data \<Rightarrow> nat \<Rightarrow> parse_res" where
  "parse_loop fuel ev opts max_c pcb d c =
     (if c < max_c then
        (case fuel of 0 \<Rightarrow> No_fuel
         | Suc n \<Rightarrow>
             (case parse_opt ev opts max_c pcb d c of
                Bad \<Rightarrow> Out_of_bounds
              | Return pcb d \<Rightarrow> Parsed pcb d
              | Continue pcb d c' \<Rightarrow> parse_loop n ev opts max_c pcb d c'))
      else Parsed pcb d)"

definition tcp_parseopt :: "nat \<Rightarrow> tcp_env \<Rightarrow> u8 list \<Rightarrow> tcp_pcb \<Rightarrow> tcp_in_data \<Rightarrow> parse_res" where
  "tcp_parseopt fuel ev opts pcb d =
     (let d = d\<lparr>in_sack_block_cnt := 0\<rparr>
      in if TCPH_HDRLEN (in_tcphdr d) > 5
         then parse_loop fuel ev opts (4 * (unat (TCPH_HDRLEN (in_tcphdr d)) - 5)) pcb d 0
         else Parsed pcb d)"

declare parse_loop.simps [simp del]

section \<open>Lengths\<close>

lemma legacy_cases:
  "LWIP_TCP_OPT_LENGTH_LEGACY f \<in> {0, 4, 8, 12, 16, 20, 24}"
  by (simp add: LWIP_TCP_OPT_LENGTH_LEGACY_def)

lemma legacy_ts: "LWIP_TCP_OPT_LENGTH_LEGACY TF_SEG_OPTS_TS = 12" "LWIP_TCP_OPT_LENGTH_LEGACY 0 = 0"
  by (simp_all add: LWIP_TCP_OPT_LENGTH_LEGACY_def seg_flag_defs)

text \<open>Every option set fits: at most 40 bytes, whole words, and a header length below 16 words.\<close>

lemma opt_length_fits:
  "LWIP_TCP_OPT_LENGTH pcb f \<le> 40 \<and> 4 dvd LWIP_TCP_OPT_LENGTH pcb f \<and> 5 + LWIP_TCP_OPT_LENGTH pcb f div 4 \<le> 15"
proof -
  define n where "n = LWIP_TCP_OPT_LENGTH_LEGACY f"
  have n: "n \<in> {0, 4, 8, 12, 16, 20, 24}" using legacy_cases by (simp add: n_def)
  have "4 dvd min 40 (n + 8 * k + 4)" for k :: nat using n by (auto simp: min_def)
  then show ?thesis
    using n unfolding LWIP_TCP_OPT_LENGTH_def n_def [symmetric] by (auto simp: min_def)
qed

lemma length_sack_words: "length (sack_words bs) = 2 * length bs"
  by (induction bs) (simp_all add: sack_words_def)

text \<open>The room reserved for the SACK option and the words written agree exactly when the
  timestamp option is sent or at most four blocks are queued; without timestamps and with
  five or more blocks the header reserves one word more than is written.\<close>

theorem sack_length_consistent:
  fixes pcb
  defines "f \<equiv> if pcb_has pcb TF_TIMESTAMP then TF_SEG_OPTS_TS else 0"
  assumes "sack_permitted pcb \<noteq> 0" "rcv_sack_block_cnt pcb \<noteq> 0"
    "unat (rcv_sack_block_cnt pcb) \<le> length (rcv_sack_block pcb)"
  shows "LWIP_TCP_OPT_LENGTH_LEGACY f + 4 * length (tcp_build_sack_option pcb) = LWIP_TCP_OPT_LENGTH pcb f
     \<longleftrightarrow> pcb_has pcb TF_TIMESTAMP \<or> unat (rcv_sack_block_cnt pcb) \<le> 4"
proof -
  define n where "n = unat (rcv_sack_block_cnt pcb)"
  have n: "0 < n" "n \<le> length (rcv_sack_block pcb)"
    using assms(3,4) by (simp_all add: n_def unat_gt_0)
  have f: "f AND TF_SEG_OPTS_SACK_PERM = 0" by (simp add: f_def seg_flag_defs)
  show ?thesis
    using n assms(2,3) f
    by (cases "pcb_has pcb TF_TIMESTAMP")
       (auto simp: f_def LWIP_TCP_OPT_LENGTH_def tcp_build_sack_option_def sack_elements_def legacy_ts
          length_sack_words min_def n_def [symmetric] Let_def)
qed

theorem sack_length_consistent_witness:
  "LWIP_TCP_OPT_LENGTH_LEGACY 0
     + 4 * length (tcp_build_sack_option (pcb_zero\<lparr>sack_permitted := 1, rcv_sack_block_cnt := 5\<rparr>))
   \<noteq> LWIP_TCP_OPT_LENGTH (pcb_zero\<lparr>sack_permitted := 1, rcv_sack_block_cnt := 5\<rparr>) 0"
  using sack_length_consistent [of "pcb_zero\<lparr>sack_permitted := 1, rcv_sack_block_cnt := 5\<rparr>"]
  by (simp add: pcb_zero_def)

section \<open>Bytes of the built options\<close>

lemma le_bytes_word: "le_bytes (le_word a b c d) = [a, b, c, d]"
  by (simp add: le_bytes_def)

lemma le_bytes_htonl_word: "le_bytes (htonl (le_word a b c d)) = [d, c, b, a]"
  by (simp add: htonl_def le_bytes_word)

lemma low_byte: "ucast (m :: u16) AND (255 :: u32) = ucast (ucast m :: u8)"
proof -
  have e: "(255 :: u32) = mask 8" by (simp add: mask_eq_exp_minus_1)
  show ?thesis unfolding e by (rule bit_word_eqI) (auto simp: bit_simps)
qed

lemma high_byte: "ucast (m :: u16) div (256 :: u32) = ucast (ucast (drop_bit 8 m) :: u8)"
proof -
  have "ucast m div (256 :: u32) = drop_bit 8 (ucast m)" by (simp add: drop_bit_eq_div)
  also have "\<dots> = ucast (ucast (drop_bit 8 m) :: u8)"
    by (rule bit_word_eqI) (auto simp: bit_simps dest: bit_imp_le_length)
  finally show ?thesis .
qed

lemma small_bytes:
  "(ucast (4 :: u8) :: u32) = 4" "(ucast (2 :: u8) :: u32) = 2" "(ucast (3 :: u8) :: u32) = 3"
  "(ucast (1 :: u8) :: u32) = 1"
  by simp_all

lemma mss_bytes: "le_bytes (TCP_BUILD_MSS_OPTION m) = [2, 4, ucast (drop_bit 8 m), ucast m]"
proof -
  have "push_bit 24 2 OR push_bit 16 4 OR push_bit 8 (ucast m div 256) OR (ucast m AND 255)
      = le_word (ucast m) (ucast (drop_bit 8 m)) 4 2"
    unfolding le_word_def low_byte high_byte small_bytes by (simp only: or.commute or.left_commute)
  then show ?thesis by (simp only: TCP_BUILD_MSS_OPTION_def le_bytes_htonl_word)
qed

lemma wscale_bytes:
  assumes "s < 256"
  shows "le_bytes (TCP_BUILD_WNDSCALE_OPTION s) = [1, 3, 3, ucast s]"
proof -
  have "unat s < 256" using assms by (simp add: word_less_nat_alt)
  then have "unat (ucast (ucast s :: u8) :: u32) = unat s"
    by (simp add: unsigned_ucast_eq unsigned_take_bit_eq take_bit_nat_eq_self)
  then have s: "ucast (ucast s :: u8) = s" by (simp only: word_eq_unat)
  have "(push_bit 24 1 OR push_bit 16 3 OR push_bit 8 3) OR s = le_word (ucast s) 3 3 1"
    unfolding le_word_def small_bytes s by (simp only: or.commute or.left_commute)
  then show ?thesis by (simp only: TCP_BUILD_WNDSCALE_OPTION_def le_bytes_htonl_word)
qed

lemma const_words:
  "(0x0101080A :: u32) = le_word 10 8 1 1" "(0x04020101 :: u32) = le_word 1 1 2 4"
  by (simp_all add: le_word_def)

lemma ts_bytes:
  "words_bytes (tcp_build_timestamp_option pcb now) = [1, 1, 8, 10] @ rev (le_bytes now) @ rev (le_bytes (ts_recent pcb))"
  unfolding words_bytes_def tcp_build_timestamp_option_def const_words(1)
  by (simp add: le_bytes_word le_bytes_htonl)

lemma sack_perm_bytes: "words_bytes tcp_build_sack_perm_option = [4, 2, 1, 1]"
  unfolding words_bytes_def tcp_build_sack_perm_option_def const_words(2)
  by (simp add: le_bytes_htonl_word)

lemma sack_head_bytes:
  assumes "n \<in> {1, 2, 3, 4}"
  shows "le_bytes (ntohl (push_bit 16 0x0101 OR push_bit 8 5 OR (of_nat (8 * n) + 2))) = [1, 1, 5, of_nat (8 * n + 2)]"
proof -
  have "push_bit 16 0x0101 OR push_bit 8 5 OR (of_nat (8 * n) + 2) = le_word (of_nat (8 * n + 2)) 5 1 1"
    using assms by (auto simp: le_word_def)
  then show ?thesis by (simp only: ntohl_def le_bytes_htonl_word)
qed

section \<open>Reading options back\<close>

lemma parse_loop_step:
  "c < max_c \<Longrightarrow> 0 < n \<Longrightarrow> parse_loop n ev opts max_c pcb d c =
     (case parse_opt ev opts max_c pcb d c of Bad \<Rightarrow> Out_of_bounds | Return pcb d \<Rightarrow> Parsed pcb d
      | Continue pcb d c' \<Rightarrow> parse_loop (n - 1) ev opts max_c pcb d c')"
proof (cases n)
  case (Suc m)
  assume "c < max_c" "0 < n"
  then show ?thesis unfolding Suc diff_Suc_1 by (subst parse_loop.simps) simp
qed simp

lemma parse_loop_done: "max_c \<le> c \<Longrightarrow> parse_loop n ev opts max_c pcb d c = Parsed pcb d"
  by (subst parse_loop.simps) simp

lemma opt_at_drop:
  assumes "drop c opts = a # as"
  shows "opt_at opts c = Some a" "drop (c + 1) opts = as"
proof -
  have c: "c < length opts" using assms by (metis drop_all list.discI not_le)
  then have "opts ! c = a" using assms by (metis hd_drop_conv_nth list.sel(1))
  with c show "opt_at opts c = Some a" by (simp add: opt_at_def)
  show "drop (c + 1) opts = as" using assms by (metis Suc_eq_plus1 drop_Suc list.sel(3) tl_drop)
qed

lemma opt_at_drop4:
  assumes "drop c opts = a0 # a1 # a2 # a3 # as"
  shows "opt_at opts c = Some a0" "opt_at opts (c + 1) = Some a1" "opt_at opts (c + 2) = Some a2"
    "opt_at opts (c + 3) = Some a3" "drop (c + 4) opts = as"
proof -
  note 1 = opt_at_drop [OF assms]
  note 2 = opt_at_drop [OF 1(2)]
  note 3 = opt_at_drop [OF 2(2)]
  note 4 = opt_at_drop [OF 3(2)]
  from 1 2 3 4 show "opt_at opts c = Some a0" "opt_at opts (c + 1) = Some a1" "opt_at opts (c + 2) = Some a2"
    "opt_at opts (c + 3) = Some a3" "drop (c + 4) opts = as" by (simp_all add: numeral_eq_Suc)
qed

lemma opt_word_drop:
  assumes "drop c opts = rev (le_bytes x) @ as"
  shows "opt_word opts c = Some (ntohl x)" "drop (c + 4) opts = as"
proof -
  have d: "drop c opts = ucast (drop_bit 24 x) # ucast (drop_bit 16 x) # ucast (drop_bit 8 x) # ucast x # as"
    using assms by (simp add: le_bytes_def)
  show "opt_word opts c = Some (ntohl x)" "drop (c + 4) opts = as"
    using opt_at_drop4 [OF d] by (simp_all add: opt_word_def ntohl_def htonl_def)
qed

lemma words_bytes_append [simp]: "words_bytes (a @ b) = words_bytes a @ words_bytes b"
  by (simp add: words_bytes_def)

lemma words_bytes_Cons: "words_bytes (w # ws) = le_bytes w @ words_bytes ws"
  by (simp add: words_bytes_def)

lemma sack_words_Cons: "sack_words (b # bs) = htonl (block_le b) # htonl (block_re b) # sack_words bs"
  by (simp add: sack_words_def)

lemma ntohl_ntohl [simp]: "ntohl (ntohl x) = x"
  using ntohl_htonl by (simp add: ntohl_def)

lemma parse_sack_blocks_written:
  assumes "drop c opts = words_bytes (sack_words bs) @ rest"
    "unat (in_sack_block_cnt d) + length bs \<le> 4" "length (in_sack_block d) = 4"
  shows "parse_sack_blocks opts (length bs) d c =
     Some (d\<lparr>in_sack_block := take (unat (in_sack_block_cnt d)) (in_sack_block d) @ bs
                @ drop (unat (in_sack_block_cnt d) + length bs) (in_sack_block d),
             in_sack_block_cnt := in_sack_block_cnt d + of_nat (length bs)\<rparr>, c + 8 * length bs)"
  using assms
proof (induction bs arbitrary: d c)
  case (Cons b bs)
  define k where "k = unat (in_sack_block_cnt d)"
  have d1: "drop c opts = rev (le_bytes (block_le b)) @ rev (le_bytes (block_re b)) @ words_bytes (sack_words bs) @ rest"
    using Cons.prems(1) by (simp add: sack_words_Cons words_bytes_Cons le_bytes_htonl)
  note w1 = opt_word_drop [OF d1]
  note w2 = opt_word_drop [OF w1(2)]
  have k: "k < 4" "k + 1 + length bs \<le> 4" using Cons.prems(2) by (simp_all add: k_def)
  have u: "unat (in_sack_block_cnt d + 1) = k + 1"
    using k by (simp add: k_def unat_word_ariths(1))
  have l: "(in_sack_block d)[k := b] = take k (in_sack_block d) @ b # drop (Suc k) (in_sack_block d)"
    using k Cons.prems(3) by (simp add: upd_conv_take_nth_drop)
  have tk: "take (Suc k) ((in_sack_block d)[k := b]) = take k (in_sack_block d) @ [b]"
    using k Cons.prems(3) by (simp add: l)
  have dr: "drop (k + 1 + length bs) ((in_sack_block d)[k := b]) = drop (k + 1 + length bs) (in_sack_block d)"
    by simp
  let ?d = "d\<lparr>in_sack_block := (in_sack_block d)[k := b], in_sack_block_cnt := in_sack_block_cnt d + 1\<rparr>"
  have ih: "parse_sack_blocks opts (length bs) ?d (c + 8) =
     Some (?d\<lparr>in_sack_block := take (k + 1) (in_sack_block ?d) @ bs @ drop (k + 1 + length bs) (in_sack_block ?d),
              in_sack_block_cnt := in_sack_block_cnt ?d + of_nat (length bs)\<rparr>, c + 8 + 8 * length bs)"
    using Cons.IH [of "c + 8" ?d] w2(2) k u Cons.prems(3) by (simp add: add.assoc)
  moreover have eta: "\<lparr>block_le = block_le b, block_re = block_re b\<rparr> = b" by simp
  ultimately show ?case
    using w1(1) w2(1) k tk dr by (simp add: k_def [symmetric] eta ac_simps)
qed simp

text \<open>C19. A SACK option written by tcp_build_sack_option is read back by tcp_parseopt: after the
  parse the first blocks of the receiver's array are the sender's blocks, in order, and
  the count is their number.\<close>

theorem sack_roundtrip:
  assumes "sack_elements pcb = n" "0 < n" "n \<le> length (rcv_sack_block pcb)" "length (in_sack_block d) = 4"
    "TCPH_HDRLEN (in_tcphdr d) = of_nat (6 + 2 * n)"
  shows "tcp_parseopt 40 ev (words_bytes (tcp_build_sack_option pcb) @ rest) q d =
     Parsed q (d\<lparr>in_sack_block := take n (rcv_sack_block pcb) @ drop n (in_sack_block d),
                 in_sack_block_cnt := of_nat n\<rparr>)"
proof -
  have n: "n \<in> {1, 2, 3, 4}"
    using assms(1,2) by (auto simp: sack_elements_def legacy_ts min_def Let_def split: if_splits)
  let ?bs = "take n (rcv_sack_block pcb)"
  let ?o = "words_bytes (tcp_build_sack_option pcb) @ rest"
  have lb: "length ?bs = n" using assms(3) by simp
  have o: "?o = 1 # 1 # 5 # of_nat (8 * n + 2) # words_bytes (sack_words ?bs) @ rest"
  proof -
    have "n \<noteq> 0" using assms(2) by simp
    then have "words_bytes (tcp_build_sack_option pcb) = [1, 1, 5, of_nat (8 * n + 2)] @ words_bytes (sack_words ?bs)"
      unfolding tcp_build_sack_option_def Let_def assms(1)
      by (simp only: if_False words_bytes_Cons sack_head_bytes [OF n])
    then show ?thesis by simp
  qed
  note a = opt_at_drop4 [of 0 ?o, simplified drop_0, OF o]
  have blocks: "parse_sack_blocks ?o n (d\<lparr>in_sack_block_cnt := 0\<rparr>) 4
      = Some (d\<lparr>in_sack_block := ?bs @ drop n (in_sack_block d), in_sack_block_cnt := of_nat n\<rparr>, 4 + 8 * n)"
    using parse_sack_blocks_written [of 4 ?o ?bs rest "d\<lparr>in_sack_block_cnt := 0\<rparr>"] a(5) n assms(4) lb by auto
  have h: "4 * (unat (TCPH_HDRLEN (in_tcphdr d)) - 5) = 4 + 8 * n" "TCPH_HDRLEN (in_tcphdr d) > 5"
    using n assms(5) by auto
  have s: "parse_sack ?o q (d\<lparr>in_sack_block_cnt := 0\<rparr>) 2
      = Continue q (d\<lparr>in_sack_block := ?bs @ drop n (in_sack_block d), in_sack_block_cnt := of_nat n\<rparr>) (4 + 8 * n)"
    using a(4) blocks n by (auto simp: parse_sack_def)
  have "parse_loop 40 ev ?o (4 + 8 * n) q (d\<lparr>in_sack_block_cnt := 0\<rparr>) 0
      = Parsed q (d\<lparr>in_sack_block := ?bs @ drop n (in_sack_block d), in_sack_block_cnt := of_nat n\<rparr>)"
    using a s s [unfolded numeral_2_eq_2] by (simp add: parse_loop_step parse_loop_done parse_opt_def)
  then show ?thesis using h by (simp add: tcp_parseopt_def Let_def)
qed

text \<open>A zeroed structure, and one with a given header length, for the examples.\<close>

definition in_zero :: tcp_in_data where
  "in_zero = \<lparr>in_recv_data = [], in_tcphdr = hdr_zero, in_tos = 0, in_seqno = 0, in_ackno = 0,
     in_inseg = seg_zero, in_tcplen = 0, in_flags = 0, in_recv_flags = 0,
     in_sack_block = replicate 4 \<lparr>block_le = 0, block_re = 0\<rparr>, in_sack_block_cnt = 0\<rparr>"

definition ex_in :: "u16 \<Rightarrow> u8 \<Rightarrow> tcp_in_data" where
  "ex_in n f = in_zero\<lparr>in_tcphdr := TCPH_HDRLEN_FLAGS_SET hdr_zero n (ucast f), in_flags := f\<rparr>"

lemma ex_in_simps [simp]:
  "TCPH_HDRLEN (in_tcphdr (ex_in 8 0x10)) = 8" "TCPH_HDRLEN (in_tcphdr (ex_in 11 0x02)) = 11"
  "TCPH_HDRLEN (in_tcphdr (ex_in 6 0x10)) = 6" "TCPH_HDRLEN (in_tcphdr (ex_in 15 0x10)) = 15"
  "length (in_sack_block (ex_in n f)) = 4" "in_has (ex_in 11 0x02) TCP_SYN"
  by (simp_all add: ex_in_def in_zero_def TCPH_HDRLEN_def TCPH_HDRLEN_FLAGS_SET_def in_has_def tcp_flag_defs
      ntohs_htons)

theorem sack_roundtrip_witness:
  "tcp_parseopt 40 undefined
     (words_bytes (tcp_build_sack_option (pcb_zero\<lparr>sack_permitted := 1, rcv_sack_block_cnt := 1,
        rcv_sack_block := [\<lparr>block_le = 1000, block_re = 2000\<rparr>]\<rparr>)) @ []) pcb_zero (ex_in 8 0x10)
   = Parsed pcb_zero ((ex_in 8 0x10)\<lparr>in_sack_block := [\<lparr>block_le = 1000, block_re = 2000\<rparr>]
        @ drop 1 (in_sack_block (ex_in 8 0x10)), in_sack_block_cnt := 1\<rparr>)"
  using sack_roundtrip [of "pcb_zero\<lparr>sack_permitted := 1, rcv_sack_block_cnt := 1,
        rcv_sack_block := [\<lparr>block_le = 1000, block_re = 2000\<rparr>]\<rparr>" 1 "ex_in 8 0x10" undefined "[]" pcb_zero]
  by (simp add: sack_elements_def pcb_zero_def legacy_ts)

lemma mss_of_bytes: "push_bit 8 (ucast (ucast (drop_bit 8 m) :: u8)) OR ucast (ucast m :: u8) = (m :: u16)"
proof (rule bit_word_eqI)
  fix n assume "n < LENGTH(16)"
  then have "n < 8 \<or> 8 \<le> n \<and> n < 16" by auto
  then show "bit (push_bit 8 (ucast (ucast (drop_bit 8 m) :: u8)) OR ucast (ucast m :: u8) :: u16) n = bit m n"
    by (elim disjE) (auto simp: bit_simps)
qed

text \<open>C18. The options of a SYN segment, as tcp_output_segment lays them out, are read back: the
  parser takes over the announced segment size and window scale, records the time stamp
  and turns on window scaling, time stamps and selective acknowledgements.\<close>

theorem syn_options_roundtrip:
  assumes "m \<noteq> 0" "m \<le> advtsd_mss q" "s \<le> 14" "in_has d TCP_SYN" "TCPH_HDRLEN (in_tcphdr d) = 11"
    "enable_wnd_scale ev" "\<not> pcb_has q TF_WND_SCALE" "enable_ts_opt q \<noteq> 0"
  shows "tcp_parseopt 40 ev
       (words_bytes ([TCP_BUILD_MSS_OPTION m, TCP_BUILD_WNDSCALE_OPTION s] @ tcp_build_timestamp_option p now
          @ tcp_build_sack_perm_option) @ rest) q d
     = Parsed ((set_flag ((set_flag ((UPDATE_PCB_BY_MSS q m)\<lparr>snd_scale := ucast s,
            rcv_scale := ucast (rcv_wnd_scale ev)\<rparr>) TF_WND_SCALE)\<lparr>ts_recent := now\<rparr>) TF_TIMESTAMP)
            \<lparr>sack_permitted := 1\<rparr>) (d\<lparr>in_sack_block_cnt := 0\<rparr>)"
    (is "tcp_parseopt 40 ev ?o q d = Parsed ?q4 ?d")
proof -
  have s: "s < 256" "\<not> (ucast s :: u8) > 14"
  proof -
    have u: "unat s \<le> 14" using assms(3) by (simp add: word_le_nat_alt)
    then show "s < 256" by (simp add: word_less_nat_alt)
    have "unat (ucast s :: u8) = unat s" using u by (simp add: unsigned_ucast_eq take_bit_nat_eq_self)
    with u show "\<not> (ucast s :: u8) > 14" by (simp add: word_less_nat_alt)
  qed
  have o: "drop 0 ?o = 2 # 4 # ucast (drop_bit 8 m) # ucast m # 1 # 3 # 3 # ucast s # 1 # 1 # 8 # 10
      # rev (le_bytes now) @ rev (le_bytes (ts_recent p)) @ 4 # 2 # 1 # 1 # rest"
    by (simp add: words_bytes_Cons mss_bytes wscale_bytes [OF s(1)] ts_bytes sack_perm_bytes)
  note b0 = opt_at_drop4 [OF o]
  note b4 = opt_at_drop4 [OF b0(5)]
  note b8 = opt_at_drop4 [OF b4(5)]
  note b12 = opt_word_drop [OF b8(5)]
  note b16 = opt_word_drop [OF b12(2)]
  note b20 = opt_at_drop4 [OF b16(2)]
  let ?q1 = "UPDATE_PCB_BY_MSS q m"
  let ?q2 = "set_flag (?q1\<lparr>snd_scale := ucast s, rcv_scale := ucast (rcv_wnd_scale ev)\<rparr>) TF_WND_SCALE"
  let ?q3 = "set_flag (?q2\<lparr>ts_recent := now\<rparr>) TF_TIMESTAMP"
  have syn: "in_has ?d TCP_SYN" using assms(4) by (simp add: in_has_def)
  have p0: "parse_opt ev ?o 24 q ?d 0 = Continue ?q1 ?d 4"
    using b0 assms(1,2) syn by (simp add: parse_opt_def parse_mss_def mss_of_bytes)
  have p4: "parse_opt ev ?o 24 ?q1 ?d 4 = Continue ?q1 ?d 5"
    using b4 by (simp add: parse_opt_def)
  have p5: "parse_opt ev ?o 24 ?q1 ?d 5 = Continue ?q2 ?d 8"
    using b4 assms(6,7) syn s(2) by (simp add: parse_opt_def parse_wscale_def UPDATE_PCB_BY_MSS_def)
  have p8: "parse_opt ev ?o 24 ?q2 ?d 8 = Continue ?q2 ?d 9" "parse_opt ev ?o 24 ?q2 ?d 9 = Continue ?q2 ?d 10"
    using b8 by (simp_all add: parse_opt_def)
  have p10: "parse_opt ev ?o 24 ?q2 ?d 10 = Continue ?q3 ?d 20"
    using b8 b12 assms(8) syn by (simp add: parse_opt_def parse_ts_def UPDATE_PCB_BY_MSS_def set_flag_def)
  have p20: "parse_opt ev ?o 24 ?q3 ?d 20 = Continue ?q4 ?d 22" "parse_opt ev ?o 24 ?q4 ?d 22 = Continue ?q4 ?d 23"
    "parse_opt ev ?o 24 ?q4 ?d 23 = Continue ?q4 ?d 24"
    using b20 syn by (simp_all add: parse_opt_def)
  have "parse_loop 40 ev ?o 24 q ?d 0 = Parsed ?q4 ?d"
    using p0 p4 p5 p8 p10 p20 by (simp only: parse_loop_step parse_loop_done) (simp add: parse_loop_step parse_loop_done)
  then show ?thesis using assms(5) by (simp add: tcp_parseopt_def Let_def)
qed

definition ex_env :: tcp_env where
  "ex_env = \<lparr>enable_wnd_scale = True, rcv_wnd_scale = 7, lwip_tcp_mss = 1460, enable_ts_option = 1,
     slow_tmr_interval = 20, lwip_cc_algo_module = CC_MOD_LWIP, malloc_ok = True,
     external_ip_route_mtu = 1500, external_tcp_tx_pbuf_alloc = (\<lambda>_. None),
     external_tcp_seg_alloc = (\<lambda>_. None), poll_cb = (\<lambda>pcb nt. (ERR_OK, pcb, nt))\<rparr>"

theorem syn_options_roundtrip_witness:
  "\<exists>q'. tcp_parseopt 40 ex_env
       (words_bytes ([TCP_BUILD_MSS_OPTION 1400, TCP_BUILD_WNDSCALE_OPTION 7] @ tcp_build_timestamp_option pcb_zero 99
          @ tcp_build_sack_perm_option) @ []) (pcb_zero\<lparr>advtsd_mss := 1460, enable_ts_opt := 1\<rparr>) (ex_in 11 0x02)
     = Parsed q' ((ex_in 11 0x02)\<lparr>in_sack_block_cnt := 0\<rparr>) \<and> mss q' = 1400 \<and> snd_scale q' = 7 \<and> ts_recent q' = 99"
  using syn_options_roundtrip [of 1400 "pcb_zero\<lparr>advtsd_mss := 1460, enable_ts_opt := 1\<rparr>" 7 "ex_in 11 0x02" ex_env
      pcb_zero 99 "[]"]
  by (simp add: pcb_zero_def ex_env_def pcb_flag_defs set_flag_def UPDATE_PCB_BY_MSS_def)

section \<open>Termination\<close>

lemma parse_sack_blocks_mono: "parse_sack_blocks opts n d c = Some (d', c') \<Longrightarrow> c \<le> c'"
  by (induction n arbitrary: d c) (force split: option.splits if_splits)+

lemma parse_sack_progress:
  assumes "parse_sack opts pcb d c = Continue pcb' d' c'"
  shows "c < c' \<or> opt_at opts (c + 1) = Some 0"
proof -
  obtain l where l: "opt_at opts (c + 1) = Some l"
    using assms by (cases "opt_at opts (c + 1)") (simp_all add: parse_sack_def)
  show ?thesis
  proof (cases "l \<ge> 10")
    case True
    then show ?thesis
      using assms l parse_sack_blocks_mono
      by (fastforce simp: parse_sack_def split: option.splits)
  next
    case False
    then have "c' = c + unat l" using assms l by (simp add: parse_sack_def)
    then show ?thesis using l by (cases "l = 0") (simp_all add: unat_gt_0)
  qed
qed

lemma parse_opt_progress:
  assumes "parse_opt ev opts max_c pcb d c = Continue pcb' d' c'"
  shows "c < c' \<or> opt_at opts c = Some 5 \<and> opt_at opts (c + 1) = Some 0"
proof -
  have "c < c'" if "parse_mss opts max_c pcb d c = Continue pcb' d' c'"
    using that by (auto simp: parse_mss_def Let_def split: option.splits if_splits)
  moreover have "c < c'" if "parse_wscale ev opts max_c pcb d c = Continue pcb' d' c'"
    using that by (auto simp: parse_wscale_def split: option.splits if_splits)
  moreover have "c < c'" if "parse_ts opts max_c pcb d c = Continue pcb' d' c'"
    using that by (auto simp: parse_ts_def split: option.splits if_splits)
  moreover have "c < c'" if "parse_other opts pcb d c = Continue pcb' d' c'"
    using that by (auto simp: parse_other_def unat_gt_0 split: option.splits if_splits)
  ultimately show ?thesis
    using assms parse_sack_progress [of opts pcb d c pcb' d' c']
    by (auto simp: parse_opt_def split: option.splits if_splits)
qed

fun has_empty_sack :: "u8 list \<Rightarrow> bool" where
  "has_empty_sack (a # b # bs) = (a = 5 \<and> b = 0 \<or> has_empty_sack (b # bs))"
| "has_empty_sack _ = False"

lemma has_empty_sackI:
  "opt_at opts c = Some 5 \<Longrightarrow> opt_at opts (c + 1) = Some 0 \<Longrightarrow> has_empty_sack opts"
proof (induction opts arbitrary: c rule: has_empty_sack.induct)
  case (1 a b bs)
  show ?case
  proof (cases c)
    case 0
    with 1 show ?thesis by (simp add: opt_at_def)
  next
    case (Suc k)
    have "opt_at (b # bs) k = Some 5" "opt_at (b # bs) (k + 1) = Some 0"
      using 1(2,3) by (simp_all add: Suc opt_at_def split: if_splits)
    then show ?thesis using 1(1) by simp
  qed
qed (auto simp: opt_at_def split: if_splits)

lemma parse_loop_terminates:
  assumes "\<not> has_empty_sack opts" "max_c - c \<le> n"
  shows "parse_loop n ev opts max_c pcb d c \<noteq> No_fuel"
  using assms(2)
proof (induction n arbitrary: pcb d c)
  case 0
  then show ?case by (simp add: parse_loop_done)
next
  case (Suc n)
  show ?case
  proof (cases "c < max_c")
    case True
    have "c < c'" if "parse_opt ev opts max_c pcb d c = Continue pcb' d' c'" for pcb' d' c'
      using parse_opt_progress [OF that] assms(1) has_empty_sackI by blast
    with True Suc show ?thesis
      by (fastforce simp: parse_loop_step split: parse_step.splits)
  qed (simp add: parse_loop_done)
qed



text \<open>C33. A SACK option of length zero makes the parser run forever: it never advances past the
  option, whatever the number of steps.\<close>

theorem tcp_parseopt_diverges:
  assumes "TCPH_HDRLEN (in_tcphdr d) > 5"
  shows "tcp_parseopt n ev (5 # 0 # rest) pcb d = No_fuel"
proof -
  have m: "0 < 4 * (unat (TCPH_HDRLEN (in_tcphdr d)) - 5)" using assms by (simp add: word_less_nat_alt)
  have "parse_loop n ev (5 # 0 # rest) m pcb d 0 = No_fuel" if "0 < m" for m d
    using that
  proof (induction n)
    case (Suc n)
    then show ?case by (simp add: parse_loop_step parse_opt_def opt_at_def parse_sack_def)
  qed (simp add: parse_loop.simps)
  with m assms show ?thesis by (simp add: tcp_parseopt_def Let_def)
qed

theorem tcp_parseopt_diverges_witness:
  "tcp_parseopt 1000 ex_env (5 # 0 # [1, 1]) pcb_zero (ex_in 6 0x10) = No_fuel"
  by (rule tcp_parseopt_diverges) simp

text \<open>C34. The number of SACK blocks is not checked: an option that claims five blocks or more
  writes past the four elements of sack_block.\<close>

theorem tcp_parseopt_sack_overflow:
  assumes "TCPH_HDRLEN (in_tcphdr d) > 5" "l \<ge> 42" "0 < n"
  shows "tcp_parseopt n ev (5 # l # rest) pcb d = Out_of_bounds"
proof -
  have blk: "parse_sack_blocks opts k d c = None" if "5 \<le> unat (in_sack_block_cnt d) + k" "unat (in_sack_block_cnt d) \<le> 4"
    for opts k d c
    using that
  proof (induction k arbitrary: d c)
    case (Suc k)
    show ?case
    proof (cases "unat (in_sack_block_cnt d) < 4")
      case True
      then have "unat (in_sack_block_cnt d + 1) = unat (in_sack_block_cnt d) + 1"
        by (simp add: unat_word_ariths(1))
      with Suc True show ?thesis by (auto split: option.split)
    qed (auto split: option.split)
  qed simp
  have m: "0 < 4 * (unat (TCPH_HDRLEN (in_tcphdr d)) - 5)" using assms(1) by (simp add: word_less_nat_alt)
  have l: "l \<ge> 10" "5 \<le> (unat l - 2) div 8" using assms(2) by (simp_all add: word_le_nat_alt)
  have "parse_sack (5 # l # rest) pcb d 0 = Bad" for d
    using l blk [of "d\<lparr>in_sack_block_cnt := 0\<rparr>" "(unat l - 2) div 8"] by (simp add: parse_sack_def opt_at_def)
  then have "parse_loop n ev (5 # l # rest) m pcb d 0 = Out_of_bounds" if "0 < m" for m d
    using that assms(3) by (simp add: parse_loop_step parse_opt_def opt_at_def)
  with m assms(1) show ?thesis by (simp add: tcp_parseopt_def Let_def)
qed

theorem tcp_parseopt_sack_overflow_witness:
  "tcp_parseopt 40 ex_env (5 # 42 # replicate 40 0) pcb_zero (ex_in 15 0x10) = Out_of_bounds"
  by (rule tcp_parseopt_sack_overflow) simp_all

end
