(* ===== verification/Tcp_Out.thy ===== *)
theory Tcp_Out
  imports Tcp_Options Tlt Dctcp
begin

text \<open>
  The building blocks of \<^verbatim>\<open>src/src/vma/lwip/tcp_out.c\<close>: headers and segments, the empty
  acknowledgement, reset and keepalive packets, control segments, and the
  transmission of one segment.  None stands for undefined behaviour: an
  access outside a buffer or through a null or dangling pointer.
\<close>

section \<open>Handing a packet to the network\<close>

definition ip_output :: "net \<Rightarrow> tcp_hdr \<Rightarrow> pbuf list \<Rightarrow> bool \<Rightarrow> bool \<Rightarrow> u8 \<Rightarrow> net" where
  "ip_output nt h ps is_rexmit is_dummy tos' =
     nt\<lparr>nt_sent := nt_sent nt @ [\<lparr>pk_hdr = h, pk_data = drop TCP_HLEN (chain_data ps),
          pk_rexmit = is_rexmit, pk_dummy = is_dummy, pk_tos = tos'\<rparr>]\<rparr>"

text \<open>Writing option words behind the fixed header of a pbuf.\<close>

definition put_opts :: "pbuf \<Rightarrow> u32 list \<Rightarrow> pbuf option" where
  "put_opts p ws = map_option (\<lambda>b. p\<lparr>pb_buf := b\<rparr>) (buf_write (pb_buf p) (pb_off p + int TCP_HLEN) (words_bytes ws))"

section \<open>Headers and segments\<close>

definition tcp_output_alloc_header ::
    "tcp_env \<Rightarrow> tcp_pcb \<Rightarrow> net \<Rightarrow> nat \<Rightarrow> nat \<Rightarrow> u32 \<Rightarrow> (pbuf \<times> tcp_hdr) option \<times> tcp_pcb \<times> net" where
  "tcp_output_alloc_header ev pcb nt optlen datalen seqno_be =
     (case tcp_tx_pbuf_alloc ev pcb nt (of_nat (optlen + datalen)) PBUF_RAM of
        (None, pcb, nt) \<Rightarrow> (None, pcb, nt)
      | (Some p, pcb, nt) \<Rightarrow>
          (let p = fst (pbuf_header p (int TCP_HLEN));
               h = hdr_zero\<lparr>th_src := htons (local_port pcb), th_dest := htons (remote_port pcb),
                     th_seqno := seqno_be, th_ackno := htonl (rcv_nxt pcb)\<rparr>;
               h = TCPH_HDRLEN_FLAGS_SET h (of_nat (5 + optlen div 4)) TCP_ACK;
               h = h\<lparr>th_wnd := htons (TCPWND_MIN16 (RCV_WND_SCALE pcb (rcv_ann_wnd pcb))),
                     th_chksum := 0, th_urgp := 0\<rparr>
           in (Some (p, h), pcb\<lparr>rcv_ann_right_edge := rcv_nxt pcb + rcv_ann_wnd pcb\<rparr>, nt)))"

text \<open>\<open>tcp_create_segment\<close>: an empty chain is a null pbuf.  The fields ackno, wnd and
  chksum of a new header are written when it is sent.\<close>

definition fill_segment :: "tcp_pcb \<Rightarrow> tcp_seg \<Rightarrow> pbuf list \<Rightarrow> u16 \<Rightarrow> u32 \<Rightarrow> u8 \<Rightarrow> tcp_seg option" where
  "fill_segment pcb seg ps fl seqno optflags =
     (case ps of [] \<Rightarrow> None
      | p # rest \<Rightarrow>
          (let optlen = LWIP_TCP_OPT_LENGTH pcb optflags;
               h = hdr_zero\<lparr>th_src := htons (local_port pcb), th_dest := htons (remote_port pcb),
                     th_seqno := htonl seqno\<rparr>
           in Some (seg\<lparr>sg_flags := optflags, sg_p := fst (pbuf_header p (int TCP_HLEN)) # rest,
                        sg_dataptr := pb_off p, sg_len := ucast (pb_tot_len p - of_nat optlen),
                        sg_seqno := seqno,
                        sg_tcphdr := TCPH_HDRLEN_FLAGS_SET h (of_nat (5 + optlen div 4)) fl\<rparr>)))"

definition tcp_create_segment ::
    "tcp_env \<Rightarrow> tcp_pcb \<Rightarrow> net \<Rightarrow> pbuf list \<Rightarrow> u16 \<Rightarrow> u32 \<Rightarrow> u8 \<Rightarrow> (tcp_seg option \<times> tcp_pcb \<times> net) option" where
  "tcp_create_segment ev pcb nt ps fl seqno optflags =
     (case seg_alloc pcb of
        [] \<Rightarrow>
          (let nt' = nt\<lparr>nt_segs := nt_segs nt + 1\<rparr>
           in case external_tcp_seg_alloc ev (nt_segs nt) of
                None \<Rightarrow> Some (None, pcb, tcp_tx_pbuf_free nt' ps)
              | Some a \<Rightarrow>
                  if ps = [] then Some (Some (seg_zero\<lparr>sg_addr := a\<rparr>), pcb, nt')
                  else do {
                    seg \<leftarrow> fill_segment pcb (seg_zero\<lparr>sg_addr := a\<rparr>) ps fl seqno optflags;
                    Some (Some seg, pcb, nt')
                  })
      | s # _ \<Rightarrow> do {
          seg \<leftarrow> fill_segment pcb s ps fl seqno optflags;
          Some (Some seg, pcb\<lparr>seg_alloc := []\<rparr>, nt)
        })"

text \<open>\<open>LWIP_MEM_ALIGN_SIZE\<close> with an alignment of 4.\<close>

definition LWIP_MEM_ALIGN_SIZE :: "nat \<Rightarrow> nat" where
  "LWIP_MEM_ALIGN_SIZE n = (n + 3) div 4 * 4"

definition tcp_pbuf_prealloc ::
    "tcp_env \<Rightarrow> tcp_pcb \<Rightarrow> net \<Rightarrow> u16 \<Rightarrow> u16 \<Rightarrow> bool \<Rightarrow> bool \<Rightarrow> (pbuf \<times> u16) option \<times> tcp_pcb \<times> net" where
  "tcp_pbuf_prealloc ev pcb nt len max_length flag_more first_seg =
     (let alloc = (if len < max_length \<and> (flag_more \<or> \<not> pcb_has pcb TF_NODELAY
                        \<and> (\<not> first_seg \<or> unsent pcb \<noteq> [] \<or> unacked pcb \<noteq> []))
                   then of_nat (min (unat max_length)
                          (LWIP_MEM_ALIGN_SIZE (unat len + unat (tcp_oversize_val pcb))))
                   else len)
      in case tcp_tx_pbuf_alloc ev pcb nt alloc PBUF_RAM of
           (None, pcb, nt) \<Rightarrow> (None, pcb, nt)
         | (Some p, pcb, nt) \<Rightarrow>
             (Some (p\<lparr>pb_len := len, pb_tot_len := ucast len\<rparr>, pb_len p - len), pcb, nt))"

section \<open>Control packets\<close>

definition tcp_send_empty_ack :: "tcp_env \<Rightarrow> tcp_pcb \<Rightarrow> net \<Rightarrow> (err \<times> tcp_pcb \<times> net) option" where
  "tcp_send_empty_ack ev pcb nt =
     (let optlen = (if pcb_has pcb TF_TIMESTAMP then LWIP_TCP_OPT_LENGTH pcb TF_SEG_OPTS_TS else 0);
          optlen = (if sack_permitted pcb \<noteq> 0 then LWIP_TCP_OPT_LENGTH pcb 0 else optlen)
      in case tcp_output_alloc_header ev pcb nt optlen 0 (htonl (snd_nxt pcb)) of
           (None, pcb, nt) \<Rightarrow> Some (ERR_BUF, pcb, nt)
         | (Some (p, h), pcb, nt) \<Rightarrow>
             (let pcb = clear_flag pcb (TF_ACK_DELAY OR TF_ACK_NOW);
                  pcb = pcb\<lparr>ts_lastacksent := rcv_nxt pcb\<rparr>;
                  ws = (if pcb_has pcb TF_TIMESTAMP then tcp_build_timestamp_option pcb (sys_now nt) else []);
                  ws = ws @ (if sack_permitted pcb = 0 then []
                             else if has_flag h TCP_SYN then tcp_build_sack_perm_option
                             else tcp_build_sack_option pcb)
              in do {
                p \<leftarrow> put_opts p ws;
                let (pcb, h) = dctcp_send_empty pcb h;
                let (pcb, tos') = tlt_out_empty_ack pcb;
                let nt = ip_output nt h [p] False False tos';
                Some (ERR_OK, pcb, tcp_tx_pbuf_free nt [p])
              }))"

definition tcp_rst :: "tcp_env \<Rightarrow> tcp_pcb \<Rightarrow> net \<Rightarrow> u32 \<Rightarrow> u32 \<Rightarrow> u16 \<Rightarrow> u16 \<Rightarrow> tcp_pcb \<times> net" where
  "tcp_rst ev pcb nt seqno ackno lport rport =
     (case tcp_tx_pbuf_alloc ev pcb nt 0 PBUF_RAM of
        (None, pcb, nt) \<Rightarrow> (pcb, nt)
      | (Some p, pcb, nt) \<Rightarrow>
          (let p = fst (pbuf_header p (int TCP_HLEN));
               h = hdr_zero\<lparr>th_src := htons lport, th_dest := htons rport,
                     th_seqno := htonl seqno, th_ackno := htonl ackno\<rparr>;
               h = TCPH_HDRLEN_FLAGS_SET h (of_nat (TCP_HLEN div 4)) (TCP_RST OR TCP_ACK);
               h = h\<lparr>th_wnd := htons 0xFFFF, th_chksum := 0, th_urgp := 0\<rparr>;
               nt = ip_output nt h [p] False False (tos pcb)
           in (pcb, tcp_tx_pbuf_free nt [p])))"

definition tcp_keepalive :: "tcp_env \<Rightarrow> tcp_pcb \<Rightarrow> net \<Rightarrow> tcp_pcb \<times> net" where
  "tcp_keepalive ev pcb nt =
     (case tcp_output_alloc_header ev pcb nt 0 0 (htonl (snd_nxt pcb - 1)) of
        (None, pcb, nt) \<Rightarrow> (pcb, nt)
      | (Some (p, h), pcb, nt) \<Rightarrow>
          (pcb, tcp_tx_pbuf_free (ip_output nt h [p] False False (tos pcb)) [p]))"

definition tcp_zero_window_probe :: "tcp_env \<Rightarrow> tcp_pcb \<Rightarrow> net \<Rightarrow> (tcp_pcb \<times> net) option" where
  "tcp_zero_window_probe ev pcb nt =
     (case unsent pcb of [] \<Rightarrow> Some (pcb, nt)
      | seg # _ \<Rightarrow>
          (let is_fin = (has_flag (sg_tcphdr seg) TCP_FIN \<and> sg_len seg = 0);
               len = (if is_fin then 0 else 1)
           in case tcp_output_alloc_header ev pcb nt 0 len (th_seqno (sg_tcphdr seg)) of
                (None, pcb, nt) \<Rightarrow> Some (pcb, nt)
              | (Some (p, h), pcb, nt) \<Rightarrow> do {
                  (p, h) \<leftarrow> (if is_fin then Some (p, TCPH_FLAGS_SET h (TCP_ACK OR TCP_FIN))
                            else case sg_p seg of [] \<Rightarrow> None
                                 | q # _ \<Rightarrow> do {
                                     b \<leftarrow> buf_read (pb_buf q) (sg_dataptr seg) 1;
                                     buf \<leftarrow> buf_write (pb_buf p) (pb_off p + int TCP_HLEN) b;
                                     Some (p\<lparr>pb_buf := buf\<rparr>, h)
                                   });
                  let nxt = ntohl (th_seqno (sg_tcphdr seg)) + 1;
                  let pcb = (if TCP_SEQ_LT (snd_nxt pcb) nxt then pcb\<lparr>snd_nxt := nxt\<rparr> else pcb);
                  Some (pcb, tcp_tx_pbuf_free (ip_output nt h [p] False False (tos pcb)) [p])
                }))"

section \<open>Queueing control segments\<close>

definition TCP_SNDQUEUELEN_OVERFLOW :: u32 where "TCP_SNDQUEUELEN_OVERFLOW = 0xffffff - 3"

definition queue_full :: "tcp_pcb \<Rightarrow> u32 \<Rightarrow> bool" where
  "queue_full pcb n = (ucast (max_unsent_len pcb) \<le> n \<or> TCP_SNDQUEUELEN_OVERFLOW < n)"

text \<open>The option flags of a control segment (lines 780-805).\<close>

definition enqueue_optflags :: "tcp_env \<Rightarrow> tcp_pcb \<Rightarrow> u16 \<Rightarrow> u8" where
  "enqueue_optflags ev pcb fl =
     (let f = (0 :: u8);
          f = (if fl AND TCP_SYN \<noteq> 0 then
                 (let f = TF_SEG_OPTS_MSS;
                      f = (if enable_wnd_scale ev \<and> (get_tcp_state pcb \<noteq> SYN_RCVD \<or> pcb_has pcb TF_WND_SCALE)
                           then f OR TF_SEG_OPTS_WNDSCALE else f)
                  in if enable_ts_opt pcb \<noteq> 0 \<and> fl AND TCP_ACK = 0 then f OR TF_SEG_OPTS_TS else f)
               else f);
          f = (if pcb_has pcb TF_TIMESTAMP then f OR TF_SEG_OPTS_TS else f)
      in if fl AND TCP_SYN \<noteq> 0 then f OR TF_SEG_OPTS_SACK_PERM else f)"

definition tcp_enqueue_flags :: "tcp_env \<Rightarrow> tcp_pcb \<Rightarrow> net \<Rightarrow> u16 \<Rightarrow> (err \<times> tcp_pcb \<times> net) option" where
  "tcp_enqueue_flags ev pcb nt fl =
     (if queue_full pcb (snd_queuelen pcb) \<and> fl AND TCP_FIN = 0
      then Some (ERR_MEM, set_flag pcb TF_NAGLEMEMERR, nt)
      else
        (let optflags = enqueue_optflags ev pcb fl;
             pcb = (if fl AND TCP_SYN \<noteq> 0 then pcb\<lparr>sack_permitted := 1\<rparr> else pcb);
             optlen = LWIP_TCP_OPT_LENGTH pcb optflags
         in case tcp_tx_pbuf_alloc ev pcb nt (of_nat optlen) PBUF_RAM of
              (None, pcb, nt) \<Rightarrow> Some (ERR_MEM, set_flag pcb TF_NAGLEMEMERR, nt)
            | (Some p, pcb, nt) \<Rightarrow> do {
                (s, pcb, nt) \<leftarrow> tcp_create_segment ev pcb nt [p] fl (snd_lbb pcb) optflags;
                case s of
                  None \<Rightarrow> Some (ERR_MEM, set_flag pcb TF_NAGLEMEMERR, nt)
                | Some seg \<Rightarrow>
                    (let pcb = pcb\<lparr>unsent := unsent pcb @ [seg], unsent_oversize := 0\<rparr>;
                         pcb = (if fl AND TCP_SYN \<noteq> 0 \<or> fl AND TCP_FIN \<noteq> 0
                                then pcb\<lparr>snd_lbb := snd_lbb pcb + 1\<rparr> else pcb);
                         pcb = (if fl AND TCP_FIN \<noteq> 0 then set_flag pcb TF_FIN else pcb)
                     in Some (ERR_OK, pcb\<lparr>snd_queuelen := snd_queuelen pcb + ucast (pbuf_clen (sg_p seg))\<rparr>, nt))
              }))"

definition tcp_send_fin :: "tcp_env \<Rightarrow> tcp_pcb \<Rightarrow> net \<Rightarrow> (err \<times> tcp_pcb \<times> net) option" where
  "tcp_send_fin ev pcb nt =
     (if unsent pcb \<noteq> [] \<and> TCPH_FLAGS (sg_tcphdr (last (unsent pcb))) AND (TCP_SYN OR TCP_FIN OR TCP_RST) = 0
      then (let s = last (unsent pcb);
                s = s\<lparr>sg_tcphdr := TCPH_SET_FLAG (sg_tcphdr s) TCP_FIN\<rparr>
            in Some (ERR_OK, set_flag (pcb\<lparr>unsent := butlast (unsent pcb) @ [s]\<rparr>) TF_FIN, nt))
      else tcp_enqueue_flags ev pcb nt TCP_FIN)"

section \<open>Sending one segment\<close>

definition LWIP_IS_DUMMY_SEGMENT :: "tcp_seg \<Rightarrow> bool" where
  "LWIP_IS_DUMMY_SEGMENT seg = (sg_flags seg AND TF_SEG_OPTS_DUMMY_MSG \<noteq> 0)"

definition segment_options :: "tcp_env \<Rightarrow> tcp_pcb \<Rightarrow> u32 \<Rightarrow> u8 \<Rightarrow> u32 list" where
  "segment_options ev pcb now f =
     (if f AND TF_SEG_OPTS_MSS \<noteq> 0 then [TCP_BUILD_MSS_OPTION (advtsd_mss pcb)] else [])
   @ (if f AND TF_SEG_OPTS_WNDSCALE \<noteq> 0 then [TCP_BUILD_WNDSCALE_OPTION (rcv_wnd_scale ev)] else [])
   @ (if f AND TF_SEG_OPTS_TS \<noteq> 0 then tcp_build_timestamp_option pcb now else [])
   @ (if f AND TF_SEG_OPTS_SACK_PERM \<noteq> 0 then tcp_build_sack_perm_option else [])"

text \<open>The timers started by a transmission (lines 1914-1925).\<close>

definition start_timers :: "tcp_pcb \<Rightarrow> u32 \<Rightarrow> tcp_seg \<Rightarrow> tcp_pcb" where
  "start_timers pcb ticks seg =
     (if LWIP_IS_DUMMY_SEGMENT seg then pcb
      else (let pcb = (if rtime pcb = - 1 then pcb\<lparr>rtime := 0\<rparr> else pcb)
            in if rttest pcb = 0 then pcb\<lparr>rttest := ticks, rtseq := sg_seqno seg\<rparr> else pcb))"

text \<open>The header of the segment points into its first pbuf, so the adjustment of the payload
  at the end of the C function (from payload to tcphdr) is zero here: the payload of a
  created segment is its header.\<close>

definition tcp_output_segment :: "tcp_env \<Rightarrow> tcp_pcb \<Rightarrow> net \<Rightarrow> tcp_seg \<Rightarrow> (tcp_seg \<times> tcp_pcb \<times> net) option" where
  "tcp_output_segment ev pcb nt seg =
     (let dummy = LWIP_IS_DUMMY_SEGMENT seg;
          wnd = (if sg_flags seg AND TF_SEG_OPTS_WNDSCALE \<noteq> 0 then TCPWND_MIN16 (rcv_ann_wnd pcb)
                 else TCPWND_MIN16 (RCV_WND_SCALE pcb (rcv_ann_wnd pcb)));
          seg = seg\<lparr>sg_tcphdr := (sg_tcphdr seg)\<lparr>th_ackno := htonl (rcv_nxt pcb), th_wnd := htons wnd\<rparr>\<rparr>;
          pcb = (if dummy then pcb else pcb\<lparr>rcv_ann_right_edge := rcv_nxt pcb + rcv_ann_wnd pcb\<rparr>);
          ws = segment_options ev pcb (sys_now nt) (sg_flags seg);
          pcb = (if dummy then pcb else pcb\<lparr>ts_lastacksent := rcv_nxt pcb\<rparr>)
      in do {
        ps \<leftarrow> (case sg_p seg of [] \<Rightarrow> None | p # rest \<Rightarrow> map_option (\<lambda>p. p # rest) (put_opts p ws));
        let seg = seg\<lparr>sg_p := ps, sg_tos := tos pcb\<rparr>;
        let (pcb, seg) = dctcp_send pcb seg;
        (pcb, seg) \<leftarrow> tlt_out pcb seg;
        let pcb = start_timers pcb (tcp_ticks nt) seg;
        let seg = seg\<lparr>sg_tcphdr := (sg_tcphdr seg)\<lparr>th_chksum := 0\<rparr>\<rparr>;
        Some (seg, pcb, ip_output nt (sg_tcphdr seg) (sg_p seg) (sg_seqno seg < snd_nxt pcb) dummy (sg_tos seg))
      })"

text \<open>The surroundings at start-up.\<close>

definition net_zero :: net where
  "net_zero = \<lparr>tcp_ticks = 0, sys_now = 0, input_busy = False, nt_sent = [], nt_seg_free = [],
     nt_pbuf_free = [], nt_events = [], nt_pbufs = 0, nt_segs = 0\<rparr>"

section \<open>What allocation changes\<close>

text \<open>The allocation functions take from the preallocated buffer and segment and leave the
  rest of the pcb alone.\<close>

definition same_but_alloc :: "tcp_pcb \<Rightarrow> tcp_pcb \<Rightarrow> bool" where
  "same_but_alloc p p' = (\<exists>a b. p' = p\<lparr>seg_alloc := a, pbuf_alloc := b\<rparr>)"

lemma same_but_allocI:
  "same_but_alloc p p" "same_but_alloc p (p\<lparr>seg_alloc := a\<rparr>)" "same_but_alloc p (p\<lparr>pbuf_alloc := b\<rparr>)"
proof -
  have "p = p\<lparr>seg_alloc := seg_alloc p, pbuf_alloc := pbuf_alloc p\<rparr>" by simp
  then show "same_but_alloc p p" unfolding same_but_alloc_def by blast
  have "p\<lparr>seg_alloc := a\<rparr> = p\<lparr>seg_alloc := a, pbuf_alloc := pbuf_alloc p\<rparr>" by simp
  then show "same_but_alloc p (p\<lparr>seg_alloc := a\<rparr>)" unfolding same_but_alloc_def by blast
  have "p\<lparr>pbuf_alloc := b\<rparr> = p\<lparr>seg_alloc := seg_alloc p, pbuf_alloc := b\<rparr>" by simp
  then show "same_but_alloc p (p\<lparr>pbuf_alloc := b\<rparr>)" unfolding same_but_alloc_def by blast
qed

lemma same_but_alloc_trans:
  assumes "same_but_alloc p q" "same_but_alloc q r"
  shows "same_but_alloc p r"
proof -
  obtain a b where q: "q = p\<lparr>seg_alloc := a, pbuf_alloc := b\<rparr>" using assms(1) by (auto simp: same_but_alloc_def)
  obtain c d where r: "r = q\<lparr>seg_alloc := c, pbuf_alloc := d\<rparr>" using assms(2) by (auto simp: same_but_alloc_def)
  have "r = p\<lparr>seg_alloc := c, pbuf_alloc := d\<rparr>" by (simp add: q r)
  then show ?thesis unfolding same_but_alloc_def by blast
qed

lemma same_but_alloc_sel:
  assumes "same_but_alloc p q"
  shows "unsent q = unsent p" "unacked q = unacked p" "snd_lbb q = snd_lbb p" "snd_buf q = snd_buf p"
    "snd_queuelen q = snd_queuelen p" "unsent_oversize q = unsent_oversize p" "flags q = flags p"
    "max_unsent_len q = max_unsent_len p" "mss q = mss p" "last_unsent q = last_unsent p"
    "LWIP_TCP_OPT_LENGTH q f = LWIP_TCP_OPT_LENGTH p f" "snd_wnd q = snd_wnd p" "cwnd q = cwnd p"
    "lastack q = lastack p" "snd_nxt q = snd_nxt p" "last_unacked q = last_unacked p"
    "tcp_oversize_val q = tcp_oversize_val p" "snd_wnd_max q = snd_wnd_max p" "tlt q = tlt p"
    "private_state q = private_state p" "rcv_nxt q = rcv_nxt p" "dctcp q = dctcp p" "sack_permitted q = sack_permitted p"
  using assms unfolding same_but_alloc_def by (auto simp: LWIP_TCP_OPT_LENGTH_def)

lemma tx_pbuf_alloc_frame:
  assumes "tcp_tx_pbuf_alloc ev pcb nt len ty = (r, pcb', nt')"
  shows "same_but_alloc pcb pcb'" "nt_sent nt' = nt_sent nt" "nt_seg_free nt' = nt_seg_free nt"
    "seg_alloc pcb' = seg_alloc pcb" "tcp_ticks nt' = tcp_ticks nt" "sys_now nt' = sys_now nt"
proof -
  have "(\<exists>b. pcb' = pcb \<or> pcb' = pcb\<lparr>pbuf_alloc := b\<rparr>) \<and> (nt' = nt \<or> nt' = nt\<lparr>nt_pbufs := nt_pbufs nt + 1\<rparr>)"
    using assms by (auto simp: tcp_tx_pbuf_alloc_def Let_def split: list.splits option.splits)
  then show "same_but_alloc pcb pcb'" "nt_sent nt' = nt_sent nt" "nt_seg_free nt' = nt_seg_free nt"
    "seg_alloc pcb' = seg_alloc pcb" "tcp_ticks nt' = tcp_ticks nt" "sys_now nt' = sys_now nt"
    using same_but_allocI by auto
qed

lemma pbuf_prealloc_frame:
  assumes "tcp_pbuf_prealloc ev pcb nt len m a b = (r, pcb', nt')"
  shows "same_but_alloc pcb pcb'" "nt_sent nt' = nt_sent nt" "nt_seg_free nt' = nt_seg_free nt"
    "seg_alloc pcb' = seg_alloc pcb"
proof -
  obtain n r' where "tcp_tx_pbuf_alloc ev pcb nt n PBUF_RAM = (r', pcb', nt')"
    using assms by (auto simp: tcp_pbuf_prealloc_def Let_def split: prod.splits option.splits)
  from tx_pbuf_alloc_frame [OF this]
  show "same_but_alloc pcb pcb'" "nt_sent nt' = nt_sent nt" "nt_seg_free nt' = nt_seg_free nt"
    "seg_alloc pcb' = seg_alloc pcb" by auto
qed

lemma create_segment_frame:
  assumes "tcp_create_segment ev pcb nt ps fl s f = Some (r, pcb', nt')"
  shows "same_but_alloc pcb pcb'" "nt_sent nt' = nt_sent nt" "nt_seg_free nt' = nt_seg_free nt"
    "pbuf_alloc pcb' = pbuf_alloc pcb"
proof -
  have "(pcb' = pcb \<or> pcb' = pcb\<lparr>seg_alloc := []\<rparr>) \<and> nt_sent nt' = nt_sent nt \<and> nt_seg_free nt' = nt_seg_free nt"
    using assms
    by (auto simp: tcp_create_segment_def Let_def bind_eq_Some_conv split: list.splits option.splits if_splits)
  then show "same_but_alloc pcb pcb'" "nt_sent nt' = nt_sent nt" "nt_seg_free nt' = nt_seg_free nt"
    "pbuf_alloc pcb' = pbuf_alloc pcb"
    using same_but_allocI by auto
qed

end
