(* ===== verification/Tcp_Write.thy ===== *)
theory Tcp_Write
  imports Tcp_Out
begin

text \<open>
  Queueing application data: \<open>tcp_write_checks\<close> and \<open>tcp_write\<close> of
  \<^verbatim>\<open>src/src/vma/lwip/tcp_out.c\<close>, with the three phases the C code describes (fill the
  spare room of the last buffer, chain a buffer to the last segment, create
  segments) and the commit at the end.  last_unsent is a raw pointer: it is
  looked up in the unsent queue and, since nothing resets it when a segment
  moves on, also in the unacked queue; elsewhere it dangles.
\<close>

section \<open>Checks\<close>

definition tcp_write_checks :: "tcp_pcb \<Rightarrow> u32 \<Rightarrow> err \<times> tcp_pcb" where
  "tcp_write_checks pcb len =
     (if get_tcp_state pcb \<notin> {ESTABLISHED, CLOSE_WAIT, SYN_SENT, SYN_RCVD} then (ERR_CONN, pcb)
      else if len = 0 then (ERR_OK, pcb)
      else if len > snd_buf pcb then (ERR_MEM, set_flag pcb TF_NAGLEMEMERR)
      else if queue_full pcb (snd_queuelen pcb) then (ERR_MEM, set_flag pcb TF_NAGLEMEMERR)
      else (ERR_OK, pcb))"

section \<open>The last unsent segment\<close>

text \<open>A segment by address, with the question whether its next pointer is null.\<close>

definition find_seg :: "nat \<Rightarrow> tcp_seg list \<Rightarrow> (tcp_seg \<times> bool) option" where
  "find_seg a q = (case find (\<lambda>s. sg_addr s = a) q of None \<Rightarrow> None
     | Some s \<Rightarrow> Some (s, sg_addr (last q) = a))"

definition deref_seg :: "tcp_pcb \<Rightarrow> nat \<Rightarrow> (tcp_seg \<times> bool) option" where
  "deref_seg pcb a = (case find_seg a (unsent pcb) of Some r \<Rightarrow> Some r | None \<Rightarrow> find_seg a (unacked pcb))"

text \<open>Lines 493-497, for a queue that is not empty: the pointer that is used as the tail.\<close>

definition find_last_unsent :: "tcp_pcb \<Rightarrow> tcp_seg option" where
  "find_last_unsent pcb =
     (case last_unsent pcb of None \<Rightarrow> Some (last (unsent pcb))
      | Some a \<Rightarrow> do {
          (s, is_last) \<leftarrow> deref_seg pcb a;
          Some (if is_last then s else last (unsent pcb))
        })"

section \<open>Phases\<close>

definition write_mss :: "tcp_pcb \<Rightarrow> u16" where
  "write_mss pcb =
     (let m = ucast (min (ucast (mss pcb)) (snd_wnd_max pcb div 2)) :: u16;
          m = (if m \<noteq> 0 then m else mss pcb)
      in if pcb_has pcb TF_TIMESTAMP then max m (of_nat (LWIP_TCP_OPT_LEN_TS + 1)) else m)"

text \<open>Phase 1 and 2 on the tail segment (lines 498-576): bytes that go to the spare room,
  spare room left, the buffer to chain, its bytes and the queue length.\<close>

record write_tail =
  wt_used :: u16
  wt_oversize :: u16
  wt_concat :: "pbuf list"
  wt_pos :: nat
  wt_queuelen :: u32
  wt_seg :: "nat option"

definition copy_to :: "pbuf \<Rightarrow> int \<Rightarrow> u8 list \<Rightarrow> pbuf option" where
  "copy_to p off bs = map_option (\<lambda>b. p\<lparr>pb_buf := b\<rparr>) (buf_write (pb_buf p) (pb_off p + off) bs)"

definition write_phase12 ::
    "tcp_env \<Rightarrow> tcp_pcb \<Rightarrow> net \<Rightarrow> u16 \<Rightarrow> u8 list \<Rightarrow> tcp_seg \<Rightarrow> (write_tail option \<times> tcp_pcb \<times> net) option" where
  "write_phase12 ev pcb nt mss_local arg tail =
     (let len = length arg;
          space = mss_local - (sg_len tail + of_nat (LWIP_TCP_OPT_LENGTH pcb (sg_flags tail)));
          ov = unsent_oversize pcb;
          used = (if ov > 0 then (if unat ov < len then ov else of_nat len) else 0);
          pos = unat used;
          ov = ov - used;
          space = space - used;
          seg = (if unsent_oversize pcb > 0 then Some (sg_addr tail) else None);
          w = \<lparr>wt_used = used, wt_oversize = ov, wt_concat = [], wt_pos = pos,
               wt_queuelen = snd_queuelen pcb, wt_seg = seg\<rparr>
      in if pos < len \<and> space > 0 \<and> sg_len tail > 0 then
           (let seglen = (if unat space < len - pos then space else of_nat (len - pos))
            in case tcp_pbuf_prealloc ev pcb nt seglen space True True of
                 (None, pcb, nt) \<Rightarrow> Some (None, pcb, nt)
               | (Some (p, ov), pcb, nt) \<Rightarrow> do {
                   p \<leftarrow> copy_to p 0 (take (unat seglen) (drop pos arg));
                   Some (Some (w\<lparr>wt_oversize := ov, wt_concat := [p], wt_pos := pos + unat seglen,
                           wt_queuelen := snd_queuelen pcb + ucast (pbuf_clen [p]),
                           wt_seg := Some (sg_addr tail)\<rparr>), pcb, nt)
                 })
         else Some (Some w, pcb, nt))"

text \<open>One round of phase 3 (lines 591-648): the new segment with the number of bytes it
  takes, or None for a failed allocation or a queue that is too long.\<close>

definition write_segment ::
    "tcp_env \<Rightarrow> tcp_pcb \<Rightarrow> net \<Rightarrow> u16 \<Rightarrow> u8 \<Rightarrow> nat \<Rightarrow> u8 list \<Rightarrow> nat \<Rightarrow> u32 \<Rightarrow> u16 \<Rightarrow> bool
     \<Rightarrow> ((tcp_seg \<times> nat) option \<times> u32 \<times> u16 \<times> tcp_pcb \<times> net) option" where
  "write_segment ev pcb nt mss_local optflags optlen arg pos queuelen ov first =
     (let left = length arg - pos;
          max_len = mss_local - of_nat optlen;
          seglen = (if left > unat max_len then max_len else of_nat left)
      in case tcp_pbuf_prealloc ev pcb nt (seglen + of_nat optlen) max_len True first of
           (None, pcb, nt) \<Rightarrow> Some (None, queuelen, ov, pcb, nt)
         | (Some (p, ov), pcb, nt) \<Rightarrow> do {
             p \<leftarrow> copy_to p (int optlen) (take (unat seglen) (drop pos arg));
             let queuelen = queuelen + ucast (pbuf_clen [p]);
             if queuelen > ucast (max_unsent_len pcb) \<or> queuelen > TCP_SNDQUEUELEN_OVERFLOW
             then Some (None, queuelen, ov, pcb, tcp_tx_pbuf_free nt [p])
             else do {
               (s, pcb, nt) \<leftarrow> tcp_create_segment ev pcb nt [p] 0 (snd_lbb pcb + of_nat pos) optflags;
               Some (map_option (\<lambda>seg. (seg, unat seglen)) s, queuelen, ov, pcb, nt)
             }
           })"

text \<open>The loop.  Every round queues one buffer and the loop gives up when the queue is longer
  than max_unsent_len, so that number plus two rounds are enough.  A failure gives the
  segments created so far.\<close>

fun write_segments ::
    "nat \<Rightarrow> tcp_env \<Rightarrow> tcp_pcb \<Rightarrow> net \<Rightarrow> u16 \<Rightarrow> u8 \<Rightarrow> nat \<Rightarrow> u8 list \<Rightarrow> nat \<Rightarrow> u32 \<Rightarrow> u16 \<Rightarrow> tcp_seg list
     \<Rightarrow> (bool \<times> tcp_seg list \<times> u32 \<times> u16 \<times> tcp_pcb \<times> net) option" where
  "write_segments fuel ev pcb nt mss_local optflags optlen arg pos queuelen ov queue =
     (if pos < length arg then
        (case fuel of 0 \<Rightarrow> None
         | Suc n \<Rightarrow>
             (case write_segment ev pcb nt mss_local optflags optlen arg pos queuelen ov (queue = []) of
                None \<Rightarrow> None
              | Some (None, queuelen, ov, pcb, nt) \<Rightarrow> Some (False, queue, queuelen, ov, pcb, nt)
              | Some (Some (seg, k), queuelen, ov, pcb, nt) \<Rightarrow>
                  write_segments n ev pcb nt mss_local optflags optlen arg (pos + k) queuelen ov (queue @ [seg])))
      else Some (True, queue, queuelen, ov, pcb, nt))"

declare write_segments.simps [simp del]

section \<open>Commit\<close>

definition on_seg :: "nat \<Rightarrow> (tcp_seg \<Rightarrow> tcp_seg) \<Rightarrow> tcp_pcb \<Rightarrow> tcp_pcb" where
  "on_seg a f pcb = pcb\<lparr>unsent := map (\<lambda>s. if sg_addr s = a then f s else s) (unsent pcb),
     unacked := map (\<lambda>s. if sg_addr s = a then f s else s) (unacked pcb)\<rparr>"

text \<open>Filling the spare room of the last buffer (lines 660-674).\<close>

fun fill_tail :: "pbuf list \<Rightarrow> u8 list \<Rightarrow> pbuf list option" where
  "fill_tail [] bs = Some []"
| "fill_tail [p] bs =
     map_option (\<lambda>p. [p\<lparr>pb_tot_len := pb_tot_len p + of_nat (length bs), pb_len := pb_len p + of_nat (length bs)\<rparr>])
       (copy_to p (int (unat (pb_len p))) bs)"
| "fill_tail (p # ps) bs = map_option (\<lambda>ps. p\<lparr>pb_tot_len := pb_tot_len p + of_nat (length bs)\<rparr> # ps) (fill_tail ps bs)"

definition commit_tail :: "tcp_seg \<Rightarrow> write_tail \<Rightarrow> u8 list \<Rightarrow> tcp_seg option" where
  "commit_tail tail w arg = do {
     tail \<leftarrow> (if wt_used w > 0
            then map_option (\<lambda>ps. tail\<lparr>sg_p := ps, sg_len := sg_len tail + wt_used w\<rparr>)
                   (fill_tail (sg_p tail) (take (unat (wt_used w)) arg))
            else Some tail);
     Some (if wt_concat w \<noteq> []
           then tail\<lparr>sg_p := pbuf_cat (sg_p tail) (wt_concat w),
                   sg_len := sg_len tail + ucast (pb_tot_len (hd (wt_concat w)))\<rparr>
           else tail)
   }"

text \<open>Linking the new segments (lines 699-704): behind the tail, wherever it is queued.\<close>

definition link_queue :: "tcp_pcb \<Rightarrow> nat option \<Rightarrow> tcp_seg list \<Rightarrow> tcp_pcb" where
  "link_queue pcb tail queue =
     (case tail of None \<Rightarrow> pcb\<lparr>unsent := queue\<rparr>
      | Some a \<Rightarrow> if a \<in> sg_addr ` set (unsent pcb) then pcb\<lparr>unsent := unsent pcb @ queue\<rparr>
                  else pcb\<lparr>unacked := unacked pcb @ queue\<rparr>)"

definition push_flag :: "tcp_seg \<Rightarrow> tcp_seg" where
  "push_flag s = s\<lparr>sg_tcphdr := TCPH_SET_FLAG (sg_tcphdr s) TCP_PSH\<rparr>"

definition commit_pcb :: "tcp_pcb \<Rightarrow> nat option \<Rightarrow> tcp_seg list \<Rightarrow> nat \<Rightarrow> u32 \<Rightarrow> u16 \<Rightarrow> nat option \<Rightarrow> tcp_pcb" where
  "commit_pcb pcb tail queue len queuelen ov seg =
     (let pcb = link_queue pcb tail queue
      in pcb\<lparr>unsent_oversize := ov, last_unsent := seg, snd_lbb := snd_lbb pcb + of_nat len,
             snd_buf := snd_buf pcb - of_nat len, snd_queuelen := queuelen\<rparr>)"

definition write_commit :: "tcp_pcb \<Rightarrow> tcp_seg option \<Rightarrow> write_tail \<Rightarrow> u8 list \<Rightarrow> tcp_seg list \<Rightarrow> u32 \<Rightarrow> u16 \<Rightarrow> tcp_pcb option" where
  "write_commit pcb tail w arg queue queuelen ov = do {
     pcb \<leftarrow> (case tail of None \<Rightarrow> Some pcb
             | Some t \<Rightarrow> do { t' \<leftarrow> commit_tail t w arg; Some (on_seg (sg_addr t) (\<lambda>_. t') pcb) });
     let seg = (if queue \<noteq> [] then Some (sg_addr (last queue)) else wt_seg w);
     let pcb = commit_pcb pcb (map_option sg_addr tail) queue (length arg) queuelen ov seg;
     Some (case seg of None \<Rightarrow> pcb | Some a \<Rightarrow> on_seg a push_flag pcb)
   }"

definition write_fail :: "tcp_pcb \<Rightarrow> net \<Rightarrow> pbuf list \<Rightarrow> tcp_seg list \<Rightarrow> err \<times> tcp_pcb \<times> net" where
  "write_fail pcb nt concat_p queue =
     (ERR_MEM, set_flag pcb TF_NAGLEMEMERR, tcp_tx_segs_free (tcp_tx_pbuf_free nt concat_p) queue)"

section \<open>tcp_write\<close>

definition note_small :: "tcp_pcb \<Rightarrow> nat \<Rightarrow> bool \<Rightarrow> tcp_pcb" where
  "note_small pcb len is_dummy =
     (if len < unat (mss pcb) \<and> \<not> is_dummy
      then pcb\<lparr>snd_sml_add := (case unacked pcb of [] \<Rightarrow> 0 | s # _ \<Rightarrow> ucast (sg_len s)) + (snd_nxt pcb - lastack pcb)\<rparr>
      else pcb)"

definition no_tail :: "tcp_pcb \<Rightarrow> write_tail" where
  "no_tail pcb = \<lparr>wt_used = 0, wt_oversize = 0, wt_concat = [], wt_pos = 0, wt_queuelen = snd_queuelen pcb, wt_seg = None\<rparr>"

text \<open>From phase 3 to the end (lines 585-745), after phases 1 and 2 gave w for the tail.\<close>

definition write_finish ::
    "tcp_env \<Rightarrow> tcp_pcb \<Rightarrow> net \<Rightarrow> u16 \<Rightarrow> u8 \<Rightarrow> u8 list \<Rightarrow> tcp_seg option \<Rightarrow> write_tail \<Rightarrow> (err \<times> tcp_pcb \<times> net) option" where
  "write_finish ev pcb nt mss_local optflags arg tail w = do {
     (ok, queue, queuelen, ov, pcb, nt) \<leftarrow>
       write_segments (unat (max_unsent_len pcb) + 2) ev pcb nt mss_local optflags (LWIP_TCP_OPT_LENGTH pcb optflags)
         arg (wt_pos w) (wt_queuelen w) (wt_oversize w) [];
     if ok then do {
       pcb \<leftarrow> write_commit pcb tail w arg queue queuelen ov;
       Some (ERR_OK, pcb, nt)
     }
     else Some (write_fail pcb nt (wt_concat w) queue)
   }"

definition write_optflags :: "tcp_pcb \<Rightarrow> bool \<Rightarrow> u8" where
  "write_optflags pcb is_dummy = (if is_dummy then TF_SEG_OPTS_DUMMY_MSG else 0)
     OR (if pcb_has pcb TF_TIMESTAMP then TF_SEG_OPTS_TS else 0)"

text \<open>Everything behind the checks.\<close>

definition write_data :: "tcp_env \<Rightarrow> tcp_pcb \<Rightarrow> net \<Rightarrow> u8 list \<Rightarrow> bool \<Rightarrow> (err \<times> tcp_pcb \<times> net) option" where
  "write_data ev pcb nt arg is_dummy = do {
     tail \<leftarrow> (if unsent pcb = [] then Some None else map_option Some (find_last_unsent pcb));
     let pcb = pcb\<lparr>last_unsent := map_option sg_addr tail\<rparr>;
     (r, pcb, nt) \<leftarrow> (case tail of None \<Rightarrow> Some (Some (no_tail pcb), pcb, nt)
                      | Some t \<Rightarrow> write_phase12 ev pcb nt (write_mss pcb) arg t);
     case r of None \<Rightarrow> Some (write_fail pcb nt [] [])
     | Some w \<Rightarrow> write_finish ev pcb nt (write_mss pcb) (write_optflags pcb is_dummy) arg tail w
   }"

definition tcp_write :: "tcp_env \<Rightarrow> tcp_pcb \<Rightarrow> net \<Rightarrow> bool \<Rightarrow> u8 list \<Rightarrow> bool \<Rightarrow> (err \<times> tcp_pcb \<times> net) option" where
  "tcp_write ev pcb nt is_null arg is_dummy =
     (let pcb = note_small pcb (length arg) is_dummy
      in if is_null then Some (ERR_ARG, pcb, nt)
         else case tcp_write_checks pcb (of_nat (length arg)) of
                (e, pcb) \<Rightarrow> if e \<noteq> ERR_OK then Some (e, pcb, nt) else write_data ev pcb nt arg is_dummy)"

section \<open>A failed write changes nothing\<close>

lemma write_phase12_frame:
  assumes "write_phase12 ev pcb nt m arg t = Some (r, pcb', nt')"
  shows "same_but_alloc pcb pcb'" "nt_sent nt' = nt_sent nt"
proof -
  have "(pcb' = pcb \<and> nt' = nt) \<or> (\<exists>l s x. tcp_pbuf_prealloc ev pcb nt l s True True = (x, pcb', nt'))"
    using assms by (auto simp: write_phase12_def Let_def bind_eq_Some_conv split: if_splits option.splits prod.splits)
  then show "same_but_alloc pcb pcb'" "nt_sent nt' = nt_sent nt"
    using same_but_allocI(1) by (auto dest: pbuf_prealloc_frame)
qed

lemma write_segment_frame:
  assumes "write_segment ev pcb nt m f ol arg pos ql ov b = Some (r, ql', ov', pcb', nt')"
  shows "same_but_alloc pcb pcb'" "nt_sent nt' = nt_sent nt"
proof -
  define x where "x = (let left = length arg - pos; max_len = m - of_nat ol;
      seglen = (if left > unat max_len then max_len else of_nat left)
      in tcp_pbuf_prealloc ev pcb nt (seglen + of_nat ol) max_len True b)"
  obtain y p1 n1 where x: "x = (y, p1, n1)" by (cases x) auto
  have f1: "same_but_alloc pcb p1" "nt_sent n1 = nt_sent nt"
    using x unfolding x_def Let_def by (auto dest: pbuf_prealloc_frame)
  have "(pcb' = p1 \<and> nt_sent nt' = nt_sent n1)
      \<or> (\<exists>ps sq z. tcp_create_segment ev p1 n1 ps 0 sq f = Some (z, pcb', nt'))"
    using assms x
    by (auto simp: write_segment_def x_def Let_def bind_eq_Some_conv split: if_splits option.splits prod.splits)
  then show "same_but_alloc pcb pcb'" "nt_sent nt' = nt_sent nt"
    using f1 by (auto dest: create_segment_frame same_but_alloc_trans)
qed

lemma write_segments_frame:
  assumes "write_segments n ev pcb nt m f ol arg pos ql ov q = Some (ok, q', ql', ov', pcb', nt')"
  shows "same_but_alloc pcb pcb' \<and> nt_sent nt' = nt_sent nt"
  using assms
proof (induction n arbitrary: pcb nt pos ql ov q)
  case 0
  then show ?case using same_but_allocI(1) by (subst (asm) write_segments.simps) (auto split: if_splits)
next
  case (Suc n)
  show ?case
  proof (cases "pos < length arg")
    case True
    obtain r ql1 ov1 p1 n1 where w:
      "write_segment ev pcb nt m f ol arg pos ql ov (q = []) = Some (r, ql1, ov1, p1, n1)"
      using Suc.prems True by (subst (asm) write_segments.simps) (auto split: option.splits prod.splits)
    note f = write_segment_frame [OF w]
    show ?thesis
    proof (cases r)
      case None
      then show ?thesis using Suc.prems True w f by (subst (asm) write_segments.simps) auto
    next
      case (Some sk)
      obtain sg k where sk: "sk = (sg, k)" by (cases sk)
      have "same_but_alloc p1 pcb' \<and> nt_sent nt' = nt_sent n1"
        using Suc.IH [of p1 n1 "pos + k" ql1 ov1 "q @ [sg]"] Suc.prems True w Some sk
        by (subst (asm) write_segments.simps) auto
      then show ?thesis using f same_but_alloc_trans by auto
    qed
  next
    case False
    then show ?thesis using Suc.prems same_but_allocI(1) by (subst (asm) write_segments.simps) auto
  qed
qed

lemma write_checks_frame:
  assumes "tcp_write_checks pcb len = (e, pcb')"
  shows "(pcb' = pcb \<or> pcb' = set_flag pcb TF_NAGLEMEMERR) \<and> (e = ERR_OK \<longrightarrow> pcb' = pcb)"
  using assms by (auto simp: tcp_write_checks_def split: if_splits)

lemma write_finish_error:
  assumes "write_finish ev pcb nt m f arg t w = Some (e, pcb', nt')" "e \<noteq> ERR_OK"
  obtains p n x y where "same_but_alloc pcb p" "nt_sent n = nt_sent nt" "(e, pcb', nt') = write_fail p n x y"
proof -
  obtain ok q ql ov p n where r: "write_segments (unat (max_unsent_len pcb) + 2) ev pcb nt m f
      (LWIP_TCP_OPT_LENGTH pcb f) arg (wt_pos w) (wt_queuelen w) (wt_oversize w) [] = Some (ok, q, ql, ov, p, n)"
    using assms(1) by (auto simp: write_finish_def bind_eq_Some_conv)
  have "(e, pcb', nt') = write_fail p n (wt_concat w) q"
    using assms r by (cases ok) (auto simp: write_finish_def bind_eq_Some_conv)
  with write_segments_frame [OF r] that show thesis by blast
qed

lemma write_data_error:
  assumes "write_data ev pcb nt arg d = Some (e, pcb', nt')" "e \<noteq> ERR_OK"
  obtains a p n x y where "same_but_alloc (pcb\<lparr>last_unsent := a\<rparr>) p" "nt_sent n = nt_sent nt"
    "(e, pcb', nt') = write_fail p n x y"
proof -
  obtain t where t: "(if unsent pcb = [] then Some None else map_option Some (find_last_unsent pcb)) = Some t"
    using assms(1) by (auto simp: write_data_def bind_eq_Some_conv)
  let ?p = "pcb\<lparr>last_unsent := map_option sg_addr t\<rparr>"
  obtain r p1 n1 where r: "(case t of None \<Rightarrow> Some (Some (no_tail ?p), ?p, nt)
      | Some t \<Rightarrow> write_phase12 ev ?p nt (write_mss ?p) arg t) = Some (r, p1, n1)"
    and c: "(case r of None \<Rightarrow> Some (write_fail p1 n1 [] [])
      | Some w \<Rightarrow> write_finish ev p1 n1 (write_mss p1) (write_optflags p1 d) arg t w) = Some (e, pcb', nt')"
    using assms(1) t by (auto simp: write_data_def Let_def bind_eq_Some_conv)
  have f1: "same_but_alloc ?p p1" "nt_sent n1 = nt_sent nt"
    using r same_but_allocI(1) by (auto split: option.splits dest: write_phase12_frame)
  show thesis
  proof (cases r)
    case None
    then have "(e, pcb', nt') = write_fail p1 n1 [] []" using c by simp
    with f1 that show thesis by blast
  next
    case (Some w)
    then have "write_finish ev p1 n1 (write_mss p1) (write_optflags p1 d) arg t w = Some (e, pcb', nt')"
      using c by simp
    from write_finish_error [OF this assms(2)]
    obtain p n x y where "same_but_alloc p1 p" "nt_sent n = nt_sent n1" "(e, pcb', nt') = write_fail p n x y" .
    then show thesis using f1 that same_but_alloc_trans by metis
  qed
qed

text \<open>tcp_write is a transaction: whatever the error it returns, the queues, the sequence
  number of the next byte, the free buffer space, the queue length and the spare room of
  the last buffer are as before, and nothing was sent.\<close>

theorem tcp_write_error_unchanged:
  assumes "tcp_write ev pcb nt is_null arg is_dummy = Some (e, pcb', nt')" "e \<noteq> ERR_OK"
  shows "unsent pcb' = unsent pcb \<and> unacked pcb' = unacked pcb \<and> snd_lbb pcb' = snd_lbb pcb
    \<and> snd_buf pcb' = snd_buf pcb \<and> snd_queuelen pcb' = snd_queuelen pcb
    \<and> unsent_oversize pcb' = unsent_oversize pcb \<and> nt_sent nt' = nt_sent nt"
proof -
  define p0 where "p0 = note_small pcb (length arg) is_dummy"
  obtain c p1 where c: "tcp_write_checks p0 (of_nat (length arg)) = (c, p1)" by fastforce
  have p0: "unsent p0 = unsent pcb" "unacked p0 = unacked pcb" "snd_lbb p0 = snd_lbb pcb" "snd_buf p0 = snd_buf pcb"
    "snd_queuelen p0 = snd_queuelen pcb" "unsent_oversize p0 = unsent_oversize pcb"
    by (simp_all add: p0_def note_small_def)
  show ?thesis
  proof (cases "is_null \<or> c \<noteq> ERR_OK")
    case True
    then have "(pcb' = p0 \<or> pcb' = p1) \<and> nt' = nt"
      using assms(1) c by (auto simp: tcp_write_def p0_def Let_def split: if_splits)
    then show ?thesis using p0 write_checks_frame [OF c] by (auto simp: set_flag_def)
  next
    case False
    then have "write_data ev p0 nt arg is_dummy = Some (e, pcb', nt')"
      using assms(1) c write_checks_frame [OF c] by (simp add: tcp_write_def p0_def Let_def)
    then obtain a p n x y where "same_but_alloc (p0\<lparr>last_unsent := a\<rparr>) p" "nt_sent n = nt_sent nt"
      "(e, pcb', nt') = write_fail p n x y" by (rule write_data_error [OF _ assms(2)])
    then show ?thesis
      using p0 same_but_alloc_sel [of "p0\<lparr>last_unsent := a\<rparr>" p] by (simp add: write_fail_def set_flag_def)
  qed
qed

theorem tcp_write_error_unchanged_witness:
  "\<exists>pcb' nt'. tcp_write ex_env (pcb_zero\<lparr>private_state := ESTABLISHED, snd_buf := 10\<rparr>)
      net_zero False [1, 2, 3] False = Some (ERR_MEM, pcb', nt')
    \<and> unsent pcb' = [] \<and> snd_buf pcb' = 10"
  using tcp_write_error_unchanged [of ex_env "pcb_zero\<lparr>private_state := ESTABLISHED, snd_buf := 10\<rparr>"
      net_zero False "[1, 2, 3]" False ERR_MEM]
  by (simp add: tcp_write_def note_small_def pcb_zero_def tcp_write_checks_def get_tcp_state_def queue_full_def set_flag_def)

end
