(* ===== verification/Tcp_Write_Ok.thy ===== *)
theory Tcp_Write_Ok
  imports Tcp_Write
begin

text \<open>
  What a successful \<open>tcp_write\<close> does: the bytes the application gave are appended to
  the byte stream the unsent segments carry, whether they go to spare room, to a
  chained buffer or to new segments.  The stream of a segment is what stands
  behind its header in its buffer chain, so the lemmas are about the bytes in
  memory, not about lengths.
\<close>

section \<open>The byte stream of a queue\<close>

definition seg_hlen :: "tcp_seg \<Rightarrow> nat" where
  "seg_hlen s = 4 * unat (TCPH_HDRLEN (sg_tcphdr s))"

definition seg_payload :: "tcp_seg \<Rightarrow> u8 list" where
  "seg_payload s = drop (seg_hlen s) (chain_data (sg_p s))"

definition stream :: "tcp_seg list \<Rightarrow> u8 list" where
  "stream q = concat (map seg_payload q)"

text \<open>The segments carry consecutive sequence numbers from b up to e.\<close>

fun tiles :: "u32 \<Rightarrow> tcp_seg list \<Rightarrow> u32 \<Rightarrow> bool" where
  "tiles b [] e = (b = e)"
| "tiles b (s # ss) e = (sg_seqno s = b \<and> tiles (b + ucast (sg_len s)) ss e)"

lemma stream_simps [simp]:
  "stream [] = []" "stream (s # q) = seg_payload s @ stream q" "stream (a @ b) = stream a @ stream b"
  by (simp_all add: stream_def)

lemma tiles_append: "tiles b (x @ y) e = (\<exists>m. tiles b x m \<and> tiles m y e)"
  by (induction x arbitrary: b) auto

section \<open>Buffers with room\<close>

text \<open>A buffer that can hold a header in front of the payload and n bytes behind it.\<close>

definition roomy :: "nat \<Rightarrow> pbuf \<Rightarrow> bool" where
  "roomy n p = (int TCP_HLEN \<le> pb_off p \<and> nat (pb_off p) + n \<le> length (pb_buf p))"

definition room :: "tcp_env \<Rightarrow> tcp_pcb \<Rightarrow> nat \<Rightarrow> bool" where
  "room ev pcb n = ((\<forall>k p. external_tcp_tx_pbuf_alloc ev k = Some p \<longrightarrow> roomy n p)
     \<and> list_all (roomy n) (pbuf_alloc pcb))"

lemma roomy_lens [simp]:
  "roomy n (p\<lparr>pb_len := l\<rparr>) = roomy n p" "roomy n (p\<lparr>pb_tot_len := t\<rparr>) = roomy n p"
  "roomy n (p\<lparr>pb_type := ty\<rparr>) = roomy n p" "roomy n (p\<lparr>pb_ref := r\<rparr>) = roomy n p"
  "roomy n (p\<lparr>pb_flags := g\<rparr>) = roomy n p"
  by (simp_all add: roomy_def)

lemma tx_alloc_room:
  assumes "tcp_tx_pbuf_alloc ev pcb nt len ty = (r, pcb', nt')" "room ev pcb n"
  shows "room ev pcb' n" "r = Some p \<Longrightarrow> roomy n p \<and> pb_len p = len"
  using assms by (auto simp: tcp_tx_pbuf_alloc_def room_def Let_def split: list.splits option.splits)

lemma prealloc_room:
  assumes "tcp_pbuf_prealloc ev pcb nt len m a b = (r, pcb', nt')" "room ev pcb n"
  shows "room ev pcb' n" "r = Some (p, ov) \<Longrightarrow> roomy n p \<and> pb_len p = len \<and> pb_tot_len p = ucast len"
proof -
  obtain l r' where t: "tcp_tx_pbuf_alloc ev pcb nt l PBUF_RAM = (r', pcb', nt')"
    and r: "r = map_option (\<lambda>p. (p\<lparr>pb_len := len, pb_tot_len := ucast len\<rparr>, pb_len p - len)) r'"
    using assms(1) by (auto simp: tcp_pbuf_prealloc_def Let_def split: prod.splits option.splits)
  show "room ev pcb' n" by (rule tx_alloc_room(1) [OF t assms(2)])
  show "roomy n p \<and> pb_len p = len \<and> pb_tot_len p = ucast len" if "r = Some (p, ov)"
    using r that tx_alloc_room(2) [OF t assms(2)] by (cases r') auto
qed

lemma copy_to_data:
  assumes "copy_to p (int k) bs = Some q" "0 \<le> pb_off p" "unat (pb_len p) = k + length bs"
  shows "pb_data q = take k (pb_data p) @ bs" "pb_off q = pb_off p" "length (pb_buf q) = length (pb_buf p)"
    "pb_len q = pb_len p" "pb_tot_len q = pb_tot_len p" "nat (pb_off p) + k + length bs \<le> length (pb_buf p)"
proof -
  define o' where "o' = nat (pb_off p)"
  have o': "pb_off p = int o'" "nat (int o' + int k) = o' + k" "0 \<le> int o' + int k"
    using assms(2) by (simp_all add: o'_def nat_int_add)
  have b: "o' + k + length bs \<le> length (pb_buf p)"
    and q: "q = p\<lparr>pb_buf := take (o' + k) (pb_buf p) @ bs @ drop (o' + k + length bs) (pb_buf p)\<rparr>"
    using assms(1) by (auto simp: copy_to_def buf_write_def o' split: if_splits)
  have "drop o' (take (o' + k) (pb_buf p)) = take k (drop o' (pb_buf p))" by (simp add: drop_take)
  then show "pb_data q = take k (pb_data p) @ bs"
    using b assms(3) by (simp add: q pb_data_def o')
  show "pb_off q = pb_off p" "length (pb_buf q) = length (pb_buf p)" "pb_len q = pb_len p" "pb_tot_len q = pb_tot_len p"
    using b by (simp_all add: q)
  show "nat (pb_off p) + k + length bs \<le> length (pb_buf p)" using b by (simp add: o'_def)
qed

lemma reveal_header:
  assumes "roomy n p" "unat (pb_len p) \<le> n" "unat (pb_len p) + 20 < 65536"
  shows "pb_data (fst (pbuf_header p (int TCP_HLEN))) = take 20 (drop (nat (pb_off p) - 20) (pb_buf p)) @ pb_data p"
    "unat (pb_len (fst (pbuf_header p (int TCP_HLEN)))) = unat (pb_len p) + 20"
    "pb_off (fst (pbuf_header p (int TCP_HLEN))) = pb_off p - 20" "20 \<le> pb_off p"
    "nat (pb_off (fst (pbuf_header p (int TCP_HLEN)))) + unat (pb_len p) + 20 \<le> length (pb_buf p)"
    "pb_buf (fst (pbuf_header p (int TCP_HLEN))) = pb_buf p"
    "pb_tot_len (fst (pbuf_header p (int TCP_HLEN))) = pb_tot_len p + 20"
proof -
  define o' where "o' = nat (pb_off p) - 20"
  have o': "pb_off p = int o' + 20" "nat (int o' + 20) = o' + 20" "o' + 20 + n \<le> length (pb_buf p)"
    using assms(1) by (auto simp: o'_def roomy_def TCP_HLEN_def)
  have l: "unat (pb_len p + 20) = unat (pb_len p) + 20"
    using assms(3) by (simp add: unat_word_ariths(1))
  have h: "fst (pbuf_header p (int TCP_HLEN)) = p\<lparr>pb_off := int o', pb_len := pb_len p + 20, pb_tot_len := pb_tot_len p + 20\<rparr>"
    by (simp add: pbuf_header_def TCP_HLEN_def o')
  have "take (unat (pb_len p) + 20) (drop o' (pb_buf p))
      = take 20 (drop o' (pb_buf p)) @ take (unat (pb_len p)) (drop (o' + 20) (pb_buf p))"
    by (simp add: add.commute [of "unat (pb_len p)"] take_add add.commute [of o'])
  then show "pb_data (fst (pbuf_header p (int TCP_HLEN))) = take 20 (drop (nat (pb_off p) - 20) (pb_buf p)) @ pb_data p"
    by (simp add: h pb_data_def l o')
  show "unat (pb_len (fst (pbuf_header p (int TCP_HLEN)))) = unat (pb_len p) + 20"
    "pb_off (fst (pbuf_header p (int TCP_HLEN))) = pb_off p - 20" "20 \<le> pb_off p"
    "nat (pb_off (fst (pbuf_header p (int TCP_HLEN)))) + unat (pb_len p) + 20 \<le> length (pb_buf p)"
    "pb_buf (fst (pbuf_header p (int TCP_HLEN))) = pb_buf p"
    "pb_tot_len (fst (pbuf_header p (int TCP_HLEN))) = pb_tot_len p + 20"
    using o' assms(2) l by (simp_all add: h)
qed

section \<open>A new segment\<close>

definition seg_ok :: "tcp_seg \<Rightarrow> bool" where
  "seg_ok s = (sg_p s \<noteq> [] \<and> chain_ok (sg_p s) \<and> tot (sg_p s) = seg_hlen s + unat (sg_len s))"

lemma HDRLEN_FLAGS_SET_HDRLEN:
  assumes "n < 16" "drop_bit 12 f = (0 :: u16)"
  shows "TCPH_HDRLEN (TCPH_HDRLEN_FLAGS_SET h (of_nat n) f) = of_nat n"
proof -
  have "n \<in> {0,1,2,3,4,5,6,7,8,9,10,11,12,13,14,15}" using assms(1) unfolding insert_iff empty_iff by presburger
  then have "drop_bit 12 (push_bit 12 (of_nat n :: u16)) = of_nat n" by (elim insertE) simp_all
  then show ?thesis
    by (simp add: TCPH_HDRLEN_def TCPH_HDRLEN_FLAGS_SET_def drop_bit_or assms(2))
qed

lemma fill_segment_ok:
  assumes "fill_segment pcb sg [p] fl sq f = Some s" "LWIP_TCP_OPT_LENGTH pcb f = ol" "drop_bit 12 fl = 0"
    "roomy n p" "unat (pb_len p) \<le> n" "unat (pb_len p) + 20 < 65536" "pb_tot_len p = ucast (pb_len p)"
    "pb_data p = xs @ bs" "length xs = ol"
  shows "seg_ok s" "seg_payload s = bs" "sg_seqno s = sq" "sg_len s = of_nat (length bs)"
    "sg_p s = [fst (pbuf_header p (int TCP_HLEN))]"
proof -
  note r = reveal_header [OF assms(4-6)]
  have s: "sg_p s = [fst (pbuf_header p (int TCP_HLEN))]" "sg_seqno s = sq" "sg_len s = ucast (pb_tot_len p - of_nat ol)"
    "TCPH_HDRLEN (sg_tcphdr s) = of_nat (5 + ol div 4)"
    using assms(1,2) opt_length_fits [of pcb f]
    by (auto simp: fill_segment_def Let_def HDRLEN_FLAGS_SET_HDRLEN [OF _ assms(3)] simp del: of_nat_add)
  have ol: "4 dvd ol" "ol \<le> 40" using opt_length_fits [of pcb f] assms(2) by auto
  then have h: "seg_hlen s = 20 + ol"
    using s(4) by (simp add: seg_hlen_def unat_of_nat16 del: of_nat_add)
  have pl: "unat (pb_len p) = ol + length bs"
    using assms(4,5,8,9) length_pb_data [of p] by (simp add: roomy_def)
  have "unat (pb_tot_len p - of_nat ol) = length bs"
    using assms(6,7) pl ol by (subst unat_minus32) (simp_all add: unat_of_nat32)
  then have sl: "unat (sg_len s) = length bs"
    using assms(6) pl unfolding s(3) by (simp add: unsigned_ucast_eq take_bit_nat_eq_self)
  have "unat (pb_tot_len p + 20) = unat (pb_len p) + 20" using assms(6,7) by (subst unat_plus32) simp_all
  then have "chain_ok (sg_p s)"
    using r assms(7) by (simp add: s(1))
  then show "seg_ok s" using r(2) pl h sl by (simp add: seg_ok_def s(1))
  have "length (take 20 (drop (nat (pb_off p) - 20) (pb_buf p))) = 20"
    using assms(4) by (auto simp: roomy_def TCP_HLEN_def)
  then show "seg_payload s = bs" using r(1) assms(8,9) h by (simp add: seg_payload_def s(1) del: length_take length_drop)
  show "sg_seqno s = sq" "sg_p s = [fst (pbuf_header p (int TCP_HLEN))]" by (fact s)+
  show "sg_len s = of_nat (length bs)" unfolding sl [symmetric] by simp
qed

lemma create_segment_fills:
  assumes "tcp_create_segment ev pcb nt [p] fl sq f = Some (Some s, pcb', nt')"
  shows "\<exists>sg. fill_segment pcb sg [p] fl sq f = Some s"
  using assms by (auto simp: tcp_create_segment_def Let_def bind_eq_Some_conv split: list.splits option.splits)

lemma write_segment_ok:
  assumes "write_segment ev pcb nt m f ol arg pos ql ov b = Some (Some (s, k), ql', ov', pcb', nt')"
    and ol: "LWIP_TCP_OPT_LENGTH pcb f = ol" "ol < unat m" and m: "unat m + 20 < 65536"
    and pos: "pos < length arg" and rm: "room ev pcb (unat m)"
  shows "seg_ok s \<and> seg_payload s = take k (drop pos arg) \<and> sg_seqno s = snd_lbb pcb + of_nat pos
    \<and> sg_len s = of_nat k \<and> 0 < k \<and> pos + k \<le> length arg \<and> k < 65536 \<and> room ev pcb' (unat m)"
proof -
  define max_len where "max_len = m - of_nat ol"
  define seglen where "seglen = (if length arg - pos > unat max_len then max_len else of_nat (length arg - pos))"
  have ml: "unat max_len = unat m - ol"
    using ol m unfolding max_len_def by (subst unat_minus_le) (simp_all add: unat_of_nat16 word_le_nat_alt)
  have sl: "unat seglen = min (length arg - pos) (unat m - ol)"
    using m ml by (auto simp: seglen_def unat_of_nat16 min_def)
  have len: "unat (seglen + of_nat ol) = ol + unat seglen"
    using sl ol m by (subst unat_word_ariths(1)) (simp add: unat_of_nat16)
  have le: "ol + unat seglen \<le> unat m" unfolding sl using ol by linarith
  obtain p p2 ov2 pcb1 n1 n2 ql2 where
    pre: "tcp_pbuf_prealloc ev pcb nt (seglen + of_nat ol) max_len True b = (Some (p, ov2), pcb1, n1)"
    and cp: "copy_to p (int ol) (take (unat seglen) (drop pos arg)) = Some p2"
    and cr: "tcp_create_segment ev pcb1 n1 [p2] 0 (snd_lbb pcb1 + of_nat pos) f = Some (Some s, pcb', n2)"
    and k: "k = unat seglen"
    using assms(1) unfolding write_segment_def Let_def max_len_def [symmetric] seglen_def [symmetric]
    by (auto simp: bind_eq_Some_conv split: prod.splits option.splits if_splits)
  note fr = pbuf_prealloc_frame [OF pre]
  note pr = prealloc_room(2) [OF pre rm refl]
  have bs: "length (take (unat seglen) (drop pos arg)) = unat seglen" using sl by simp
  have c: "pb_data p2 = take ol (pb_data p) @ take (unat seglen) (drop pos arg)" "pb_off p2 = pb_off p"
    "length (pb_buf p2) = length (pb_buf p)" "pb_len p2 = pb_len p" "pb_tot_len p2 = pb_tot_len p"
    using copy_to_data [OF cp] pr len bs by (auto simp: roomy_def)
  have "length (pb_data p) = unat (pb_len p)"
    using pr len le by (intro length_pb_data) (auto simp: roomy_def)
  then have xs: "length (take ol (pb_data p)) = ol" using pr len by simp
  obtain sg where fl: "fill_segment pcb1 sg [p2] 0 (snd_lbb pcb1 + of_nat pos) f = Some s"
    using create_segment_fills [OF cr] by auto
  have "roomy (unat m) p2" using pr c by (simp add: roomy_def)
  then have "seg_ok s \<and> seg_payload s = take (unat seglen) (drop pos arg) \<and> sg_seqno s = snd_lbb pcb1 + of_nat pos
      \<and> sg_len s = of_nat (unat seglen)"
    using fill_segment_ok [OF fl _ _ _ _ _ _ c(1) xs] ol m pr c len le bs same_but_alloc_sel(11) [OF fr(1)] by simp
  moreover have "room ev pcb' (unat m)"
    using prealloc_room(1) [OF pre rm] create_segment_frame(4) [OF cr] by (simp add: room_def)
  moreover have "0 < k \<and> pos + k \<le> length arg" using k sl ol pos by linarith
  ultimately show ?thesis
    using k same_but_alloc_sel(3) [OF fr(1)] unat_lt16 [of seglen] by metis
qed

lemma write_segments_ok:
  assumes "write_segments fuel ev pcb nt m f ol arg pos ql ov q = Some (True, q', ql', ov', pcb', nt')"
    and "LWIP_TCP_OPT_LENGTH pcb f = ol" "ol < unat m" "unat m + 20 < 65536" "pos \<le> length arg" "room ev pcb (unat m)"
  shows "\<exists>new. q' = q @ new \<and> list_all seg_ok new \<and> stream new = drop pos arg \<and> tiles (snd_lbb pcb + of_nat pos) new (snd_lbb pcb + of_nat (length arg))"
  using assms
proof (induction fuel arbitrary: pcb nt pos ql ov q)
  case 0
  then show ?case by (subst (asm) write_segments.simps) (auto split: if_splits intro: exI [of _ "[]"])
next
  case (Suc n)
  show ?case
  proof (cases "pos < length arg")
    case False
    with Suc.prems show ?thesis by (subst (asm) write_segments.simps) (auto intro: exI [of _ "[]"])
  next
    case True
    then obtain s k ql1 ov1 p1 n1 where
      ws: "write_segment ev pcb nt m f ol arg pos ql ov (q = []) = Some (Some (s, k), ql1, ov1, p1, n1)"
      and rec: "write_segments n ev p1 n1 m f ol arg (pos + k) ql1 ov1 (q @ [s]) = Some (True, q', ql', ov', pcb', nt')"
      using Suc.prems(1) by (subst (asm) write_segments.simps) (auto split: option.splits)
    note ok = write_segment_ok [OF ws Suc.prems(2-4) True Suc.prems(6)]
    note fr = same_but_alloc_sel(3,11) [OF write_segment_frame(1) [OF ws]]
    obtain new where new: "q' = q @ s # new" "list_all seg_ok new" "stream new = drop (pos + k) arg"
      "tiles (snd_lbb pcb + of_nat (pos + k)) new (snd_lbb pcb + of_nat (length arg))"
      using Suc.IH [OF rec] Suc.prems ok fr by auto
    have "ucast (of_nat k :: u16) = (of_nat k :: u32)"
      using ok by (simp add: word_unat_eq_iff unat_of_nat16 unat_of_nat32)
    moreover have "take k (drop pos arg) @ drop (pos + k) arg = drop pos arg"
      by (metis add.commute append_take_drop_id drop_drop)
    ultimately show ?thesis
      using new ok by (intro exI [of _ "s # new"]) (simp add: add.assoc)
  qed
qed

section \<open>The tail\<close>

lemma copy_to_lens:
  "copy_to (p\<lparr>pb_len := l, pb_tot_len := t\<rparr>) k bs = map_option (\<lambda>q. q\<lparr>pb_len := l, pb_tot_len := t\<rparr>) (copy_to p k bs)"
  by (cases p) (simp add: copy_to_def option.map_comp comp_def)

lemma fill_last_ok:
  assumes "copy_to p (int (unat (pb_len p))) bs = Some q" "chain_ok [p]"
    "unat (pb_len p) + length bs < 65536"
  shows "chain_ok [q\<lparr>pb_tot_len := pb_tot_len q + of_nat (length bs), pb_len := pb_len q + of_nat (length bs)\<rparr>]"
    "pb_data (q\<lparr>pb_tot_len := pb_tot_len q + of_nat (length bs), pb_len := pb_len q + of_nat (length bs)\<rparr>) = pb_data p @ bs"
    "unat (pb_len q + of_nat (length bs)) = unat (pb_len p) + length bs"
proof -
  define l where "l = pb_len p + of_nat (length bs)"
  define t where "t = pb_tot_len p + of_nat (length bs)"
  have l: "unat l = unat (pb_len p) + length bs"
    using assms(3) unfolding l_def by (subst unat_word_ariths(1)) (simp add: unat_of_nat16)
  have t: "unat t = unat (pb_len p) + length bs"
    using assms(2,3) unfolding t_def by (subst unat_plus32) (simp_all add: unat_of_nat32)
  have c: "copy_to (p\<lparr>pb_len := l, pb_tot_len := t\<rparr>) (int (unat (pb_len p))) bs = Some (q\<lparr>pb_len := l, pb_tot_len := t\<rparr>)"
    unfolding copy_to_lens assms(1) by simp
  have q: "pb_len q = pb_len p" "pb_tot_len q = pb_tot_len p" using assms(1) by (auto simp: copy_to_def)
  have e: "q\<lparr>pb_tot_len := pb_tot_len q + of_nat (length bs), pb_len := pb_len q + of_nat (length bs)\<rparr> = q\<lparr>pb_len := l, pb_tot_len := t\<rparr>"
    by (simp add: q l_def t_def)
  note d = copy_to_data [OF c]
  have "take (unat (pb_len p)) (pb_data (p\<lparr>pb_len := l, pb_tot_len := t\<rparr>)) = pb_data p"
    using l by (simp add: pb_data_def min_def)
  then show "pb_data (q\<lparr>pb_tot_len := pb_tot_len q + of_nat (length bs), pb_len := pb_len q + of_nat (length bs)\<rparr>) = pb_data p @ bs"
    using d(1) assms(2) l unfolding e by simp
  show "chain_ok [q\<lparr>pb_tot_len := pb_tot_len q + of_nat (length bs), pb_len := pb_len q + of_nat (length bs)\<rparr>]"
    using d(2,3,6) assms(2) l t unfolding e by simp
  show "unat (pb_len q + of_nat (length bs)) = unat (pb_len p) + length bs" using l by (simp add: q l_def)
qed

lemma fill_tail_ok:
  assumes "fill_tail ps bs = Some ps'" "chain_ok ps" "ps \<noteq> []" "tot ps + length bs < 65536"
  shows "chain_ok ps' \<and> chain_data ps' = chain_data ps @ bs \<and> tot ps' = tot ps + length bs \<and> ps' \<noteq> []"
  using assms
proof (induction ps bs arbitrary: ps' rule: fill_tail.induct)
  case (2 p bs)
  then obtain q where q: "copy_to p (int (unat (pb_len p))) bs = Some q"
    "ps' = [q\<lparr>pb_tot_len := pb_tot_len q + of_nat (length bs), pb_len := pb_len q + of_nat (length bs)\<rparr>]"
    by auto
  show ?case using fill_last_ok [OF q(1)] 2(2,4) unfolding q(2) by simp
next
  case (3 p r rs bs)
  then obtain rs' where r: "fill_tail (r # rs) bs = Some rs'"
    "ps' = p\<lparr>pb_tot_len := pb_tot_len p + of_nat (length bs)\<rparr> # rs'" by auto
  have ih: "chain_ok rs' \<and> chain_data rs' = chain_data (r # rs) @ bs \<and> tot rs' = tot (r # rs) + length bs"
    using 3(1) [OF r(1)] 3(3,5) by simp
  have "unat (pb_tot_len p + of_nat (length bs)) = tot (p # r # rs) + length bs"
    using 3(3,5) by (subst unat_plus32) (simp_all add: unat_of_nat32)
  then show ?case using ih 3(3) unfolding r(2) by simp
qed simp

lemma pbuf_cat_ok:
  assumes "chain_ok a" "a \<noteq> []" "chain_ok b" "b \<noteq> []" "tot a + tot b < 4294967296"
  shows "chain_ok (pbuf_cat a b)" "chain_data (pbuf_cat a b) = chain_data a @ chain_data b" "tot (pbuf_cat a b) = tot a + tot b"
    "pbuf_cat a b \<noteq> []"
  using assms chain_ok_join [of a b] by (simp_all add: pbuf_cat_def)

text \<open>What phases 1 and 2 prepare: the bytes for the spare room, then the bytes of the
  chained buffer, are the first wt_pos bytes of the argument.  The hypothesis is the
  assertion of the source that the tail and its spare room fit a segment.\<close>

definition tail_fits :: "tcp_pcb \<Rightarrow> u16 \<Rightarrow> tcp_seg \<Rightarrow> bool" where
  "tail_fits pcb m t = (unat (sg_len t) + LWIP_TCP_OPT_LENGTH pcb (sg_flags t) + unat (unsent_oversize pcb) \<le> unat m)"

definition prepared :: "u8 list \<Rightarrow> write_tail \<Rightarrow> bool" where
  "prepared arg w = (wt_pos w \<le> length arg \<and> take (unat (wt_used w)) arg @ chain_data (wt_concat w) = take (wt_pos w) arg
     \<and> unat (wt_used w) + tot (wt_concat w) = wt_pos w \<and> chain_ok (wt_concat w))"

lemma phase12_sizes:
  fixes m len ov :: u16 and n :: nat
  assumes "unat len + ol + unat ov \<le> unat m"
  defines "used \<equiv> (if ov > 0 then (if unat ov < n then ov else of_nat n) else 0)"
  shows "unat used = min (unat ov) n" "unat (m - (len + of_nat ol) - used) = unat m - (unat len + ol) - min (unat ov) n"
proof -
  have lt: "unat m < 65536" by simp
  have n: "unat (of_nat n :: u16) = n" if "\<not> unat ov < n"
    using that unat_lt16 [of ov] by (intro unat_of_nat16) linarith
  show u: "unat used = min (unat ov) n"
    using n by (auto simp: used_def word_less_nat_alt min_def)
  have o: "unat (of_nat ol :: u16) = ol" using assms(1) lt by (intro unat_of_nat16) linarith
  have "unat len + ol < 65536" using assms(1) lt by linarith
  then have "unat (len + of_nat ol) = unat len + ol" using o by (subst unat_word_ariths(1)) simp
  then have "unat (m - (len + of_nat ol)) = unat m - (unat len + ol)"
    using assms(1) by (subst unat_minus_le) (simp_all add: word_le_nat_alt)
  then show "unat (m - (len + of_nat ol) - used) = unat m - (unat len + ol) - min (unat ov) n"
    using assms(1) u by (subst unat_minus_le) (auto simp: word_le_nat_alt)
qed

lemma phase12_prepares:
  assumes ph: "write_phase12 ev pcb nt m arg t = Some (Some w, pcb', nt')"
    and fits: "tail_fits pcb m t" and rm: "room ev pcb (unat m)"
  shows "prepared arg w" "unat (sg_len t) + wt_pos w \<le> unat m" "room ev pcb' (unat m)"
proof -
  define ol where "ol = LWIP_TCP_OPT_LENGTH pcb (sg_flags t)"
  define ov where "ov = unsent_oversize pcb"
  define used where "used = (if ov > 0 then (if unat ov < length arg then ov else of_nat (length arg)) else 0)"
  define space where "space = m - (sg_len t + of_nat ol) - used"
  define k where "k = (if unat space < length arg - unat used then space else of_nat (length arg - unat used))"
  have f: "unat (sg_len t) + ol + unat ov \<le> unat m" using fits by (simp add: tail_fits_def ol_def ov_def)
  have u: "unat used = min (unat ov) (length arg)" "unat space = unat m - (unat (sg_len t) + ol) - min (unat ov) (length arg)"
    using phase12_sizes [OF f, of "length arg"] by (simp_all add: used_def space_def)
  have k: "unat k = min (unat space) (length arg - unat used)"
    using unat_of_nat16 [OF le_less_trans [OF _ unat_lt16 [of space]]] by (auto simp: k_def min_def)
  consider (no) "wt_concat w = []" "wt_used w = used" "wt_pos w = unat used" "pcb' = pcb"
    | (yes) p q ov2 n2 where "tcp_pbuf_prealloc ev pcb nt k space True True = (Some (p, ov2), pcb', n2)"
        "copy_to p 0 (take (unat k) (drop (unat used) arg)) = Some q" "wt_concat w = [q]" "wt_used w = used"
        "wt_pos w = unat used + unat k"
    using ph unfolding write_phase12_def Let_def ol_def [symmetric] ov_def [symmetric] used_def [symmetric]
      space_def [symmetric] k_def [symmetric]
    by (auto simp: bind_eq_Some_conv split: if_splits prod.splits option.splits)
  then have "prepared arg w \<and> unat (sg_len t) + wt_pos w \<le> unat m \<and> room ev pcb' (unat m)"
  proof cases
    case no
    then show ?thesis using u f rm by (simp add: prepared_def)
  next
    case yes
    note pr = prealloc_room(2) [OF yes(1) rm refl]
    have l: "length (take (unat k) (drop (unat used) arg)) = unat k" using k by simp
    have d: "pb_data q = take (unat k) (drop (unat used) arg)" "pb_len q = k" "pb_tot_len q = ucast k"
      "0 \<le> pb_off q" "nat (pb_off q) + unat k \<le> length (pb_buf q)"
      using copy_to_data [of p 0 "take (unat k) (drop (unat used) arg)" q] yes(2) pr unfolding l by (auto simp: roomy_def)
    have "take (unat used) arg @ take (unat k) (drop (unat used) arg) = take (unat used + unat k) arg"
      by (simp add: take_add)
    moreover have "unat used + unat k \<le> length arg" using k u(1) by linarith
    ultimately have "prepared arg w" using yes(3-5) d by (simp add: prepared_def)
    moreover have "unat (sg_len t) + wt_pos w \<le> unat m" using yes(5) k u f by linarith
    ultimately show ?thesis using prealloc_room(1) [OF yes(1) rm] by simp
  qed
  then show "prepared arg w" "unat (sg_len t) + wt_pos w \<le> unat m" "room ev pcb' (unat m)" by auto
qed

lemma seg_hlen_le: "seg_hlen s \<le> 60"
proof -
  have "unat (TCPH_HDRLEN (sg_tcphdr s)) = unat (ntohs (th_hdrlen_rsvd_flags (sg_tcphdr s))) div 4096"
    by (simp add: TCPH_HDRLEN_def drop_bit_eq_div unat_div)
  moreover have "unat (ntohs (th_hdrlen_rsvd_flags (sg_tcphdr s))) div 4096 < 16"
    by (rule less_mult_imp_div_less) simp
  ultimately show ?thesis unfolding seg_hlen_def by linarith
qed

lemma commit_tail_ok:
  assumes c: "commit_tail t w arg = Some t'" and t: "seg_ok t" and w: "prepared arg w"
    and sz: "unat (sg_len t) + wt_pos w \<le> n" "n + 60 < 65536"
  shows "seg_ok t' \<and> seg_payload t' = seg_payload t @ take (wt_pos w) arg \<and> sg_seqno t' = sg_seqno t
    \<and> sg_addr t' = sg_addr t \<and> sg_len t' = sg_len t + of_nat (wt_pos w)"
proof -
  define u where "u = unat (wt_used w)"
  obtain t1 where t1: "(if wt_used w > 0 then map_option (\<lambda>ps. t\<lparr>sg_p := ps, sg_len := sg_len t + wt_used w\<rparr>)
        (fill_tail (sg_p t) (take u arg)) else Some t) = Some t1"
    and t': "t' = (if wt_concat w \<noteq> [] then t1\<lparr>sg_p := pbuf_cat (sg_p t1) (wt_concat w),
                   sg_len := sg_len t1 + ucast (pb_tot_len (hd (wt_concat w)))\<rparr> else t1)"
    using c unfolding u_def by (auto simp: commit_tail_def bind_eq_Some_conv)
  have w': "u + tot (wt_concat w) = wt_pos w" "wt_pos w \<le> length arg" "chain_ok (wt_concat w)"
    "take u arg @ chain_data (wt_concat w) = take (wt_pos w) arg"
    using w by (simp_all add: prepared_def u_def)
  have u: "length (take u arg) = u" using w' by simp
  have ok: "sg_p t \<noteq> []" "chain_ok (sg_p t)" "tot (sg_p t) = seg_hlen t + unat (sg_len t)" "tot (sg_p t) + u < 65536"
    using t sz w'(1) seg_hlen_le [of t] by (auto simp: seg_ok_def)
  have 1: "chain_ok (sg_p t1) \<and> chain_data (sg_p t1) = chain_data (sg_p t) @ take u arg \<and> tot (sg_p t1) = tot (sg_p t) + u
      \<and> sg_p t1 \<noteq> [] \<and> sg_len t1 = sg_len t + of_nat u \<and> sg_seqno t1 = sg_seqno t \<and> sg_addr t1 = sg_addr t \<and> sg_tcphdr t1 = sg_tcphdr t"
  proof (cases "wt_used w > 0")
    case True
    then obtain ps where "fill_tail (sg_p t) (take u arg) = Some ps" "t1 = t\<lparr>sg_p := ps, sg_len := sg_len t + wt_used w\<rparr>"
      using t1 by auto
    then show ?thesis using fill_tail_ok [of "sg_p t" "take u arg" ps] ok u by (simp add: u_def)
  next
    case False
    then have "u = 0" by (simp add: u_def word_less_nat_alt)
    then show ?thesis using False t1 ok by simp
  qed
  have 2: "chain_ok (sg_p t') \<and> chain_data (sg_p t') = chain_data (sg_p t) @ take (wt_pos w) arg
      \<and> tot (sg_p t') = tot (sg_p t) + wt_pos w \<and> sg_p t' \<noteq> [] \<and> sg_len t' = sg_len t + of_nat (wt_pos w)"
  proof (cases "wt_concat w = []")
    case True
    then show ?thesis using 1 t' w' by simp
  next
    case False
    have b: "tot (sg_p t1) + tot (wt_concat w) < 65536" using 1 ok(3) w'(1) sz seg_hlen_le [of t] by linarith
    note pc = pbuf_cat_ok [of "sg_p t1" "wt_concat w"]
    have "(ucast (pb_tot_len (hd (wt_concat w))) :: u16) = of_nat (tot (wt_concat w))"
      using chain_hd_tot [OF w'(3) False] by (metis of_nat_unat)
    then have "sg_len t' = sg_len t + of_nat (u + tot (wt_concat w))" using 1 t' False by simp
    then show ?thesis using pc 1 w' b False t' by simp
  qed
  have "sg_seqno t' = sg_seqno t \<and> sg_addr t' = sg_addr t \<and> sg_tcphdr t' = sg_tcphdr t" using 1 t' by simp
  moreover have "unat (sg_len t + of_nat (wt_pos w)) = unat (sg_len t) + wt_pos w"
    using sz by (subst unat_word_ariths(1)) (simp add: unat_of_nat16)
  moreover have "length (chain_data (sg_p t)) = tot (sg_p t)" using ok by (intro length_chain_data)
  ultimately show ?thesis
    using 2 ok by (simp add: seg_ok_def seg_payload_def seg_hlen_def)
qed

section \<open>The commit\<close>

definition marked :: "nat option \<Rightarrow> tcp_seg list \<Rightarrow> tcp_seg list" where
  "marked a q = (case a of None \<Rightarrow> q | Some a \<Rightarrow> map (\<lambda>s. if sg_addr s = a then push_flag s else s) q)"

lemma push_flag_sel:
  "seg_payload (push_flag s) = seg_payload s" "seg_ok (push_flag s) = seg_ok s"
  "sg_seqno (push_flag s) = sg_seqno s" "sg_len (push_flag s) = sg_len s"
  by (simp_all add: push_flag_def seg_payload_def seg_ok_def seg_hlen_def TCP_PSH_def TCPH_HDRLEN_SET_FLAG)

lemma marked_sel [simp]:
  "stream (marked a q) = stream q" "list_all seg_ok (marked a q) = list_all seg_ok q" "tiles b (marked a q) e = tiles b q e"
proof -
  show "stream (marked a q) = stream q" "list_all seg_ok (marked a q) = list_all seg_ok q"
    by (induction q; cases a; simp add: marked_def push_flag_sel)+
  show "tiles b (marked a q) e = tiles b q e"
    by (induction q arbitrary: b; cases a; simp add: marked_def push_flag_sel)
qed

lemma replace_last:
  assumes "q \<noteq> []" "distinct (map sg_addr (q @ r))"
  shows "map (\<lambda>s. if sg_addr s = sg_addr (last q) then x else s) q = butlast q @ [x]"
    "map (\<lambda>s. if sg_addr s = sg_addr (last q) then x else s) r = r"
proof -
  obtain q' l where q: "q = q' @ [l]" using assms(1) by (metis append_butlast_last_id)
  have d: "sg_addr l \<notin> sg_addr ` set q'" "sg_addr l \<notin> sg_addr ` set r" using assms(2) by (auto simp: q)
  have "\<forall>s\<in>set q'. sg_addr s \<noteq> sg_addr l" using d(1) by (metis imageI)
  moreover have "map (\<lambda>s. if sg_addr s = sg_addr l then x else s) q' = q'" by (rule map_idI) (use calculation in auto)
  ultimately show "map (\<lambda>s. if sg_addr s = sg_addr (last q) then x else s) q = butlast q @ [x]" by (simp add: q)
  have "\<forall>s\<in>set r. sg_addr s \<noteq> sg_addr l" using d(2) by (metis imageI)
  then show "map (\<lambda>s. if sg_addr s = sg_addr (last q) then x else s) r = r" by (auto simp: q intro!: map_idI)
qed

lemma commit_end:
  assumes "p' = (case a of None \<Rightarrow> x | Some a \<Rightarrow> on_seg a push_flag x)"
  shows "unsent p' = marked a (unsent x) \<and> unacked p' = marked a (unacked x) \<and> snd_lbb p' = snd_lbb x \<and> snd_buf p' = snd_buf x"
  using assms by (cases a) (simp_all add: on_seg_def marked_def)

lemma link_queue_sel [simp]:
  "snd_lbb (link_queue p x q) = snd_lbb p" "snd_buf (link_queue p x q) = snd_buf p"
  "unsent (link_queue p None q) = q" "unacked (link_queue p None q) = unacked p"
  by (cases x; simp add: link_queue_def)+

lemma write_commit_split:
  assumes "write_commit p t w arg q ql ov = Some p'"
    and "(case t of None \<Rightarrow> Some p | Some t \<Rightarrow> map_option (\<lambda>t'. on_seg (sg_addr t) (\<lambda>_. t') p) (commit_tail t w arg)) = Some p1"
  shows "\<exists>a. unsent p' = marked a (unsent (link_queue p1 (map_option sg_addr t) q))
    \<and> unacked p' = marked a (unacked (link_queue p1 (map_option sg_addr t) q))
    \<and> snd_lbb p' = snd_lbb p1 + of_nat (length arg) \<and> snd_buf p' = snd_buf p1 - of_nat (length arg)"
proof -
  define a where "a = (if q \<noteq> [] then Some (sg_addr (last q)) else wt_seg w)"
  have c: "write_commit p t w arg q ql ov = map_option (\<lambda>p1. let x = commit_pcb p1 (map_option sg_addr t) q (length arg) ql ov a
      in case a of None \<Rightarrow> x | Some a \<Rightarrow> on_seg a push_flag x)
      (case t of None \<Rightarrow> Some p | Some t \<Rightarrow> map_option (\<lambda>t'. on_seg (sg_addr t) (\<lambda>_. t') p) (commit_tail t w arg))"
    unfolding write_commit_def Let_def a_def [symmetric]
    by (cases t; cases "commit_tail (the t) w arg"; simp)
  then have "p' = (case a of None \<Rightarrow> commit_pcb p1 (map_option sg_addr t) q (length arg) ql ov a
      | Some b \<Rightarrow> on_seg b push_flag (commit_pcb p1 (map_option sg_addr t) q (length arg) ql ov a))"
    using assms(1) unfolding c assms(2) by (simp add: Let_def)
  from commit_end [OF this] show ?thesis
    by (intro exI [of _ a]) (simp add: commit_pcb_def Let_def)
qed

lemma write_commit_empty:
  assumes "write_commit p None w arg q ql ov = Some p'"
  shows "\<exists>a. unsent p' = marked a q \<and> unacked p' = marked a (unacked p)
    \<and> snd_lbb p' = snd_lbb p + of_nat (length arg) \<and> snd_buf p' = snd_buf p - of_nat (length arg)"
  using write_commit_split [OF assms, of p] by simp

lemma write_commit_tail:
  assumes "write_commit p (Some (last (unsent p))) w arg q ql ov = Some p'" "unsent p \<noteq> []"
    "distinct (map sg_addr (unsent p @ unacked p))"
  shows "\<exists>a t'. commit_tail (last (unsent p)) w arg = Some t' \<and> unsent p' = marked a (butlast (unsent p) @ t' # q)
    \<and> unacked p' = marked a (unacked p)
    \<and> snd_lbb p' = snd_lbb p + of_nat (length arg) \<and> snd_buf p' = snd_buf p - of_nat (length arg)"
proof -
  obtain t' where t': "commit_tail (last (unsent p)) w arg = Some t'"
    using assms(1) by (auto simp: write_commit_def bind_eq_Some_conv)
  define p1 where "p1 = on_seg (sg_addr (last (unsent p))) (\<lambda>_. t') p"
  note r = replace_last [OF assms(2,3), of t']
  have a: "sg_addr t' = sg_addr (last (unsent p))"
    using t' by (auto simp: commit_tail_def bind_eq_Some_conv split: if_splits)
  have p1: "unsent p1 = butlast (unsent p) @ [t']" "unacked p1 = unacked p" "snd_lbb p1 = snd_lbb p" "snd_buf p1 = snd_buf p"
    by (simp_all add: p1_def on_seg_def r)
  have "unsent (link_queue p1 (Some (sg_addr (last (unsent p)))) q) = butlast (unsent p) @ t' # q"
    "unacked (link_queue p1 (Some (sg_addr (last (unsent p)))) q) = unacked p"
    using a by (simp_all add: link_queue_def p1)
  then show ?thesis
    using write_commit_split [OF assms(1), of p1] t' p1 by (simp add: p1_def)
qed

section \<open>A successful write\<close>

definition appended :: "tcp_pcb \<Rightarrow> u8 list \<Rightarrow> tcp_pcb \<Rightarrow> bool" where
  "appended pcb arg pcb' = (stream (unsent pcb') = stream (unsent pcb) @ arg \<and> stream (unacked pcb') = stream (unacked pcb)
     \<and> list_all seg_ok (unsent pcb') \<and> (\<forall>b. tiles b (unsent pcb) (snd_lbb pcb) \<longrightarrow> tiles b (unsent pcb') (snd_lbb pcb'))
     \<and> snd_lbb pcb' = snd_lbb pcb + of_nat (length arg) \<and> snd_buf pcb' = snd_buf pcb - of_nat (length arg))"

text \<open>The queues a write finds: well-formed segments, no segment queued twice, and a tail
  pointer that is null or points to the last unsent segment.\<close>

definition sendq_ok :: "tcp_pcb \<Rightarrow> bool" where
  "sendq_ok pcb = (list_all seg_ok (unsent pcb) \<and> distinct (map sg_addr (unsent pcb @ unacked pcb))
     \<and> (unsent pcb = [] \<or> last_unsent pcb = None \<or> last_unsent pcb = Some (sg_addr (last (unsent pcb)))))"

definition sizes_ok :: "tcp_env \<Rightarrow> tcp_pcb \<Rightarrow> u8 \<Rightarrow> bool" where
  "sizes_ok ev pcb f = (LWIP_TCP_OPT_LENGTH pcb f < unat (write_mss pcb) \<and> unat (write_mss pcb) + 60 < 65536
     \<and> room ev pcb (unat (write_mss pcb))
     \<and> (unsent pcb = [] \<or> tail_fits pcb (write_mss pcb) (last (unsent pcb))))"

lemma write_finish_ok:
  assumes wf: "write_finish ev pcb nt m f arg t w = Some (ERR_OK, pcb', nt')"
    and w: "prepared arg w" and m: "LWIP_TCP_OPT_LENGTH pcb f < unat m" "unat m + 60 < 65536" "room ev pcb (unat m)"
    and q: "list_all seg_ok (unsent pcb)" "distinct (map sg_addr (unsent pcb @ unacked pcb))"
    and t: "if unsent pcb = [] then t = None \<and> wt_pos w = 0
            else t = Some (last (unsent pcb)) \<and> unat (sg_len (last (unsent pcb))) + wt_pos w \<le> unat m"
  shows "appended pcb arg pcb'"
proof -
  obtain q' ql ov p n where ws: "write_segments (unat (max_unsent_len pcb) + 2) ev pcb nt m f
      (LWIP_TCP_OPT_LENGTH pcb f) arg (wt_pos w) (wt_queuelen w) (wt_oversize w) [] = Some (True, q', ql, ov, p, n)"
    and wc: "write_commit p t w arg q' ql ov = Some pcb'"
    using wf by (auto simp: write_finish_def write_fail_def bind_eq_Some_conv split: if_splits)
  note fr = same_but_alloc_sel(1-4) [OF conjunct1 [OF write_segments_frame [OF ws]]]
  have new: "list_all seg_ok q'" "stream q' = drop (wt_pos w) arg"
    "tiles (snd_lbb pcb + of_nat (wt_pos w)) q' (snd_lbb pcb + of_nat (length arg))"
    using write_segments_ok [OF ws refl m(1)] m w by (auto simp: prepared_def)
  show ?thesis
  proof (cases "unsent pcb = []")
    case True
    then show ?thesis
      using write_commit_empty [of p w arg q' ql ov pcb'] wc t new fr by (auto simp: appended_def)
  next
    case False
    define l where "l = last (unsent pcb)"
    have un: "unsent pcb = butlast (unsent pcb) @ [l]" using False by (simp add: l_def)
    have l: "t = Some l" "unat (sg_len l) + wt_pos w \<le> unat m" using t False by (simp_all add: l_def)
    have sq: "seg_ok l" "list_all seg_ok (butlast (unsent pcb))"
      using q(1) False in_set_butlastD [of _ "unsent pcb"] by (auto simp: l_def list_all_iff)
    obtain a t' where ct: "commit_tail l w arg = Some t'" and p': "unsent pcb' = marked a (butlast (unsent pcb) @ t' # q')"
      "unacked pcb' = marked a (unacked pcb)" "snd_lbb pcb' = snd_lbb pcb + of_nat (length arg)" "snd_buf pcb' = snd_buf pcb - of_nat (length arg)"
      using write_commit_tail [of p w arg q' ql ov pcb'] wc q(2) False l unfolding fr l_def by auto
    note ok = commit_tail_ok [OF ct sq(1) w l(2) m(2)]
    have pos: "wt_pos w < 65536" using l(2) m(2) by linarith
    have lb: "(ucast (sg_len t') :: u32) = ucast (sg_len l) + of_nat (wt_pos w)"
    proof -
      have "unat (sg_len t') = unat (sg_len l) + wt_pos w"
        using ok l(2) m(2) pos by (simp add: unat_of_nat16 unat_word_ariths(1))
      then show ?thesis
        using pos unat_lt16 [of "sg_len t'"] by (simp add: word_unat_eq_iff unat_of_nat32 unat_plus32)
    qed
    have "stream (unsent pcb) = stream (butlast (unsent pcb)) @ seg_payload l"
      by (subst un) simp
    then have "stream (unsent pcb') = stream (unsent pcb) @ arg" using p' ok new by simp
    moreover have "tiles b (unsent pcb') (snd_lbb pcb')" if "tiles b (unsent pcb) (snd_lbb pcb)" for b
    proof -
      have "tiles b (butlast (unsent pcb) @ [l]) (snd_lbb pcb)" using that un by simp
      then show ?thesis using new(3) ok lb p' by (auto simp: tiles_append simp flip: add.assoc)
    qed
    ultimately show ?thesis using p' ok new sq by (simp add: appended_def)
  qed
qed

lemma find_last_unsent_ok:
  assumes "sendq_ok pcb" "unsent pcb \<noteq> []"
  shows "find_last_unsent pcb = Some (last (unsent pcb))"
proof (cases "last_unsent pcb")
  case (Some a)
  then have a: "a = sg_addr (last (unsent pcb))" using assms by (simp add: sendq_ok_def)
  have "find (\<lambda>s. sg_addr s = a) (unsent pcb) = Some (last (unsent pcb))"
  proof -
    obtain s where s: "find (\<lambda>s. sg_addr s = a) (unsent pcb) = Some s"
      using last_in_set [OF assms(2)] a by (cases "find (\<lambda>s. sg_addr s = a) (unsent pcb)") (auto simp: find_None_iff)
    then have "s \<in> set (unsent pcb)" "sg_addr s = a" by (auto simp: find_Some_iff)
    moreover have "inj_on sg_addr (set (unsent pcb))" using assms(1) by (simp add: sendq_ok_def distinct_map)
    ultimately show ?thesis using s a assms(2) by (metis inj_onD last_in_set)
  qed
  then show ?thesis using Some a by (simp add: find_last_unsent_def deref_seg_def find_seg_def)
qed (simp add: find_last_unsent_def)

lemma write_data_ok:
  assumes wd: "write_data ev pcb nt arg d = Some (ERR_OK, pcb', nt')"
    and q: "sendq_ok pcb" and sz: "sizes_ok ev pcb (write_optflags pcb d)"
  shows "appended pcb arg pcb'"
proof -
  define t where "t = (if unsent pcb = [] then None else Some (last (unsent pcb)))"
  define p where "p = pcb\<lparr>last_unsent := map_option sg_addr t\<rparr>"
  have t: "(if unsent pcb = [] then Some None else map_option Some (find_last_unsent pcb)) = Some t"
    using find_last_unsent_ok [OF q] by (simp add: t_def)
  obtain w p1 n1 where r: "(case t of None \<Rightarrow> Some (Some (no_tail p), p, nt)
      | Some t \<Rightarrow> write_phase12 ev p nt (write_mss p) arg t) = Some (Some w, p1, n1)"
    and wf: "write_finish ev p1 n1 (write_mss p1) (write_optflags p1 d) arg t w = Some (ERR_OK, pcb', nt')"
    using wd t by (auto simp: write_data_def p_def Let_def bind_eq_Some_conv write_fail_def split: option.splits)
  have p: "unsent p = unsent pcb" "unacked p = unacked pcb" "snd_lbb p = snd_lbb pcb" "snd_buf p = snd_buf pcb"
    "write_mss p = write_mss pcb" "write_optflags p d = write_optflags pcb d" "room ev p n = room ev pcb n"
    "LWIP_TCP_OPT_LENGTH p f = LWIP_TCP_OPT_LENGTH pcb f" "tail_fits p m s = tail_fits pcb m s" for f n m s
    by (simp_all add: p_def write_mss_def Let_def write_optflags_def room_def LWIP_TCP_OPT_LENGTH_def tail_fits_def)
  have fr: "same_but_alloc p p1"
    using r same_but_allocI(1) by (auto split: option.splits dest: write_phase12_frame)
  note f1 = same_but_alloc_sel [OF fr]
  have f2: "write_mss p1 = write_mss pcb" "write_optflags p1 d = write_optflags pcb d"
    unfolding p(5,6) [symmetric] by (simp_all add: write_mss_def Let_def write_optflags_def f1)
  have w: "prepared arg w \<and> room ev p1 (unat (write_mss pcb))
    \<and> (if unsent pcb = [] then t = None \<and> wt_pos w = 0
       else t = Some (last (unsent pcb)) \<and> unat (sg_len (last (unsent pcb))) + wt_pos w \<le> unat (write_mss pcb))"
  proof (cases "unsent pcb = []")
    case True
    then show ?thesis using r sz p(7) by (auto simp: t_def no_tail_def prepared_def sizes_ok_def)
  next
    case False
    then have "write_phase12 ev p nt (write_mss pcb) arg (last (unsent pcb)) = Some (Some w, p1, n1)"
      using r p(5) by (simp add: t_def)
    from phase12_prepares [OF this] show ?thesis using False sz p by (auto simp: t_def sizes_ok_def)
  qed
  have "appended p1 arg pcb'"
    by (rule write_finish_ok [OF wf]) (use w sz q in \<open>auto simp: sizes_ok_def sendq_ok_def f1 f2 p\<close>)
  then show ?thesis unfolding appended_def f1 p .
qed

text \<open>C2. A write that succeeds appends exactly the bytes it was given to the byte stream of the
  unsent segments, in the bytes of the buffers, whatever mixture of spare room, chained
  buffer and new segments takes them; the segments stay well formed and carry consecutive
  sequence numbers up to the next byte to be written, the unacknowledged data is not
  touched, and the sequence number and the free space move by the length.\<close>

theorem tcp_write_appends:
  assumes "tcp_write ev pcb nt is_null arg is_dummy = Some (ERR_OK, pcb', nt')"
    and "sendq_ok pcb" "sizes_ok ev pcb (write_optflags pcb is_dummy)"
  shows "stream (unsent pcb') = stream (unsent pcb) @ arg \<and> stream (unacked pcb') = stream (unacked pcb)
     \<and> list_all seg_ok (unsent pcb') \<and> (\<forall>b. tiles b (unsent pcb) (snd_lbb pcb) \<longrightarrow> tiles b (unsent pcb') (snd_lbb pcb'))
     \<and> snd_lbb pcb' = snd_lbb pcb + of_nat (length arg) \<and> snd_buf pcb' = snd_buf pcb - of_nat (length arg)"
proof -
  define p where "p = note_small pcb (length arg) is_dummy"
  obtain c p1 where c: "tcp_write_checks p (of_nat (length arg)) = (c, p1)" by fastforce
  have wd: "write_data ev p nt arg is_dummy = Some (ERR_OK, pcb', nt')"
    using assms(1) c write_checks_frame [OF c] by (auto simp: tcp_write_def p_def Let_def split: if_splits)
  have "pcb = pcb\<lparr>snd_sml_add := snd_sml_add pcb\<rparr>" by simp
  then obtain x where x: "p = pcb\<lparr>snd_sml_add := x\<rparr>" unfolding p_def note_small_def by metis
  have e: "write_mss p = write_mss pcb" "write_optflags p is_dummy = write_optflags pcb is_dummy"
    "room ev p n = room ev pcb n" "LWIP_TCP_OPT_LENGTH p f = LWIP_TCP_OPT_LENGTH pcb f"
    "tail_fits p m s = tail_fits pcb m s" "unsent p = unsent pcb" "unacked p = unacked pcb" "snd_lbb p = snd_lbb pcb"
    "snd_buf p = snd_buf pcb" for n f m s
    by (simp_all add: x write_mss_def Let_def write_optflags_def room_def LWIP_TCP_OPT_LENGTH_def tail_fits_def)
  have "sendq_ok p" using assms(2) by (simp add: x sendq_ok_def)
  moreover have "sizes_ok ev p (write_optflags p is_dummy)" using assms(3) unfolding sizes_ok_def e .
  ultimately have "appended p arg pcb'" by (rule write_data_ok [OF wd])
  then show ?thesis unfolding appended_def e .
qed

section \<open>A write always returns\<close>

lemma copy_to_succeeds:
  assumes "roomy n p" "k + length bs \<le> n"
  shows "\<exists>q. copy_to p (int k) bs = Some q"
proof -
  have "nat (pb_off p + int k) + length bs \<le> length (pb_buf p)" "0 \<le> pb_off p + int k"
    using assms by (auto simp: roomy_def nat_add_distrib)
  then show ?thesis by (auto simp: copy_to_def buf_write_def)
qed

lemma create_segment_returns: "\<exists>r pcb' nt'. tcp_create_segment ev pcb nt [p] fl sq f = Some (r, pcb', nt')"
  by (auto simp: tcp_create_segment_def fill_segment_def Let_def split: list.splits option.splits)

lemma write_segment_returns:
  assumes ol: "ol < unat m" and m: "unat m + 20 < 65536" and rm: "room ev pcb (unat m)"
    and ql: "unat ql < 65537"
  shows "\<exists>r ql' ov' pcb' nt'. write_segment ev pcb nt m f ol arg pos ql ov b = Some (r, ql', ov', pcb', nt')
    \<and> (r \<noteq> None \<longrightarrow> unat ql' = unat ql + 1 \<and> unat ql' \<le> unat (max_unsent_len pcb) \<and> room ev pcb' (unat m)
         \<and> max_unsent_len pcb' = max_unsent_len pcb)"
proof -
  define max_len where "max_len = m - of_nat ol"
  define seglen where "seglen = (if length arg - pos > unat max_len then max_len else of_nat (length arg - pos))"
  have ml: "unat max_len = unat m - ol"
    using ol m unfolding max_len_def by (subst unat_minus_le) (simp_all add: unat_of_nat16 word_le_nat_alt)
  have sl: "unat seglen = min (length arg - pos) (unat m - ol)"
    using m ml by (auto simp: seglen_def unat_of_nat16 min_def)
  have le: "ol + length (take (unat seglen) (drop pos arg)) \<le> unat m" using sl ol by simp
  obtain x pcb1 n1 where pre: "tcp_pbuf_prealloc ev pcb nt (seglen + of_nat ol) max_len True b = (x, pcb1, n1)"
    by (metis prod_cases3)
  have mx: "max_unsent_len pcb1 = max_unsent_len pcb" using same_but_alloc_sel(8) [OF pbuf_prealloc_frame(1) [OF pre]] .
  note ws = write_segment_def [unfolded Let_def, of ev pcb nt m f ol arg pos ql ov b,
      folded max_len_def, folded seglen_def, unfolded pre]
  show ?thesis
  proof (cases x)
    case None
    then show ?thesis unfolding ws by simp
  next
    case (Some po)
    obtain p o2 where po: "po = (p, o2)" by (cases po)
    have rp: "roomy (unat m) p" using prealloc_room(2) [OF pre rm] Some po by simp
    from copy_to_succeeds [OF rp le] obtain q where q: "copy_to p (int ol) (take (unat seglen) (drop pos arg)) = Some q" ..
    have q1: "unat (ql + ucast (pbuf_clen [q])) = unat ql + 1"
      using ql by (subst unat_plus32) (simp_all add: pbuf_clen_def)
    from create_segment_returns obtain r pcb2 n2 where
      cr: "tcp_create_segment ev pcb1 n1 [q] 0 (snd_lbb pcb1 + of_nat pos) f = Some (r, pcb2, n2)" by blast
    have fr: "max_unsent_len pcb2 = max_unsent_len pcb" "room ev pcb2 (unat m)"
      using create_segment_frame [OF cr] same_but_alloc_sel(8) [of pcb1 pcb2] prealloc_room(1) [OF pre rm] mx
      by (simp_all add: room_def)
    show ?thesis
      unfolding ws using q cr q1 fr mx by (auto simp: Some po word_less_nat_alt)
  qed
qed

lemma write_segments_return:
  assumes "LWIP_TCP_OPT_LENGTH pcb f = ol" "ol < unat m" "unat m + 20 < 65536" "room ev pcb (unat m)"
    "unat ql \<le> unat (max_unsent_len pcb) + 1" "unat (max_unsent_len pcb) + 1 - unat ql < fuel"
  shows "write_segments fuel ev pcb nt m f ol arg pos ql ov q \<noteq> None"
  using assms
proof (induction fuel arbitrary: pcb nt pos ql ov q)
  case (Suc n)
  show ?case
  proof (cases "pos < length arg")
    case True
    have "unat ql < 65537" using Suc.prems(5) unat_lt16 [of "max_unsent_len pcb"] by linarith
    from write_segment_returns [OF Suc.prems(2-4) this]
    obtain r ql' ov' pcb' nt' where r: "write_segment ev pcb nt m f ol arg pos ql ov (q = []) = Some (r, ql', ov', pcb', nt')"
      "r \<noteq> None \<longrightarrow> unat ql' = unat ql + 1 \<and> unat ql' \<le> unat (max_unsent_len pcb) \<and> room ev pcb' (unat m)
         \<and> max_unsent_len pcb' = max_unsent_len pcb" by metis
    show ?thesis
    proof (cases r)
      case None
      then show ?thesis using True r(1) by (subst write_segments.simps) simp
    next
      case (Some sk)
      obtain s k where sk: "sk = (s, k)" by (cases sk)
      have "write_segments n ev pcb' nt' m f ol arg (pos + k) ql' ov' (q @ [s]) \<noteq> None"
        using Suc.prems r(2) Some same_but_alloc_sel(11) [OF write_segment_frame(1) [OF r(1)], of f]
        by (intro Suc.IH) auto
      then show ?thesis using True r(1) Some sk by (subst write_segments.simps) simp
    qed
  qed (subst write_segments.simps, simp)
qed simp

lemma fill_tail_returns:
  assumes "chain_ok ps" "ps \<noteq> []" "nat (pb_off (last ps)) + unat (pb_len (last ps)) + length bs \<le> length (pb_buf (last ps))"
  shows "fill_tail ps bs \<noteq> None"
  using assms
proof (induction ps bs rule: fill_tail.induct)
  case (2 p bs)
  then have "nat (pb_off p + int (unat (pb_len p))) + length bs \<le> length (pb_buf p)" "0 \<le> pb_off p + int (unat (pb_len p))"
    by (auto simp: nat_add_distrib)
  then have "copy_to p (int (unat (pb_len p))) bs \<noteq> None" unfolding copy_to_def buf_write_def by simp
  then show ?case by simp
qed auto

text \<open>The spare room that \<open>unsent_oversize\<close> promises is in the last buffer of the last segment.\<close>

definition spare_ok :: "tcp_pcb \<Rightarrow> bool" where
  "spare_ok pcb = (unsent pcb = [] \<or> (let b = last (sg_p (last (unsent pcb)))
     in nat (pb_off b) + unat (pb_len b) + unat (unsent_oversize pcb) \<le> length (pb_buf b)))"

lemma commit_tail_returns:
  assumes "seg_ok t" "wt_used w \<le> ov"
    "nat (pb_off (last (sg_p t))) + unat (pb_len (last (sg_p t))) + unat ov \<le> length (pb_buf (last (sg_p t)))"
  shows "commit_tail t w arg \<noteq> None"
proof -
  have "length (take (unat (wt_used w)) arg) \<le> unat ov" using assms(2) by (simp add: word_le_nat_alt min_le_iff_disj)
  then have "fill_tail (sg_p t) (take (unat (wt_used w)) arg) \<noteq> None"
    using assms(1,3) by (intro fill_tail_returns) (auto simp: seg_ok_def)
  then show ?thesis by (auto simp: commit_tail_def)
qed

lemma phase12_returns:
  assumes "tail_fits pcb m t" "room ev pcb (unat m)"
  shows "write_phase12 ev pcb nt m arg t \<noteq> None"
    "write_phase12 ev pcb nt m arg t = Some (Some w, pcb', nt') \<Longrightarrow> wt_used w \<le> unsent_oversize pcb \<and>
       (unat (snd_queuelen pcb) < 65537 \<longrightarrow> unat (wt_queuelen w) \<le> unat (snd_queuelen pcb) + 1)"
proof -
  define ol where "ol = LWIP_TCP_OPT_LENGTH pcb (sg_flags t)"
  define ov where "ov = unsent_oversize pcb"
  define used where "used = (if ov > 0 then (if unat ov < length arg then ov else of_nat (length arg)) else 0)"
  define space where "space = m - (sg_len t + of_nat ol) - used"
  define k where "k = (if unat space < length arg - unat used then space else of_nat (length arg - unat used))"
  have f: "unat (sg_len t) + ol + unat ov \<le> unat m" using assms(1) by (simp add: tail_fits_def ol_def ov_def)
  have u: "unat used = min (unat ov) (length arg)" "unat space = unat m - (unat (sg_len t) + ol) - min (unat ov) (length arg)"
    using phase12_sizes [OF f, of "length arg"] by (simp_all add: used_def space_def)
  have k: "unat k = min (unat space) (length arg - unat used)"
    using unat_of_nat16 [OF le_less_trans [OF _ unat_lt16 [of space]]] by (auto simp: k_def min_def)
  have km: "0 + length (take (unat k) (drop (unat used) arg)) \<le> unat m" unfolding length_take length_drop using k u by linarith
  obtain x pcb1 n1 where pre: "tcp_pbuf_prealloc ev pcb nt k space True True = (x, pcb1, n1)" by (metis prod_cases3)
  have c: "copy_to p 0 (take (unat k) (drop (unat used) arg)) \<noteq> None" if "x = Some (p, o2)" for p o2
    using copy_to_succeeds [OF _ km] prealloc_room(2) [OF pre assms(2) that] by auto
  note ph = write_phase12_def [unfolded Let_def, of ev pcb nt m arg t, folded ol_def ov_def, folded used_def, folded space_def, folded k_def,
      unfolded pre]
  show "write_phase12 ev pcb nt m arg t \<noteq> None" unfolding ph using c by (auto split: option.splits)
  have uo: "used \<le> unsent_oversize pcb" using u(1) by (simp add: word_le_nat_alt ov_def)
  have q: "snd_queuelen pcb1 = snd_queuelen pcb" using same_but_alloc_sel(5) [OF pbuf_prealloc_frame(1) [OF pre]] .
  assume w: "write_phase12 ev pcb nt m arg t = Some (Some w, pcb', nt')"
  have "wt_used w = used \<and> (wt_queuelen w = snd_queuelen pcb \<or> wt_queuelen w = snd_queuelen pcb + 1)"
    using w unfolding ph by (auto simp: bind_eq_Some_conv q pbuf_clen_def split: if_splits option.splits)
  then show "wt_used w \<le> unsent_oversize pcb \<and>
       (unat (snd_queuelen pcb) < 65537 \<longrightarrow> unat (wt_queuelen w) \<le> unat (snd_queuelen pcb) + 1)"
    using uo unat_plus32 [of "snd_queuelen pcb" 1] by auto
qed

lemma write_finish_returns:
  assumes w: "prepared arg w" and m: "LWIP_TCP_OPT_LENGTH pcb f < unat m" "unat m + 60 < 65536" "room ev pcb (unat m)"
    and q: "unat (wt_queuelen w) \<le> unat (max_unsent_len pcb) + 1"
    and t: "case t of None \<Rightarrow> True | Some t \<Rightarrow> commit_tail t w arg \<noteq> None"
  shows "write_finish ev pcb nt m f arg t w \<noteq> None"
proof -
  have "write_segments (unat (max_unsent_len pcb) + 2) ev pcb nt m f
      (LWIP_TCP_OPT_LENGTH pcb f) arg (wt_pos w) (wt_queuelen w) (wt_oversize w) [] \<noteq> None"
    by (rule write_segments_return [OF refl m(1) _ m(3) q]) (use m(2) in linarith)+
  then obtain ok q' ql ov p n where ws: "write_segments (unat (max_unsent_len pcb) + 2) ev pcb nt m f
      (LWIP_TCP_OPT_LENGTH pcb f) arg (wt_pos w) (wt_queuelen w) (wt_oversize w) [] = Some (ok, q', ql, ov, p, n)" by auto
  have "write_commit p t w arg q' ql ov \<noteq> None"
    using t by (cases t) (auto simp: write_commit_def Let_def)
  then show ?thesis unfolding write_finish_def ws by (auto simp: write_fail_def)
qed

lemma write_data_returns:
  assumes q: "sendq_ok pcb" "spare_ok pcb" and sz: "sizes_ok ev pcb (write_optflags pcb d)"
    and ql: "unat (snd_queuelen pcb) \<le> unat (max_unsent_len pcb)"
  shows "write_data ev pcb nt arg d \<noteq> None"
proof -
  define t where "t = (if unsent pcb = [] then None else Some (last (unsent pcb)))"
  define p where "p = pcb\<lparr>last_unsent := map_option sg_addr t\<rparr>"
  define x where "x = (case t of None \<Rightarrow> Some (Some (no_tail p), p, nt)
      | Some t \<Rightarrow> write_phase12 ev p nt (write_mss p) arg t)"
  have t: "(if unsent pcb = [] then Some None else map_option Some (find_last_unsent pcb)) = Some t"
    using find_last_unsent_ok [OF q(1)] by (simp add: t_def)
  have p: "unsent p = unsent pcb" "write_mss p = write_mss pcb" "write_optflags p d = write_optflags pcb d" "room ev p n = room ev pcb n"
    "LWIP_TCP_OPT_LENGTH p f = LWIP_TCP_OPT_LENGTH pcb f" "tail_fits p m s = tail_fits pcb m s"
    "snd_queuelen p = snd_queuelen pcb" "max_unsent_len p = max_unsent_len pcb" "unsent_oversize p = unsent_oversize pcb" for f n m s
    by (simp_all add: p_def write_mss_def Let_def write_optflags_def room_def LWIP_TCP_OPT_LENGTH_def tail_fits_def)
  have sz': "LWIP_TCP_OPT_LENGTH pcb (write_optflags pcb d) < unat (write_mss pcb)" "unat (write_mss pcb) + 60 < 65536"
    "room ev pcb (unat (write_mss pcb))" "unsent pcb \<noteq> [] \<Longrightarrow> tail_fits pcb (write_mss pcb) (last (unsent pcb))"
    using sz by (auto simp: sizes_ok_def)
  have "x \<noteq> None" using phase12_returns(1) [of p "write_mss p"] sz' by (auto simp: x_def t_def p)
  then obtain r p1 n1 where x: "x = Some (r, p1, n1)" by auto
  have fr: "same_but_alloc p p1"
    using x same_but_allocI(1) by (auto simp: x_def split: option.splits dest: write_phase12_frame)
  note f1 = same_but_alloc_sel [OF fr]
  have f2: "write_mss p1 = write_mss pcb" "write_optflags p1 d = write_optflags pcb d"
    unfolding p(2,3) [symmetric] by (simp_all add: write_mss_def Let_def write_optflags_def f1)
  have "write_finish ev p1 n1 (write_mss p1) (write_optflags p1 d) arg t w \<noteq> None" if r: "r = Some w" for w
  proof (cases "unsent pcb = []")
    case True
    then have "w = no_tail p \<and> p1 = p" using x r by (auto simp: x_def t_def)
    then show ?thesis using True sz' ql
      by (intro write_finish_returns) (simp_all add: p prepared_def no_tail_def t_def)
  next
    case False
    then have ph: "write_phase12 ev p nt (write_mss pcb) arg (last (unsent pcb)) = Some (Some w, p1, n1)"
      using x r p(2) by (simp add: x_def t_def)
    have fits: "tail_fits p (write_mss pcb) (last (unsent pcb))" "room ev p (unat (write_mss pcb))"
      using sz' False by (simp_all add: p)
    note w = phase12_prepares [OF ph fits] phase12_returns(2) [OF fits ph]
    have sk: "seg_ok (last (unsent pcb))" using q(1) False by (auto simp: sendq_ok_def list_all_iff)
    have "unat (snd_queuelen p) < 65537" using ql unat_lt16 [of "max_unsent_len pcb"] unfolding p by linarith
    moreover have "commit_tail (last (unsent pcb)) w arg \<noteq> None"
      using w(4) q(2) False by (intro commit_tail_returns [OF sk, of w "unsent_oversize pcb"]) (auto simp: spare_ok_def Let_def p)
    ultimately show ?thesis
      using w sz' ql False by (intro write_finish_returns) (auto simp: f1 f2 p t_def)
  qed
  then show ?thesis
    unfolding write_data_def t Option.bind.simps Let_def p_def [symmetric] x_def [symmetric] x
    by (auto simp: write_fail_def split: option.splits)
qed

text \<open>C11. tcp_write always returns: on a connection whose queues and buffers are as described, no
  allocation failure, full queue or argument makes it read or write outside a buffer or
  follow a null pointer, and the loop over the segments ends.\<close>

theorem tcp_write_returns:
  assumes "sendq_ok pcb" "spare_ok pcb" "sizes_ok ev pcb (write_optflags pcb is_dummy)"
    and "unat (snd_queuelen pcb) \<le> unat (max_unsent_len pcb)"
  shows "\<exists>e pcb' nt'. tcp_write ev pcb nt is_null arg is_dummy = Some (e, pcb', nt')"
proof -
  define p where "p = note_small pcb (length arg) is_dummy"
  obtain c p1 where c: "tcp_write_checks p (of_nat (length arg)) = (c, p1)" by fastforce
  have "pcb = pcb\<lparr>snd_sml_add := snd_sml_add pcb\<rparr>" by simp
  then obtain x where x: "p = pcb\<lparr>snd_sml_add := x\<rparr>" unfolding p_def note_small_def by metis
  have e: "write_mss p = write_mss pcb" "write_optflags p is_dummy = write_optflags pcb is_dummy"
    "room ev p n = room ev pcb n" "LWIP_TCP_OPT_LENGTH p f = LWIP_TCP_OPT_LENGTH pcb f"
    "tail_fits p m s = tail_fits pcb m s" "unsent p = unsent pcb" for n f m s
    by (simp_all add: x write_mss_def Let_def write_optflags_def room_def LWIP_TCP_OPT_LENGTH_def tail_fits_def)
  have "sendq_ok p" "spare_ok p" "unat (snd_queuelen p) \<le> unat (max_unsent_len p)"
    using assms(1,2,4) by (simp_all add: x sendq_ok_def spare_ok_def)
  moreover have "sizes_ok ev p (write_optflags p is_dummy)" using assms(3) unfolding sizes_ok_def e .
  ultimately have "write_data ev p nt arg is_dummy \<noteq> None" by (intro write_data_returns)
  then show ?thesis
    using c write_checks_frame [OF c] by (auto simp: tcp_write_def p_def [symmetric] Let_def)
qed

text \<open>A concrete connection: an unsent segment with one byte, one byte of spare room in its
  buffer, an MSS of four, and an allocator that gives buffers of 40 bytes.\<close>

definition ex_wenv :: tcp_env where
  "ex_wenv = ex_env\<lparr>external_tcp_tx_pbuf_alloc := (\<lambda>_. Some ((ex_pbuf [] 0)\<lparr>pb_buf := replicate 40 0, pb_off := 20\<rparr>)),
     external_tcp_seg_alloc := (\<lambda>n. Some (100 + n))\<rparr>"

definition ex_wseg :: tcp_seg where
  "ex_wseg = seg_zero\<lparr>sg_addr := 1, sg_p := [(ex_pbuf [] 0)\<lparr>pb_buf := replicate 20 0 @ [7, 0, 0], pb_off := 0, pb_len := 21, pb_tot_len := 21\<rparr>],
     sg_len := 1, sg_seqno := 100, sg_tcphdr := TCPH_HDRLEN_FLAGS_SET hdr_zero 5 0\<rparr>"

definition ex_wpcb :: tcp_pcb where
  "ex_wpcb = pcb_zero\<lparr>private_state := ESTABLISHED, snd_buf := 100, mss := 4, snd_wnd_max := 1000, unsent := [ex_wseg],
     unsent_oversize := 1, snd_lbb := 101, max_unsent_len := 10\<rparr>"

lemma ex_write: "map_option fst (tcp_write ex_wenv ex_wpcb net_zero False [1, 2, 3, 4, 5, 6, 7, 8] False) = Some ERR_OK"
  by code_simp

lemma ex_write_pre: "sendq_ok ex_wpcb" "stream (unsent ex_wpcb) = [7]"
  by code_simp+

lemma ex_write_sizes: "sizes_ok ex_wenv ex_wpcb (write_optflags ex_wpcb False)"
proof -
  have "write_mss ex_wpcb = 4" "write_optflags ex_wpcb False = 0" "LWIP_TCP_OPT_LENGTH ex_wpcb 0 = 0"
    "tail_fits ex_wpcb 4 (last (unsent ex_wpcb))" "list_all (roomy 4) (pbuf_alloc ex_wpcb)"
    "roomy 4 ((ex_pbuf [] 0)\<lparr>pb_buf := replicate 40 0, pb_off := 20\<rparr>)"
    by code_simp+
  then show ?thesis by (simp add: sizes_ok_def room_def ex_wenv_def)
qed

theorem tcp_write_appends_witness:
  "\<exists>pcb' nt'. tcp_write ex_wenv ex_wpcb net_zero False [1, 2, 3, 4, 5, 6, 7, 8] False = Some (ERR_OK, pcb', nt')
    \<and> stream (unsent pcb') = [7, 1, 2, 3, 4, 5, 6, 7, 8]"
proof -
  obtain pcb' nt' where "tcp_write ex_wenv ex_wpcb net_zero False [1, 2, 3, 4, 5, 6, 7, 8] False = Some (ERR_OK, pcb', nt')"
    using ex_write by auto
  with tcp_write_appends [OF this ex_write_pre(1) ex_write_sizes] show ?thesis by (simp add: ex_write_pre(2))
qed

theorem tcp_write_returns_witness:
  "\<exists>e pcb' nt'. tcp_write ex_wenv ex_wpcb net_zero False (replicate 1000 1) False = Some (e, pcb', nt')"
proof -
  have "spare_ok ex_wpcb" "unat (snd_queuelen ex_wpcb) \<le> unat (max_unsent_len ex_wpcb)" by code_simp+
  then show ?thesis by (intro tcp_write_returns ex_write_pre ex_write_sizes)
qed

end
