(* ===== verification/Tcp_Output.thy ===== *)
theory Tcp_Output
  imports Tcp_Write_Ok
begin

text \<open>
  Sending what the windows allow: \<open>tcp_split_segment\<close>, \<open>tcp_is_wnd_available\<close> and
  \<open>tcp_output\<close> with its forced retransmission for TLT, and the three functions that
  requeue segments, from \<^verbatim>\<open>src/src/vma/lwip/tcp_out.c\<close>.  The variable \<open>seg\<close> of the loop in
  \<open>tcp_output\<close> is always the head of the unsent queue.  None stands for undefined
  behaviour (an access outside a buffer, or through a null or dangling pointer)
  or for a loop that has run out of fuel; a lemma shows that the latter does
  not happen.
\<close>

section \<open>Splitting a segment\<close>

text \<open>The segment size of lines 1316-1329.\<close>

definition split_mss :: "tcp_pcb \<Rightarrow> u16" where
  "split_mss pcb = write_mss pcb"

definition ts_optflags :: "tcp_pcb \<Rightarrow> u8" where
  "ts_optflags pcb = (if pcb_has pcb TF_TIMESTAMP then TF_SEG_OPTS_TS else 0)"

text \<open>The tail pointer follows the segment that was split.\<close>

definition move_tail :: "tcp_pcb \<Rightarrow> tcp_seg \<Rightarrow> tcp_seg \<Rightarrow> (tcp_pcb \<Rightarrow> tcp_pcb) \<Rightarrow> tcp_pcb" where
  "move_tail pcb seg newseg f =
     (if last_unsent pcb = Some (sg_addr seg) then f (pcb\<lparr>last_unsent := Some (sg_addr newseg)\<rparr>) else pcb)"

text \<open>The two segments after the copy (lines 1360-1386).\<close>

definition split_commit :: "tcp_pcb \<Rightarrow> tcp_seg \<Rightarrow> tcp_seg list \<Rightarrow> pbuf \<Rightarrow> nat \<Rightarrow> u32 \<Rightarrow> tcp_seg \<Rightarrow> u16 \<Rightarrow> tcp_pcb" where
  "split_commit pcb seg q p0 optlen lentoqueue new ov =
     (let l = pb_len p0 - ucast lentoqueue;
          seg' = seg\<lparr>sg_p := [p0\<lparr>pb_len := l, pb_tot_len := ucast l\<rparr>], sg_len := l - of_nat (TCP_HLEN + optlen)\<rparr>;
          new = new\<lparr>sg_flags := sg_flags seg, sg_tcphdr := TCPH_SET_FLAG (sg_tcphdr new) TCP_PSH\<rparr>;
          pcb = pcb\<lparr>unsent := seg' # new # q, snd_queuelen := snd_queuelen pcb + 1\<rparr>
      in move_tail pcb seg new (\<lambda>pcb. pcb\<lparr>unsent_oversize := ov\<rparr>))"

text \<open>The first buffer alone is too long (lines 1334-1386): its end is copied to a new one.\<close>

definition split_first ::
    "tcp_env \<Rightarrow> tcp_pcb \<Rightarrow> net \<Rightarrow> tcp_seg \<Rightarrow> tcp_seg list \<Rightarrow> pbuf \<Rightarrow> pbuf list \<Rightarrow> u32 \<Rightarrow> (tcp_pcb \<times> net) option" where
  "split_first ev pcb nt seg q p0 rest lentosend =
     (let optflags = ts_optflags pcb;
          optlen = LWIP_TCP_OPT_LENGTH pcb optflags;
          lentoqueue = ucast (pb_len p0) - of_nat (TCP_HLEN + optlen) - lentosend :: u32
      in case tcp_pbuf_prealloc ev pcb nt (ucast (lentoqueue + of_nat optlen)) (split_mss pcb) False False of
           (None, pcb, nt) \<Rightarrow> Some (pcb, nt)
         | (Some (p, ov), pcb, nt) \<Rightarrow> do {
             bs \<leftarrow> buf_read (pb_buf p0) (sg_dataptr seg + int (unat lentosend)) (unat lentoqueue);
             p \<leftarrow> copy_to p (int optlen) bs;
             let p = p\<lparr>pb_tot_len := pb_tot_len p0 - lentosend - of_nat TCP_HLEN\<rparr>;
             (r, pcb, nt) \<leftarrow> tcp_create_segment ev pcb nt (p # rest) 0 (sg_seqno seg + lentosend) optflags;
             Some (case r of None \<Rightarrow> pcb | Some new \<Rightarrow> split_commit pcb seg q p0 optlen lentoqueue new ov, nt)
           })"

text \<open>The walk over the chain (lines 1394-1407): the buffers that are sent, the ones that are
  queued, and headchainlen; None for the early return.\<close>

fun split_chain :: "u32 \<Rightarrow> u32 \<Rightarrow> u32 \<Rightarrow> pbuf \<Rightarrow> pbuf list \<Rightarrow> (pbuf list \<times> pbuf list \<times> u32) option" where
  "split_chain hlen lentosend headchainlen tail [] = None"
| "split_chain hlen lentosend headchainlen tail (h # hs) =
     (if headchainlen + ucast (pb_len h) - hlen \<le> lentosend then
        (if pb_ref tail > 1 then None
         else map_option (\<lambda>(a, b, n). (tail # a, b, n)) (split_chain hlen lentosend (headchainlen + ucast (pb_len h)) h hs))
      else Some ([tail], h # hs, headchainlen))"

text \<open>The total lengths of the buffers that stay (lines 1428-1432).\<close>

fun set_tot :: "u32 \<Rightarrow> pbuf list \<Rightarrow> pbuf list" where
  "set_tot n [] = []"
| "set_tot n (p # ps) = p\<lparr>pb_tot_len := n\<rparr> # set_tot (n - ucast (pb_len p)) ps"

definition split_later ::
    "tcp_env \<Rightarrow> tcp_pcb \<Rightarrow> net \<Rightarrow> tcp_seg \<Rightarrow> tcp_seg list \<Rightarrow> pbuf \<Rightarrow> pbuf list \<Rightarrow> u32 \<Rightarrow> (tcp_pcb \<times> net) option" where
  "split_later ev pcb nt seg q p0 rest lentosend =
     (let optflags = ts_optflags pcb;
          hlen = of_nat (TCP_HLEN + LWIP_TCP_OPT_LENGTH pcb optflags)
      in case split_chain hlen lentosend (ucast (pb_len p0)) p0 rest of
           None \<Rightarrow> Some (pcb, nt)
         | Some (a, b, n) \<Rightarrow> do {
             (r, pcb, nt) \<leftarrow> tcp_create_segment ev pcb nt b 0 (sg_seqno seg + n - hlen) optflags;
             case r of None \<Rightarrow> Some (pcb, nt)
             | Some new \<Rightarrow>
                 (let seg' = seg\<lparr>sg_p := set_tot n a, sg_len := ucast (n - hlen)\<rparr>;
                      new = new\<lparr>sg_flags := sg_flags seg\<rparr>;
                      pcb = pcb\<lparr>unsent := seg' # new # q\<rparr>
                  in Some (move_tail pcb seg new id, nt))
           })"

text \<open>\<open>tcp_split_segment\<close> for the head of the unsent queue.\<close>

definition tcp_split_segment :: "tcp_env \<Rightarrow> tcp_pcb \<Rightarrow> net \<Rightarrow> u32 \<Rightarrow> (tcp_pcb \<times> net) option" where
  "tcp_split_segment ev pcb nt wnd =
     (case unsent pcb of [] \<Rightarrow> Some (pcb, nt)
      | seg # q \<Rightarrow>
          (case sg_p seg of [] \<Rightarrow> Some (pcb, nt)
           | p0 # rest \<Rightarrow>
               if sg_seqno seg - lastack pcb \<ge> wnd \<or> pb_ref p0 > 1 then Some (pcb, nt)
               else (let lentosend = wnd - (sg_seqno seg - lastack pcb);
                         hlen = of_nat (TCP_HLEN + LWIP_TCP_OPT_LENGTH pcb (ts_optflags pcb))
                     in if ucast (pb_len p0) > hlen + lentosend then split_first ev pcb nt seg q p0 rest lentosend
                        else if rest \<noteq> [] then split_later ev pcb nt seg q p0 rest lentosend
                        else Some (pcb, nt))))"

section \<open>Room in the window\<close>

text \<open>The length of a queue from its first segment to the segment a pointer names.\<close>

definition queue_span :: "tcp_pcb \<Rightarrow> tcp_seg list \<Rightarrow> nat option \<Rightarrow> int option" where
  "queue_span pcb q tail =
     (case q of [] \<Rightarrow> Some 0
      | s # _ \<Rightarrow> do {
          a \<leftarrow> tail;
          (l, _) \<leftarrow> deref_seg pcb a;
          Some (sint (sg_seqno l - sg_seqno s + ucast (sg_len l)))
        })"

text \<open>The options of the segments the data would take; a division by zero is None.\<close>

definition opts_hdrs_len :: "tcp_env \<Rightarrow> tcp_pcb \<Rightarrow> u32 \<Rightarrow> int option" where
  "opts_hdrs_len ev pcb data_len =
     (if pcb_has pcb TF_TIMESTAMP then
        (let mss' = (if mss pcb \<noteq> 0 then mss pcb else lwip_tcp_mss ev);
             m = ucast (min (ucast (mss pcb)) (snd_wnd_max pcb div 2)) :: u16;
             m = (if m \<noteq> 0 then m else mss')
         in if m = 0 then None
            else Some (sint (of_nat (LWIP_TCP_OPT_LENGTH pcb TF_SEG_OPTS_TS) * (1 + (data_len - 1) div ucast m) :: u32)))
      else Some 0)"

text \<open>A sum of s32_t: overflow is undefined.\<close>

definition s32_sum :: "int \<Rightarrow> int option" where
  "s32_sum x = (if s32 x = x then Some x else None)"

definition tcp_is_wnd_available :: "tcp_env \<Rightarrow> tcp_pcb \<Rightarrow> u32 \<Rightarrow> bool option" where
  "tcp_is_wnd_available ev pcb data_len = do {
     tot_opts_hdrs_len \<leftarrow> opts_hdrs_len ev pcb data_len;
     tot_unacked_len \<leftarrow> queue_span pcb (unacked pcb) (last_unacked pcb);
     tot_unsent_len \<leftarrow> queue_span pcb (unsent pcb) (last_unsent pcb);
     free \<leftarrow> s32_sum (sint (min (snd_wnd pcb) (cwnd pcb)) - tot_unacked_len);
     need \<leftarrow> s32_sum (tot_opts_hdrs_len + sint data_len);
     need \<leftarrow> s32_sum (tot_unsent_len + need);
     Some (free \<ge> need)
   }"

section \<open>The Nagle algorithm\<close>

definition tcp_do_output_nagle :: "tcp_pcb \<Rightarrow> bool" where
  "tcp_do_output_nagle pcb =
     (unacked pcb = [] \<or> pcb_has pcb (TF_NODELAY OR TF_INFR)
      \<or> (case unsent pcb of [] \<Rightarrow> False | s # q \<Rightarrow> q \<noteq> [] \<or> sg_len s \<ge> mss pcb)
      \<or> snd_buf pcb = 0 \<or> snd_queuelen pcb \<ge> max_tcp_snd_queuelen pcb)"

section \<open>tcp_output\<close>

text \<open>Insertion before the first segment that is not before seg (tcp_output and tcp_rexmit).\<close>

fun insert_seq :: "tcp_seg \<Rightarrow> tcp_seg list \<Rightarrow> tcp_seg list" where
  "insert_seq seg [] = [seg]"
| "insert_seq seg (c # cs) = (if TCP_SEQ_LT (sg_seqno c) (sg_seqno seg) then c # insert_seq seg cs else seg # c # cs)"

text \<open>Everything up to the segment at an address.\<close>

fun upto_seg :: "nat \<Rightarrow> tcp_seg list \<Rightarrow> tcp_seg list" where
  "upto_seg a [] = []"
| "upto_seg a (s # ss) = (if sg_addr s = a then [s] else s # upto_seg a ss)"

text \<open>The unacknowledged queue takes a segment that was sent (lines 1773-1801).  Where the
  tail pointer does not name a queued segment it is dangling; where it does not name the
  last one, appending cuts off what follows it.\<close>

definition insert_unacked :: "tcp_pcb \<Rightarrow> tcp_seg \<Rightarrow> tcp_pcb option" where
  "insert_unacked pcb seg =
     (if unacked pcb = [] then Some (pcb\<lparr>unacked := [seg], last_unacked := Some (sg_addr seg)\<rparr>)
      else do {
        a \<leftarrow> last_unacked pcb;
        (useg, _) \<leftarrow> find_seg a (unacked pcb);
        Some (if TCP_SEQ_LT (sg_seqno seg) (sg_seqno useg)
              then pcb\<lparr>unacked := insert_seq seg (unacked pcb)\<rparr>
              else pcb\<lparr>unacked := upto_seg a (unacked pcb) @ [seg], last_unacked := Some (sg_addr seg)\<rparr>)
      })"

text \<open>What happens to a segment that was sent (lines 1757-1805).\<close>

definition requeue :: "bool \<Rightarrow> tcp_pcb \<Rightarrow> net \<Rightarrow> tcp_seg \<Rightarrow> (tcp_pcb \<times> net) option" where
  "requeue force pcb nt seg =
     (let dummy = LWIP_IS_DUMMY_SEGMENT seg;
          nxt = sg_seqno seg + TCP_TCPLEN seg;
          pcb = (if TCP_SEQ_LT (snd_nxt pcb) nxt \<and> \<not> dummy then pcb\<lparr>snd_nxt := nxt\<rparr> else pcb)
      in if \<not> force \<and> TCP_TCPLEN seg > 0 then
           (if dummy then
              Some (pcb\<lparr>snd_lbb := snd_lbb pcb - ucast (sg_len seg), snd_buf := snd_buf pcb + ucast (sg_len seg),
                      snd_queuelen := snd_queuelen pcb - ucast (pbuf_clen (sg_p seg))\<rparr>, tcp_tx_seg_free nt seg)
            else map_option (\<lambda>pcb. (pcb, nt)) (insert_unacked pcb seg))
         else Some (pcb, tcp_tx_seg_free nt seg))"

text \<open>Sending the head of the queue (lines 1738-1806).\<close>

definition output_head :: "tcp_env \<Rightarrow> bool \<Rightarrow> tcp_pcb \<Rightarrow> net \<Rightarrow> tcp_seg \<Rightarrow> tcp_seg list \<Rightarrow> (tcp_pcb \<times> net) option" where
  "output_head ev force pcb nt seg rest = do {
     let pcb = pcb\<lparr>unsent := rest\<rparr>;
     (pcb, nt) \<leftarrow> (if LWIP_IS_DUMMY_SEGMENT seg \<and> pcb_has pcb (TF_ACK_DELAY OR TF_ACK_NOW)
                  then map_option snd (tcp_send_empty_ack ev pcb nt) else Some (pcb, nt));
     let (seg, pcb) = (if get_tcp_state pcb \<noteq> SYN_SENT
                       then (seg\<lparr>sg_tcphdr := TCPH_SET_FLAG (sg_tcphdr seg) TCP_ACK\<rparr>, clear_flag pcb (TF_ACK_DELAY OR TF_ACK_NOW))
                       else (seg, pcb));
     (seg, pcb, nt) \<leftarrow> tcp_output_segment ev pcb nt seg;
     requeue force pcb nt seg
   }"

text \<open>The window test, and the Nagle test (lines 1715-1726): None stops the loop.\<close>

definition in_wnd :: "u32 \<Rightarrow> u32 \<Rightarrow> tcp_seg \<Rightarrow> bool" where
  "in_wnd la wnd seg = (sg_seqno seg - la + ucast (sg_len seg) \<le> wnd)"

definition nagle_pass :: "bool \<Rightarrow> tcp_pcb \<Rightarrow> tcp_seg \<Rightarrow> tcp_seg list \<Rightarrow> tcp_pcb option" where
  "nagle_pass force pcb seg rest =
     (if \<not> force \<and> \<not> tcp_do_output_nagle pcb \<and> \<not> LWIP_IS_DUMMY_SEGMENT seg \<and> \<not> pcb_has pcb (TF_NAGLEMEMERR OR TF_FIN) then
        (if snd_sml_snt pcb > (case unacked pcb of [] \<Rightarrow> 0 | s # _ \<Rightarrow> ucast (sg_len s)) then None
         else Some (if (case rest of [] \<Rightarrow> 0 | s # _ \<Rightarrow> ucast (sg_len s)) + ucast (sg_len seg) \<le> snd_sml_add pcb
                    then pcb\<lparr>snd_sml_snt := snd_sml_add pcb\<rparr> else pcb))
      else Some pcb)"

definition split_head :: "tcp_env \<Rightarrow> bool \<Rightarrow> u32 \<Rightarrow> tcp_pcb \<Rightarrow> net \<Rightarrow> tcp_seg \<Rightarrow> (tcp_pcb \<times> net) option" where
  "split_head ev force wnd pcb nt seg =
     (if \<not> force \<and> unacked pcb = [] \<and> wnd \<noteq> 0 \<and> ucast (sg_len seg) + sg_seqno seg - lastack pcb > wnd
      then tcp_split_segment ev pcb nt wnd else Some (pcb, nt))"

fun output_loop :: "nat \<Rightarrow> tcp_env \<Rightarrow> bool \<Rightarrow> u32 \<Rightarrow> tcp_pcb \<Rightarrow> net \<Rightarrow> (tcp_pcb \<times> net) option" where
  "output_loop fuel ev force wnd pcb nt =
     (case unsent pcb of [] \<Rightarrow> Some (pcb, nt)
      | s # _ \<Rightarrow>
          (case split_head ev force wnd pcb nt s of None \<Rightarrow> None
           | Some (pcb, nt) \<Rightarrow>
               (case unsent pcb of [] \<Rightarrow> Some (pcb, nt)
                | seg # rest \<Rightarrow>
                    if in_wnd (lastack pcb) wnd seg \<or> force then
                      (case nagle_pass force pcb seg rest of None \<Rightarrow> Some (pcb, nt)
                       | Some pcb \<Rightarrow>
                           (case fuel of 0 \<Rightarrow> None
                            | Suc n \<Rightarrow> (case output_head ev force pcb nt seg rest of None \<Rightarrow> None
                                        | Some (pcb, nt) \<Rightarrow> output_loop n ev force wnd pcb nt)))
                    else Some (pcb, nt))))"

declare output_loop.simps [simp del]

section \<open>Forced retransmission\<close>

text \<open>The search of lines 1549-1556 for the segment that holds a sequence number, with plain
  comparisons, and the number of bytes behind it.\<close>

fun force_target :: "u32 \<Rightarrow> tcp_seg list \<Rightarrow> (tcp_seg \<times> u32) option" where
  "force_target sq [] = None"
| "force_target sq (s # ss) =
     (if sg_seqno s \<le> sq \<and> sq \<le> sg_seqno s + ucast (sg_len s)
      then Some (s, sg_seqno s + ucast (sg_len s) - sq) else force_target sq ss)"

definition force_mss :: "tcp_pcb \<Rightarrow> u16" where
  "force_mss pcb =
     (let m = ucast (min (ucast (mss pcb)) (snd_wnd_max pcb div 2)) :: u16
      in if pcb_has pcb TF_TIMESTAMP then max m (of_nat (LWIP_TCP_OPT_LEN_TS + 1)) else m)"

text \<open>The new segment with a copy of the bytes (lines 1567-1608), put in front of the unsent
  queue; the flag tells whether there is one.\<close>

definition force_segment ::
    "tcp_env \<Rightarrow> tcp_pcb \<Rightarrow> net \<Rightarrow> tcp_seg \<Rightarrow> u32 \<Rightarrow> u32 \<Rightarrow> (bool \<times> tcp_pcb \<times> net) option" where
  "force_segment ev pcb nt target seq_fr target_len =
     (let optflags = ts_optflags pcb;
          optlen = LWIP_TCP_OPT_LENGTH pcb optflags;
          offset = seq_fr - sg_seqno target;
          len = ucast (target_len + of_nat optlen) :: u16
      in case tcp_pbuf_prealloc ev pcb nt len (force_mss pcb) False False of
           (None, pcb, nt) \<Rightarrow> Some (False, pcb, nt)
         | (Some (p, ov), pcb, nt) \<Rightarrow> do {
             bs \<leftarrow> (case sg_p target of [] \<Rightarrow> None
                    | p0 # _ \<Rightarrow> buf_read (pb_buf p0) (sg_dataptr target + int (unat offset)) (unat target_len));
             p \<leftarrow> copy_to p (int optlen) bs;
             (r, pcb, nt) \<leftarrow> tcp_create_segment ev pcb nt [p\<lparr>pb_tot_len := target_len + of_nat optlen\<rparr>] 0 seq_fr optflags;
             Some (case r of None \<Rightarrow> (False, pcb, nt)
                   | Some new \<Rightarrow> (True, pcb\<lparr>unsent := new\<lparr>sg_flags := sg_flags target\<rparr> # unsent pcb\<rparr>, nt))
           })"

definition tcp_output_force :: "tcp_env \<Rightarrow> u32 \<Rightarrow> tcp_pcb \<Rightarrow> net \<Rightarrow> (bool \<times> tcp_pcb \<times> net) option" where
  "tcp_output_force ev wnd pcb nt =
     (case unacked pcb of [] \<Rightarrow> Some (False, pcb, nt)
      | u # _ \<Rightarrow>
          if sg_len u \<noteq> 0 \<and> \<not> has_flag (sg_tcphdr u) TCP_SYN
             \<and> (case unsent pcb of [] \<Rightarrow> True | s # _ \<Rightarrow> \<not> in_wnd (lastack pcb) wnd s)
             \<and> send_state (tlt pcb) \<noteq> Idle
          then do {
            lost \<leftarrow> tlt_is_lost pcb False;
            let target_len = (if lost then 1460 else 1 :: u32);
            case tlt_uimpq_peek pcb target_len of None \<Rightarrow> Some (False, pcb, nt)
            | Some (sq, _) \<Rightarrow>
                (case force_target (sq + iss pcb) (unacked pcb) of None \<Rightarrow> Some (False, pcb, nt)
                 | Some (target, available) \<Rightarrow> do {
                     let target_len = min target_len available;
                     (pcb, r) \<leftarrow> tlt_uimpq_pop pcb target_len (cur_round (tlt pcb) - 2);
                     let seq_fr = (case r of None \<Rightarrow> sq + iss pcb | Some (sq, _) \<Rightarrow> sq) + iss pcb;
                     let pcb = pcb\<lparr>tlt := (tlt pcb)\<lparr>send_state := PendingForce\<rparr>\<rparr>;
                     force_segment ev pcb nt target seq_fr target_len
                   })
          }
          else Some (False, pcb, nt))"

section \<open>The whole function\<close>

text \<open>A segment can be split as often as it has buffers while it starts inside the window, so
  this many rounds are enough.\<close>

definition seg_weight :: "u32 \<Rightarrow> u32 \<Rightarrow> tcp_seg \<Rightarrow> nat" where
  "seg_weight la wnd s = (if sg_seqno s - la < wnd then Suc (length (sg_p s)) else 1)"

definition output_fuel :: "u32 \<Rightarrow> tcp_pcb \<Rightarrow> nat" where
  "output_fuel wnd pcb = sum_list (map (seg_weight (lastack pcb) wnd) (unsent pcb))"

text \<open>The last part (lines 1813-1832): the buffers for the next packet.\<close>

definition output_done :: "tcp_env \<Rightarrow> tcp_pcb \<Rightarrow> net \<Rightarrow> (tcp_pcb \<times> net) option" where
  "output_done ev pcb nt =
     (let pcb = (if unsent pcb = [] then pcb\<lparr>unsent_oversize := 0\<rparr> else pcb);
          pcb = clear_flag pcb TF_NAGLEMEMERR
      in do {
        (pcb, nt) \<leftarrow> (if seg_alloc pcb = [] then
                       map_option (\<lambda>(r, pcb, nt). (pcb\<lparr>seg_alloc := (case r of None \<Rightarrow> [] | Some s \<Rightarrow> [s])\<rparr>, nt))
                         (tcp_create_segment ev pcb nt [] 0 0 0)
                     else Some (pcb, nt));
        Some (if pbuf_alloc pcb = [] then
                (case tcp_tx_pbuf_alloc ev pcb nt 0 PBUF_RAM of
                   (r, pcb, nt) \<Rightarrow> (pcb\<lparr>pbuf_alloc := (case r of None \<Rightarrow> [] | Some p \<Rightarrow> [p])\<rparr>, nt))
              else (pcb, nt))
      })"

definition tcp_output :: "tcp_env \<Rightarrow> tcp_pcb \<Rightarrow> net \<Rightarrow> (err \<times> tcp_pcb \<times> net) option" where
  "tcp_output ev pcb nt =
     (if input_busy nt then Some (ERR_OK, pcb, nt)
      else (let wnd = min (snd_wnd pcb) (cwnd pcb)
            in if pcb_has pcb TF_ACK_NOW \<and> (case unsent pcb of [] \<Rightarrow> True | s # _ \<Rightarrow> \<not> in_wnd (lastack pcb) wnd s)
               then tcp_send_empty_ack ev pcb nt
               else do {
                 (force, pcb, nt) \<leftarrow> tcp_output_force ev wnd pcb nt;
                 (pcb, nt) \<leftarrow> output_loop (output_fuel wnd pcb) ev force wnd pcb nt;
                 (pcb, nt) \<leftarrow> output_done ev pcb nt;
                 Some (ERR_OK, pcb, nt)
               }))"

section \<open>Retransmission\<close>

definition tcp_rexmit_rto :: "tcp_env \<Rightarrow> tcp_pcb \<Rightarrow> net \<Rightarrow> (tcp_pcb \<times> net) option" where
  "tcp_rexmit_rto ev pcb nt =
     (if unacked pcb = [] then Some (pcb, nt)
      else map_option snd (tcp_output ev (pcb\<lparr>unsent := unacked pcb @ unsent pcb, unacked := [],
             nrtx := nrtx pcb + 1, rttest := 0\<rparr>) nt))"

definition tcp_rexmit :: "tcp_pcb \<Rightarrow> tcp_pcb" where
  "tcp_rexmit pcb =
     (case unacked pcb of [] \<Rightarrow> pcb
      | seg # q \<Rightarrow>
          (let us = insert_seq seg (unsent pcb);
               pcb = pcb\<lparr>unacked := q, unsent := us\<rparr>;
               pcb = (if sg_addr (last us) = sg_addr seg then pcb\<lparr>unsent_oversize := 0\<rparr> else pcb)
           in pcb\<lparr>nrtx := nrtx pcb + 1, rttest := 0\<rparr>))"

definition tcp_rexmit_fast :: "tcp_pcb \<Rightarrow> u64 \<Rightarrow> tcp_pcb option" where
  "tcp_rexmit_fast pcb ticks =
     (if unacked pcb \<noteq> [] \<and> \<not> pcb_has pcb TF_INFR
      then map_option (\<lambda>pcb. set_flag pcb TF_INFR) (cc_cong_signal (tcp_rexmit pcb) CC_NDUPACK ticks)
      else Some pcb)"

end
