(* ===== verification/Tcp_Output_Ok.thy ===== *)
theory Tcp_Output_Ok
  imports Tcp_Output
begin

text \<open>
  What \<open>tcp_output\<close> does with the queues: the rounds of its loop are bounded; a call that
  is not forced sends only packets that lie in the window and loses no byte, also
  where it splits a segment; a forced call empties the unsent queue.
\<close>

section \<open>What sending one segment keeps\<close>

text \<open>The part of the pcb that decides what is sent.\<close>

definition kept :: "tcp_pcb \<Rightarrow> tcp_pcb \<Rightarrow> bool" where
  "kept p q = (unsent q = unsent p \<and> unacked q = unacked p \<and> last_unacked q = last_unacked p
     \<and> lastack q = lastack p \<and> seg_alloc q = seg_alloc p
     \<and> flags q AND TF_TIMESTAMP = flags p AND TF_TIMESTAMP \<and> sack_permitted q = sack_permitted p
     \<and> rcv_sack_block_cnt q = rcv_sack_block_cnt p)"

lemma kept_trans: "kept p q \<Longrightarrow> kept q r \<Longrightarrow> kept p r"
  by (simp add: kept_def)

lemma kept_refl [simp]: "kept p p"
  by (simp add: kept_def)

lemma kept_upd [simp]:
  "kept p (p\<lparr>snd_nxt := a\<rparr>)" "kept p (p\<lparr>dctcp := b\<rparr>)" "kept p (p\<lparr>tlt := c\<rparr>)" "kept p (p\<lparr>rtime := d\<rparr>)"
  "kept p (p\<lparr>rttest := e, rtseq := f\<rparr>)" "kept p (p\<lparr>rcv_ann_right_edge := e\<rparr>)" "kept p (p\<lparr>ts_lastacksent := e\<rparr>)"
  "kept p (p\<lparr>snd_sml_snt := e\<rparr>)"
  by (simp_all add: kept_def)

text \<open>And the part of a segment that decides what is in the packet.\<close>

definition seg_kept :: "tcp_seg \<Rightarrow> tcp_seg \<Rightarrow> bool" where
  "seg_kept s t = (sg_addr t = sg_addr s \<and> sg_seqno t = sg_seqno s \<and> sg_len t = sg_len s \<and> sg_flags t = sg_flags s
     \<and> sg_dataptr t = sg_dataptr s \<and> TCPH_HDRLEN (sg_tcphdr t) = TCPH_HDRLEN (sg_tcphdr s)
     \<and> th_seqno (sg_tcphdr t) = th_seqno (sg_tcphdr s))"

lemma seg_kept_trans: "seg_kept s t \<Longrightarrow> seg_kept t u \<Longrightarrow> seg_kept s u"
  by (simp add: seg_kept_def)

lemma seg_kept_refl [simp]: "seg_kept s s"
  by (simp add: seg_kept_def)

lemma flag_drop [simp]:
  "drop_bit 12 TCP_ACK = 0" "drop_bit 12 TCP_ECE = 0" "drop_bit 12 TCP_CWR = 0" "drop_bit 12 TCP_PSH = 0" "drop_bit 12 TCP_FIN = 0"
  by (simp_all add: TCP_ACK_def TCP_ECE_def TCP_CWR_def TCP_PSH_def TCP_FIN_def)

lemma th_seqno_flags [simp]:
  "th_seqno (TCPH_SET_FLAG h f) = th_seqno h" "th_seqno (TCPH_UNSET_FLAG h f) = th_seqno h"
  "th_seqno (TCPH_HDRLEN_FLAGS_SET h n f) = th_seqno h"
  by (simp_all add: TCPH_SET_FLAG_def TCPH_UNSET_FLAG_def TCPH_HDRLEN_FLAGS_SET_def)

lemma HDRLEN_UNSET_FLAG [simp]: "TCPH_HDRLEN (TCPH_UNSET_FLAG h f) = TCPH_HDRLEN h"
proof -
  have "drop_bit 12 TCP_FLAGS = 0" by (simp add: TCP_FLAGS_def)
  then show ?thesis
    by (simp add: TCPH_HDRLEN_def TCPH_UNSET_FLAG_def TCPH_FLAGS_def ntohs_or drop_bit_or)
qed

lemma dctcp_send_empty_kept:
  "kept p (fst (dctcp_send_empty p h))" "TCPH_HDRLEN (snd (dctcp_send_empty p h)) = TCPH_HDRLEN h"
  "th_seqno (snd (dctcp_send_empty p h)) = th_seqno h" "pbuf_alloc (fst (dctcp_send_empty p h)) = pbuf_alloc p"
  by (simp_all add: dctcp_send_empty_def Let_def TCPH_HDRLEN_SET_FLAG split: prod.splits)

lemma dctcp_send_kept:
  assumes "dctcp_send p s = (p', s')"
  shows "kept p p' \<and> pbuf_alloc p' = pbuf_alloc p \<and> seg_kept s s' \<and> sg_p s' = sg_p s"
proof -
  have "p' = fst (dctcp_send_empty p (sg_tcphdr s))" "\<exists>t. s' = s\<lparr>sg_tcphdr := snd (dctcp_send_empty p (sg_tcphdr s)), sg_tos := t\<rparr>"
    using assms by (auto simp: dctcp_send_def Let_def split: prod.splits if_splits)
  then show ?thesis using dctcp_send_empty_kept [of p "sg_tcphdr s"] by (auto simp: seg_kept_def)
qed

lemma tlt_out_kept:
  assumes "tlt_out p s = Some (p', s')"
  shows "kept p p' \<and> pbuf_alloc p' = pbuf_alloc p \<and> seg_kept s s' \<and> sg_p s' = sg_p s"
  using assms
  by (auto simp: tlt_out_def tlt_send_payload_def tlt_send_syn_def tlt_send_ack_def seg_tos_or_def seg_kept_def bind_eq_Some_conv
      split: if_splits tlt_state.splits)

lemma start_timers_kept [simp]: "kept p (start_timers p n s)" "pbuf_alloc (start_timers p n s) = pbuf_alloc p"
  by (simp_all add: start_timers_def Let_def kept_def)

lemma output_segment_kept:
  assumes "tcp_output_segment ev pcb nt seg = Some (seg', pcb', nt')"
  shows "kept pcb pcb' \<and> pbuf_alloc pcb' = pbuf_alloc pcb \<and> seg_kept seg seg'
    \<and> (\<exists>x t. nt' = nt\<lparr>nt_sent := nt_sent nt @ [\<lparr>pk_hdr = sg_tcphdr seg', pk_data = drop 20 (chain_data (sg_p seg')),
          pk_rexmit = x, pk_dummy = LWIP_IS_DUMMY_SEGMENT seg, pk_tos = t\<rparr>]\<rparr>)
    \<and> (segment_options ev pcb (sys_now nt) (sg_flags seg) = [] \<longrightarrow> sg_p seg' = sg_p seg)"
proof -
  define p1 where "p1 = (if LWIP_IS_DUMMY_SEGMENT seg then pcb else pcb\<lparr>rcv_ann_right_edge := rcv_nxt pcb + rcv_ann_wnd pcb\<rparr>)"
  define p2 where "p2 = (if LWIP_IS_DUMMY_SEGMENT seg then p1 else p1\<lparr>ts_lastacksent := rcv_nxt p1\<rparr>)"
  define ws where "ws = segment_options ev p1 (sys_now nt) (sg_flags seg)"
  have so: "segment_options ev p1 (sys_now nt) (sg_flags seg) = segment_options ev pcb (sys_now nt) (sg_flags seg)"
    by (simp add: p1_def segment_options_def tcp_build_timestamp_option_def)
  have k2: "kept pcb p2" by (simp add: p2_def p1_def kept_def)
  define h1 where "h1 = (sg_tcphdr seg)\<lparr>th_ackno := htonl (rcv_nxt pcb), th_wnd := htons
      (if sg_flags seg AND TF_SEG_OPTS_WNDSCALE \<noteq> 0 then TCPWND_MIN16 (rcv_ann_wnd pcb)
       else TCPWND_MIN16 (RCV_WND_SCALE pcb (rcv_ann_wnd pcb)))\<rparr>"
  define s1 where "s1 = (\<lambda>ps. seg\<lparr>sg_tcphdr := h1, sg_p := ps, sg_tos := tos p2\<rparr>)"
  note def = assms [unfolded tcp_output_segment_def Let_def, folded p1_def, folded p2_def]
  obtain p ps q where sp: "sg_p seg = p # ps" and q: "put_opts p ws = Some q"
    using def by (auto simp: bind_eq_Some_conv ws_def split: list.splits)
  obtain p3 s2 where d: "dctcp_send p2 (s1 (q # ps)) = (p3, s2)" by fastforce
  obtain p4 s3 where t: "tlt_out p3 s2 = Some (p4, s3)"
    and r: "pcb' = start_timers p4 (tcp_ticks nt) s3" "seg' = s3\<lparr>sg_tcphdr := (sg_tcphdr s3)\<lparr>th_chksum := 0\<rparr>\<rparr>"
      "nt' = ip_output nt (sg_tcphdr seg') (sg_p seg') (sg_seqno seg' < snd_nxt pcb') (LWIP_IS_DUMMY_SEGMENT seg) (sg_tos seg')"
    using def q d by (auto simp: sp bind_eq_Some_conv ws_def s1_def h1_def)
  have s1: "seg_kept seg (s1 x) \<and> sg_p (s1 x) = x" for x by (simp add: s1_def h1_def seg_kept_def TCPH_HDRLEN_def)
  have "seg_kept s3 seg' \<and> sg_p seg' = sg_p s3" by (simp add: r(2) seg_kept_def TCPH_HDRLEN_def)
  then have sk: "seg_kept seg seg' \<and> sg_p seg' = q # ps"
    using s1 dctcp_send_kept [OF d] tlt_out_kept [OF t] by (metis seg_kept_trans)
  have "kept pcb pcb'"
    using k2 dctcp_send_kept [OF d] tlt_out_kept [OF t] start_timers_kept(1) unfolding r(1) by (metis kept_trans)
  moreover have "pbuf_alloc pcb' = pbuf_alloc pcb"
    using dctcp_send_kept [OF d] tlt_out_kept [OF t] unfolding r(1) by (simp add: p2_def p1_def)
  moreover have "q = p" if "ws = []" using q that by (auto simp: put_opts_def words_bytes_def buf_write_def split: if_splits)
  ultimately show ?thesis
    using sk sp so by (auto simp: r(3) ip_output_def TCP_HLEN_def ws_def)
qed

lemma kept_alloc: "same_but_alloc p q \<Longrightarrow> seg_alloc q = seg_alloc p \<Longrightarrow> kept p q"
  by (auto simp: same_but_alloc_def kept_def)

lemma kept_clear: "f AND TF_TIMESTAMP = 0 \<Longrightarrow> kept p (clear_flag p f)"
proof -
  assume f: "f AND TF_TIMESTAMP = 0"
  have "bit (f AND TF_TIMESTAMP) n = False" for n by (simp add: f)
  then have "(flags p AND NOT f) AND TF_TIMESTAMP = flags p AND TF_TIMESTAMP"
    by (intro bit_eqI) (auto simp: bit_simps)
  then show ?thesis by (simp add: kept_def clear_flag_def)
qed

lemma kept_clear_ack [simp]: "kept p (clear_flag p (TF_ACK_DELAY OR TF_ACK_NOW))"
  by (rule kept_clear) (simp add: pcb_flag_defs)

lemma tx_alloc_segs: "tcp_tx_pbuf_alloc ev pcb nt len ty = (r, pcb', nt') \<Longrightarrow> nt_segs nt' = nt_segs nt"
  by (auto simp: tcp_tx_pbuf_alloc_def Let_def split: list.splits option.splits)

lemma alloc_header_kept:
  assumes "tcp_output_alloc_header ev pcb nt ol dl sq = (r, pcb', nt')"
  shows "kept pcb pcb' \<and> nt_segs nt' = nt_segs nt \<and> nt_sent nt' = nt_sent nt"
proof -
  obtain x p1 n1 where a: "tcp_tx_pbuf_alloc ev pcb nt (of_nat (ol + dl)) PBUF_RAM = (x, p1, n1)" by (metis prod_cases3)
  have "nt' = n1 \<and> (pcb' = p1 \<or> pcb' = p1\<lparr>rcv_ann_right_edge := rcv_nxt p1 + rcv_ann_wnd p1\<rparr>)"
    using assms unfolding tcp_output_alloc_header_def a by (auto simp: Let_def split: option.splits)
  then show ?thesis
    using tx_pbuf_alloc_frame [OF a] tx_alloc_segs [OF a] kept_trans [OF kept_alloc kept_upd(6)] kept_alloc by auto
qed

lemma tx_pbuf_free_net: "nt_segs (tcp_tx_pbuf_free nt ps) = nt_segs nt" "nt_sent (tcp_tx_pbuf_free nt ps) = nt_sent nt"
  by (induction nt ps rule: tcp_tx_pbuf_free.induct) (simp_all add: Let_def)

lemma send_empty_ack_kept:
  assumes "tcp_send_empty_ack ev pcb nt = Some (e, pcb', nt')"
  shows "kept pcb pcb' \<and> nt_segs nt' = nt_segs nt"
proof -
  define ol where "ol = (if sack_permitted pcb \<noteq> 0 then LWIP_TCP_OPT_LENGTH pcb 0
     else if pcb_has pcb TF_TIMESTAMP then LWIP_TCP_OPT_LENGTH pcb TF_SEG_OPTS_TS else 0)"
  obtain x p1 n1 where a: "tcp_output_alloc_header ev pcb nt ol 0 (htonl (snd_nxt pcb)) = (x, p1, n1)" by (metis prod_cases3)
  note k = alloc_header_kept [OF a]
  define p2 where "p2 = (clear_flag p1 (TF_ACK_DELAY OR TF_ACK_NOW))\<lparr>ts_lastacksent := rcv_nxt (clear_flag p1 (TF_ACK_DELAY OR TF_ACK_NOW))\<rparr>"
  have "kept p1 p2" using kept_trans [OF kept_clear_ack kept_upd(7)] by (simp add: p2_def)
  note def = assms [unfolded tcp_send_empty_ack_def Let_def, folded ol_def, unfolded a prod.case, folded p2_def]
  show ?thesis
  proof (cases x)
    case None
    then show ?thesis using def k by simp
  next
    case (Some ph)
    obtain p h where ph: "ph = (p, h)" by (cases ph)
    obtain q where "put_opts p ((if pcb_has p2 TF_TIMESTAMP then tcp_build_timestamp_option p2 (sys_now n1) else []) @
        (if sack_permitted p2 = 0 then [] else if has_flag h TCP_SYN then tcp_build_sack_perm_option else tcp_build_sack_option p2)) = Some q"
      using def Some ph by (auto simp: bind_eq_Some_conv)
    then have r: "pcb' = fst (tlt_out_empty_ack (fst (dctcp_send_empty p2 h)))" "nt_segs nt' = nt_segs n1"
      using def Some ph by (auto simp: tx_pbuf_free_net ip_output_def Let_def split: prod.splits)
    have "kept y (fst (tlt_out_empty_ack y))" for y
      by (auto simp: tlt_out_empty_ack_def split: tlt_state.splits)
    then show ?thesis
      using k \<open>kept p1 p2\<close> dctcp_send_empty_kept(1) [of p2 h] r kept_trans by metis
  qed
qed

lemma output_head_parts:
  assumes "output_head ev force pcb nt seg rest = Some (pcb', nt')"
  obtains p1 n0 n1 seg' where "kept (pcb\<lparr>unsent := rest\<rparr>) p1" "seg_kept seg seg'" "requeue force p1 n1 seg' = Some (pcb', nt')"
    "nt_segs n1 = nt_segs nt" "\<not> LWIP_IS_DUMMY_SEGMENT seg \<Longrightarrow> n0 = nt"
    "\<exists>x t. n1 = n0\<lparr>nt_sent := nt_sent n0 @ [\<lparr>pk_hdr = sg_tcphdr seg', pk_data = drop 20 (chain_data (sg_p seg')),
          pk_rexmit = x, pk_dummy = LWIP_IS_DUMMY_SEGMENT seg, pk_tos = t\<rparr>]\<rparr>"
    "sg_flags seg = 0 \<Longrightarrow> sg_p seg' = sg_p seg" "sg_flags seg = 0 \<Longrightarrow> pbuf_alloc p1 = pbuf_alloc pcb"
proof -
  define p0 where "p0 = pcb\<lparr>unsent := rest\<rparr>"
  note def = assms [unfolded output_head_def Let_def, folded p0_def]
  obtain pa na where a: "(if LWIP_IS_DUMMY_SEGMENT seg \<and> pcb_has p0 (TF_ACK_DELAY OR TF_ACK_NOW)
      then map_option snd (tcp_send_empty_ack ev p0 nt) else Some (p0, nt)) = Some (pa, na)"
    using def by (auto simp: bind_eq_Some_conv)
  have ka: "kept p0 pa \<and> nt_segs na = nt_segs nt"
    using a send_empty_ack_kept by (auto split: if_splits)
  define sb where "sb = (if get_tcp_state pa \<noteq> SYN_SENT then seg\<lparr>sg_tcphdr := TCPH_SET_FLAG (sg_tcphdr seg) TCP_ACK\<rparr> else seg)"
  define pb where "pb = (if get_tcp_state pa \<noteq> SYN_SENT then clear_flag pa (TF_ACK_DELAY OR TF_ACK_NOW) else pa)"
  have kb: "kept pa pb" by (simp add: pb_def)
  have sk: "seg_kept seg sb" "sg_p sb = sg_p seg" "LWIP_IS_DUMMY_SEGMENT sb = LWIP_IS_DUMMY_SEGMENT seg" "sg_flags sb = sg_flags seg"
    by (simp_all add: sb_def seg_kept_def TCPH_HDRLEN_SET_FLAG LWIP_IS_DUMMY_SEGMENT_def)
  obtain seg' p1 n1 where o: "tcp_output_segment ev pb na sb = Some (seg', p1, n1)" and r: "requeue force p1 n1 seg' = Some (pcb', nt')"
    using def a by (auto simp: bind_eq_Some_conv sb_def pb_def split: if_splits)
  note ok = output_segment_kept [OF o]
  show thesis
  proof (rule that [of p1 seg' n1 na])
    show "kept (pcb\<lparr>unsent := rest\<rparr>) p1" using ka kb ok unfolding p0_def by (metis kept_trans)
    show "seg_kept seg seg'" using sk(1) ok seg_kept_trans by blast
    show "nt_segs n1 = nt_segs nt" using ok ka by auto
    show "na = nt" if "\<not> LWIP_IS_DUMMY_SEGMENT seg" using a that by auto
    show "sg_p seg' = sg_p seg" if "sg_flags seg = 0"
      using ok that sk by (simp add: segment_options_def)
    show "pbuf_alloc p1 = pbuf_alloc pcb" if "sg_flags seg = 0"
    proof -
      have "pa = p0" using a that by (simp add: LWIP_IS_DUMMY_SEGMENT_def)
      then show ?thesis using ok by (simp add: pb_def p0_def clear_flag_def)
    qed
  qed (use r ok sk in auto)
qed

lemma insert_unacked_kept:
  assumes "insert_unacked p s = Some q"
  shows "unsent q = unsent p" "lastack q = lastack p"
  using assms by (auto simp: insert_unacked_def bind_eq_Some_conv split: if_splits)

lemma requeue_queues:
  assumes "requeue force p nt s = Some (p', nt')"
  shows "unsent p' = unsent p" "lastack p' = lastack p" "force \<Longrightarrow> unacked p' = unacked p"
    "nt_segs nt' = nt_segs nt" "nt_sent nt' = nt_sent nt"
proof -
  have f: "nt_segs (tcp_tx_seg_free nt s) = nt_segs nt" "nt_sent (tcp_tx_seg_free nt s) = nt_sent nt"
    by (simp_all add: tcp_tx_seg_free_def tx_pbuf_free_net)
  show "unsent p' = unsent p" "lastack p' = lastack p" "force \<Longrightarrow> unacked p' = unacked p"
    "nt_segs nt' = nt_segs nt" "nt_sent nt' = nt_sent nt"
    using assms f by (auto simp: requeue_def Let_def dest: insert_unacked_kept split: if_splits)
qed

lemma output_head_queues:
  assumes "output_head ev force pcb nt seg rest = Some (pcb', nt')"
  shows "unsent pcb' = rest \<and> lastack pcb' = lastack pcb \<and> (force \<longrightarrow> unacked pcb' = unacked pcb)"
  using assms by (rule output_head_parts) (use requeue_queues in \<open>fastforce simp: kept_def\<close>)

section \<open>A forced transmission empties the queue\<close>

lemma output_loop_forced:
  assumes "output_loop n ev True wnd pcb nt = Some (pcb', nt')"
  shows "unsent pcb' = [] \<and> unacked pcb' = unacked pcb"
  using assms
proof (induction n arbitrary: pcb nt)
  case 0
  then show ?case by (subst (asm) output_loop.simps) (auto simp: split_head_def nagle_pass_def split: list.splits)
next
  case (Suc n)
  show ?case
  proof (cases "unsent pcb")
    case Nil
    then show ?thesis using Suc.prems by (subst (asm) output_loop.simps) simp
  next
    case (Cons s q)
    then obtain p1 n1 where h: "output_head ev True pcb nt s q = Some (p1, n1)" and l: "output_loop n ev True wnd p1 n1 = Some (pcb', nt')"
      using Suc.prems by (subst (asm) output_loop.simps) (auto simp: split_head_def nagle_pass_def split: option.splits)
    show ?thesis using Suc.IH [OF l] output_head_queues [OF h] by simp
  qed
qed

section \<open>The loop ends\<close>

lemma create_segment_new:
  assumes "tcp_create_segment ev pcb nt (p # ps) fl sq f = Some (Some s, pcb', nt')"
  shows "sg_seqno s = sq \<and> length (sg_p s) = Suc (length ps)"
proof -
  obtain sg where "fill_segment pcb sg (p # ps) fl sq f = Some s"
    using assms by (auto simp: tcp_create_segment_def Let_def bind_eq_Some_conv split: list.splits option.splits)
  then show ?thesis by (auto simp: fill_segment_def Let_def)
qed

lemma split_chain_lengths:
  "split_chain h l n t ps = Some (a, b, m) \<Longrightarrow> a @ b = t # ps \<and> a \<noteq> [] \<and> b \<noteq> []"
  by (induction ps arbitrary: n t a b m) (fastforce split: if_splits)+

text \<open>What splitting does to the queue: nothing, or two segments for the first one.\<close>

definition split_shape :: "tcp_pcb \<Rightarrow> u32 \<Rightarrow> tcp_pcb \<Rightarrow> bool" where
  "split_shape pcb wnd p' = (lastack p' = lastack pcb \<and> unacked p' = unacked pcb \<and>
     (unsent p' = unsent pcb \<or>
      (\<exists>s s1 s2. unsent pcb = s # tl (unsent pcb) \<and> unsent p' = s1 # s2 # tl (unsent pcb) \<and> sg_seqno s - lastack pcb < wnd
         \<and> sg_p s \<noteq> [] \<and> (sg_seqno s2 - lastack pcb = wnd \<or> length (sg_p s2) < length (sg_p s)))))"

lemma move_tail_sel [simp]:
  "unsent (move_tail pcb s t id) = unsent pcb" "lastack (move_tail pcb s t id) = lastack pcb" "unacked (move_tail pcb s t id) = unacked pcb"
  "unsent (move_tail pcb s t (\<lambda>p. p\<lparr>unsent_oversize := ov\<rparr>)) = unsent pcb"
  "lastack (move_tail pcb s t (\<lambda>p. p\<lparr>unsent_oversize := ov\<rparr>)) = lastack pcb"
  "unacked (move_tail pcb s t (\<lambda>p. p\<lparr>unsent_oversize := ov\<rparr>)) = unacked pcb"
  by (simp_all add: move_tail_def)

text \<open>An allocation that leads to nothing.\<close>

definition alloc_only :: "tcp_env \<Rightarrow> tcp_pcb \<Rightarrow> net \<Rightarrow> tcp_pcb \<Rightarrow> net \<Rightarrow> bool" where
  "alloc_only ev pcb nt p' nt' = (same_but_alloc pcb p' \<and> seg_alloc p' = seg_alloc pcb \<and> nt_segs nt \<le> nt_segs nt'
     \<and> nt_sent nt' = nt_sent nt \<and> (\<forall>n. room ev pcb n \<longrightarrow> room ev p' n))"

lemma alloc_only_refl [simp]: "alloc_only ev p nt p nt"
  by (simp add: alloc_only_def same_but_allocI(1))

lemma alloc_only_trans: "alloc_only ev p nt q nt1 \<Longrightarrow> alloc_only ev q nt1 r nt2 \<Longrightarrow> alloc_only ev p nt r nt2"
  unfolding alloc_only_def using same_but_alloc_trans by fastforce

lemma prealloc_only:
  assumes "tcp_pbuf_prealloc ev pcb nt len m a b = (r, pcb', nt')"
  shows "alloc_only ev pcb nt pcb' nt'"
proof -
  obtain l r' where t: "tcp_tx_pbuf_alloc ev pcb nt l PBUF_RAM = (r', pcb', nt')"
    using assms by (auto simp: tcp_pbuf_prealloc_def Let_def split: prod.splits option.splits)
  show ?thesis
    using pbuf_prealloc_frame [OF assms] prealloc_room(1) [OF assms] tx_alloc_segs [OF t] by (simp add: alloc_only_def)
qed

lemma create_none_only:
  assumes "tcp_create_segment ev pcb nt (p # ps) fl sq f = Some (None, pcb', nt')"
  shows "alloc_only ev pcb nt pcb' nt'"
  using assms
  by (auto simp: tcp_create_segment_def Let_def bind_eq_Some_conv alloc_only_def same_but_allocI(1) tx_pbuf_free_net
      split: list.splits option.splits)

lemma split_first_parts:
  assumes "split_first ev pcb nt s q p0 rest ls = Some (p', nt')"
  defines "ol \<equiv> LWIP_TCP_OPT_LENGTH pcb (ts_optflags pcb)"
  defines "lq \<equiv> ucast (pb_len p0) - of_nat (TCP_HLEN + ol) - ls"
  obtains (no) "alloc_only ev pcb nt p' nt'"
  | (yes) p ov p1 n1 bs p2 new p3 where
      "tcp_pbuf_prealloc ev pcb nt (ucast (lq + of_nat ol)) (split_mss pcb) False False = (Some (p, ov), p1, n1)"
      "buf_read (pb_buf p0) (sg_dataptr s + int (unat ls)) (unat lq) = Some bs" "copy_to p (int ol) bs = Some p2"
      "tcp_create_segment ev p1 n1 (p2\<lparr>pb_tot_len := pb_tot_len p0 - ls - of_nat TCP_HLEN\<rparr> # rest) 0 (sg_seqno s + ls) (ts_optflags pcb)
         = Some (Some new, p3, nt')"
      "p' = split_commit p3 s q p0 ol lq new ov" "same_but_alloc pcb p3"
proof -
  note def = assms(1) [unfolded split_first_def Let_def, folded ol_def, folded lq_def]
  obtain x p1 n1 where pre: "tcp_pbuf_prealloc ev pcb nt (ucast (lq + of_nat ol)) (split_mss pcb) False False = (x, p1, n1)"
    by (metis prod_cases3)
  note f1 = pbuf_prealloc_frame(1) [OF pre] and o1 = prealloc_only [OF pre]
  show thesis
  proof (cases x)
    case None
    then show thesis using def o1 no by (simp add: pre)
  next
    case (Some po)
    obtain p ov where po: "po = (p, ov)" by (cases po)
    obtain bs p2 r p3 where b: "buf_read (pb_buf p0) (sg_dataptr s + int (unat ls)) (unat lq) = Some bs" "copy_to p (int ol) bs = Some p2"
      and c: "tcp_create_segment ev p1 n1 (p2\<lparr>pb_tot_len := pb_tot_len p0 - ls - of_nat TCP_HLEN\<rparr> # rest) 0 (sg_seqno s + ls) (ts_optflags pcb)
         = Some (r, p3, nt')"
      and e: "p' = (case r of None \<Rightarrow> p3 | Some new \<Rightarrow> split_commit p3 s q p0 ol lq new ov)"
      using def unfolding pre Some po by (auto simp: bind_eq_Some_conv)
    have f3: "same_but_alloc pcb p3" using f1 create_segment_frame(1) [OF c] by (rule same_but_alloc_trans)
    show thesis
    proof (cases r)
      case None
      then show thesis using e c create_none_only alloc_only_trans [OF o1] no by simp
    next
      case r: (Some new)
      show thesis by (rule yes [of p ov p1 n1 bs p2 new p3]) (use pre Some po b c e f3 r in simp_all)
    qed
  qed
qed

lemma split_later_parts:
  assumes "split_later ev pcb nt s q p0 rest ls = Some (p', nt')"
  defines "hlen \<equiv> of_nat (TCP_HLEN + LWIP_TCP_OPT_LENGTH pcb (ts_optflags pcb))"
  obtains (no) "alloc_only ev pcb nt p' nt'"
  | (yes) a b n new p3 where "split_chain hlen ls (ucast (pb_len p0)) p0 rest = Some (a, b, n)"
      "tcp_create_segment ev pcb nt b 0 (sg_seqno s + n - hlen) (ts_optflags pcb) = Some (Some new, p3, nt')"
      "p' = move_tail (p3\<lparr>unsent := s\<lparr>sg_p := set_tot n a, sg_len := ucast (n - hlen)\<rparr> # new\<lparr>sg_flags := sg_flags s\<rparr> # q\<rparr>) s
         (new\<lparr>sg_flags := sg_flags s\<rparr>) id" "same_but_alloc pcb p3"
proof -
  note def = assms(1) [unfolded split_later_def Let_def, folded hlen_def]
  show thesis
  proof (cases "split_chain hlen ls (ucast (pb_len p0)) p0 rest")
    case None
    then show thesis using def no by simp
  next
    case (Some abn)
    obtain a b n where abn: "abn = (a, b, n)" by (cases abn)
    obtain r p3 n3 where c: "tcp_create_segment ev pcb nt b 0 (sg_seqno s + n - hlen) (ts_optflags pcb) = Some (r, p3, n3)"
      using def Some abn by (auto simp: bind_eq_Some_conv)
    show thesis
    proof (cases r)
      case None
      obtain b0 b' where "b = b0 # b'" using split_chain_lengths [OF Some [unfolded abn]] by (cases b) auto
      then show thesis using def Some abn c None no create_none_only by simp
    next
      case r: (Some new)
      show thesis
        by (rule yes [of a b n new p3]) (use def Some abn c r create_segment_frame(1) [OF c] in simp_all)
    qed
  qed
qed

lemma same_alloc_shape: "same_but_alloc pcb p' \<Longrightarrow> split_shape pcb wnd p'"
  using same_but_alloc_sel(1,2,14) by (simp add: split_shape_def)

lemma split_segment_shape:
  assumes "tcp_split_segment ev pcb nt wnd = Some (p', nt')" "unsent pcb = s # q"
  shows "split_shape pcb wnd p'"
proof (cases "sg_p s")
  case Nil
  then show ?thesis using assms same_alloc_shape same_but_allocI(1) by (simp add: tcp_split_segment_def)
next
  case (Cons p0 rest)
  show ?thesis
  proof (cases "sg_seqno s - lastack pcb \<ge> wnd \<or> pb_ref p0 > 1")
    case True
    then show ?thesis using assms Cons same_alloc_shape same_but_allocI(1) by (simp add: tcp_split_segment_def)
  next
    case False
    then have lt: "sg_seqno s - lastack pcb < wnd" by (simp add: not_le)
    define ls where "ls = wnd - (sg_seqno s - lastack pcb)"
    consider "split_first ev pcb nt s q p0 rest ls = Some (p', nt')" | "split_later ev pcb nt s q p0 rest ls = Some (p', nt')" "rest \<noteq> []"
      | "p' = pcb"
      using assms Cons False by (auto simp: tcp_split_segment_def ls_def Let_def split: if_splits)
    then show ?thesis
    proof cases
      case 1
      then show ?thesis
      proof (cases rule: split_first_parts)
        case no
        then show ?thesis by (intro same_alloc_shape) (simp add: alloc_only_def)
      next
        case (yes p ov p1 n1 bs p2 new p3)
        have "sg_seqno new = sg_seqno s + ls" using create_segment_new [OF yes(4)] by simp
        then show ?thesis
          using lt assms(2) Cons same_but_alloc_sel(1,2,14) [OF yes(6)]
          by (simp add: yes(5) split_shape_def split_commit_def Let_def ls_def)
      qed
    next
      case 2
      from 2(1) show ?thesis
      proof (cases rule: split_later_parts)
        case no
        then show ?thesis by (intro same_alloc_shape) (simp add: alloc_only_def)
      next
        case (yes a b n new p3)
        obtain b0 bs where b: "b = b0 # bs" "a @ b = p0 # rest" "a \<noteq> []"
          using split_chain_lengths [OF yes(1)] by (cases b) auto
        have "length a + length b = Suc (length rest)" using b by (metis length_append length_Cons)
        then have "length (sg_p new) < length (sg_p s)" using create_segment_new yes(2) b Cons by (cases a) auto
        then show ?thesis
          using lt assms(2) Cons same_but_alloc_sel(1,2,14) [OF yes(4)] by (simp add: yes(3) split_shape_def)
      qed
    next
      case 3
      then show ?thesis using same_alloc_shape same_but_allocI(1) by simp
    qed
  qed
qed

lemma output_fuel_cons:
  "unsent p = s # q \<Longrightarrow> output_fuel wnd p = seg_weight (lastack p) wnd s + sum_list (map (seg_weight (lastack p) wnd) q)"
  by (simp add: output_fuel_def)

lemma split_head_fuel:
  assumes "split_head ev force wnd pcb nt s = Some (p', nt')" "unsent pcb = s # q" "unsent p' = s' # q'"
  shows "sum_list (map (seg_weight (lastack p') wnd) q') < output_fuel wnd pcb" "lastack p' = lastack pcb" "unacked p' = unacked pcb"
proof -
  have "split_shape pcb wnd p'"
    using assms(1) split_segment_shape [OF _ assms(2)] same_alloc_shape same_but_allocI(1)
    by (auto simp: split_head_def split: if_splits)
  then show "sum_list (map (seg_weight (lastack p') wnd) q') < output_fuel wnd pcb" "lastack p' = lastack pcb" "unacked p' = unacked pcb"
    using assms(2,3) unfolding split_shape_def by (auto simp: output_fuel_def seg_weight_def)
qed

lemma nagle_pass_sel:
  assumes "nagle_pass force pcb seg rest = Some p'"
  shows "unsent p' = unsent pcb" "lastack p' = lastack pcb" "unacked p' = unacked pcb" "kept pcb p'" "pbuf_alloc p' = pbuf_alloc pcb"
  using assms by (auto simp: nagle_pass_def split: if_splits)



end
