(* ===== verification/Tcp_Output_Flow.thy ===== *)
theory Tcp_Output_Flow
  imports Tcp_Output_Ok "HOL-Library.Multiset"
begin

text \<open>
  The bytes in the queues while \<open>tcp_output\<close> runs, on a connection that sends no
  options with its data: splitting a segment keeps the byte stream, and a call
  that is not forced neither loses nor duplicates a queued byte and sends
  nothing outside the window.
\<close>

section \<open>Plain data segments\<close>

definition plain :: "nat \<Rightarrow> tcp_seg \<Rightarrow> bool" where
  "plain n s = (seg_ok s \<and> seg_hlen s = 20 \<and> th_seqno (sg_tcphdr s) = htonl (sg_seqno s)
     \<and> sg_dataptr s = pb_off (hd (sg_p s)) + 20 \<and> 20 \<le> unat (pb_len (hd (sg_p s))) \<and> unat (sg_len s) \<le> n
     \<and> list_all (\<lambda>p. 20 \<le> pb_off p) (tl (sg_p s)) \<and> sg_flags s = 0)"

definition no_opts :: "tcp_pcb \<Rightarrow> bool" where
  "no_opts pcb = (ts_optflags pcb = 0 \<and> LWIP_TCP_OPT_LENGTH pcb 0 = 0)"

fun bytes_from :: "u32 \<Rightarrow> u8 list \<Rightarrow> (u32 \<times> u8) list" where
  "bytes_from a [] = []"
| "bytes_from a (x # xs) = (a, x) # bytes_from (a + 1) xs"

definition seg_bytes :: "tcp_seg \<Rightarrow> (u32 \<times> u8) list" where
  "seg_bytes s = bytes_from (sg_seqno s) (seg_payload s)"

definition queued :: "tcp_seg list \<Rightarrow> (u32 \<times> u8) multiset" where
  "queued q = mset (concat (map seg_bytes q))"

lemma bytes_from_append: "bytes_from a (x @ y) = bytes_from a x @ bytes_from (a + of_nat (length x)) y"
  by (induction x arbitrary: a) (simp_all add: ac_simps)

lemma queued_simps [simp]:
  "queued [] = {#}" "queued (s # q) = mset (seg_bytes s) + queued q" "queued (x @ y) = queued x + queued y"
  by (simp_all add: queued_def)

lemma plain_len: "plain n s \<Longrightarrow> length (seg_payload s) = unat (sg_len s)"
  by (simp add: plain_def seg_ok_def seg_payload_def length_chain_data)

lemma fill_chain_ok:
  assumes f: "fill_segment pcb sg (p # rest) fl sq f = Some s" and o: "LWIP_TCP_OPT_LENGTH pcb f = 0" "drop_bit 12 fl = 0"
    and p: "20 \<le> pb_off p" "chain_ok (p # rest)" "tot (p # rest) + 20 < 65536"
  shows "seg_ok s" "seg_payload s = chain_data (p # rest)" "sg_seqno s = sq" "unat (sg_len s) = tot (p # rest)" "seg_hlen s = 20"
    "th_seqno (sg_tcphdr s) = htonl sq" "sg_dataptr s = pb_off (hd (sg_p s)) + 20" "tl (sg_p s) = rest"
    "20 \<le> unat (pb_len (hd (sg_p s)))"
proof -
  have rp: "roomy (unat (pb_len p)) p" using p(1,2) by (simp add: roomy_def TCP_HLEN_def)
  have l: "unat (pb_len p) + 20 < 65536" using p(3) by simp
  note r = reveal_header [OF rp order_refl l]
  have s: "sg_p s = fst (pbuf_header p (int TCP_HLEN)) # rest" "sg_seqno s = sq" "sg_len s = ucast (pb_tot_len p)"
    "TCPH_HDRLEN (sg_tcphdr s) = 5" "th_seqno (sg_tcphdr s) = htonl sq" "sg_dataptr s = pb_off p"
    using f o HDRLEN_FLAGS_SET_HDRLEN [OF _ o(2), of 5] by (auto simp: fill_segment_def Let_def)
  show h: "seg_hlen s = 20" by (simp add: seg_hlen_def s)
  have t: "unat (pb_tot_len p) = tot (p # rest)" using p(2) by simp
  then show sl: "unat (sg_len s) = tot (p # rest)"
    using p(3) unfolding s(3) by (simp add: unsigned_ucast_eq take_bit_nat_eq_self)
  have "unat (pb_tot_len p + 20) = tot (p # rest) + 20" using t p(3) by (subst unat_plus32) simp_all
  then have "chain_ok (sg_p s)" using r p(2) by (simp add: s(1))
  then show "seg_ok s" using sl h r(2) by (simp add: seg_ok_def s(1))
  have "length (take 20 (drop (nat (pb_off p) - 20) (pb_buf p))) = 20" using p(1,2) by auto
  then show "seg_payload s = chain_data (p # rest)"
    using r(1) h by (simp add: seg_payload_def s(1) del: length_take length_drop)
  show "sg_dataptr s = pb_off (hd (sg_p s)) + 20" "tl (sg_p s) = rest" "20 \<le> unat (pb_len (hd (sg_p s)))"
    using r by (simp_all add: s)
  show "sg_seqno s = sq" "th_seqno (sg_tcphdr s) = htonl sq" by (fact s)+
qed

lemma create_fills:
  assumes "tcp_create_segment ev pcb nt (p # ps) fl sq f = Some (Some s, pcb', nt')"
  obtains sg where "fill_segment pcb sg (p # ps) fl sq f = Some s"
  using assms by (auto simp: tcp_create_segment_def Let_def bind_eq_Some_conv split: list.splits option.splits)

text \<open>What a split has to give.\<close>

definition split_ok :: "nat \<Rightarrow> u32 \<Rightarrow> tcp_seg \<Rightarrow> tcp_seg \<Rightarrow> tcp_seg \<Rightarrow> bool" where
  "split_ok n len s s1 s2 = (plain n s1 \<and> plain n s2 \<and> seg_payload s1 @ seg_payload s2 = seg_payload s
     \<and> sg_seqno s1 = sg_seqno s \<and> sg_seqno s2 = sg_seqno s + ucast (sg_len s1) \<and> sg_addr s1 = sg_addr s \<and> ucast (sg_len s1) \<le> len
     \<and> unat (sg_len s1) + unat (sg_len s2) = unat (sg_len s))"

lemma split_ok_bytes:
  assumes "split_ok n len s s1 s2"
  shows "seg_bytes s1 @ seg_bytes s2 = seg_bytes s"
proof -
  have "of_nat (length (seg_payload s1)) = (ucast (sg_len s1) :: u32)"
    using assms plain_len [of n s1] by (simp add: split_ok_def)
  then show ?thesis using assms bytes_from_append [of "sg_seqno s" "seg_payload s1" "seg_payload s2"]
    by (simp add: split_ok_def seg_bytes_def)
qed

section \<open>Splitting keeps the bytes\<close>

lemma plain_psh: "plain n s \<Longrightarrow> plain n (s\<lparr>sg_tcphdr := TCPH_SET_FLAG (sg_tcphdr s) TCP_PSH\<rparr>)"
  by (simp add: plain_def seg_ok_def seg_hlen_def TCPH_HDRLEN_SET_FLAG)

text \<open>The copy of the end of the first buffer.\<close>

lemma tail_copied:
  assumes "buf_read (pb_buf p0) (pb_off p0 + 20 + int l) k = Some bs" "0 \<le> pb_off p0"
    "unat (pb_len p0) = 20 + l + k" "nat (pb_off p0) + unat (pb_len p0) \<le> length (pb_buf p0)"
  shows "bs = drop (20 + l) (pb_data p0)" "length bs = k"
proof -
  define o' where "o' = nat (pb_off p0)"
  have o': "pb_off p0 = int o'" "nat (int o' + 20 + int l) = o' + 20 + l" using assms(2) by (simp_all add: o'_def)
  have bs: "bs = take k (drop (o' + 20 + l) (pb_buf p0))"
    using assms(1) by (auto simp: buf_read_def o' split: if_splits)
  show "length bs = k" using assms(3,4) by (simp add: bs o' )
  have "drop (20 + l) (take (20 + l + k) (drop o' (pb_buf p0))) = take k (drop (o' + 20 + l) (pb_buf p0))"
    by (simp add: drop_take ac_simps)
  then show "bs = drop (20 + l) (pb_data p0)" using assms(3) by (simp add: bs pb_data_def o')
qed

lemma split_sizes:
  assumes "plain n s" "sg_p s = p0 # rest" "n + 20 < 65536"
  shows "unat (pb_len p0) + tot rest = 20 + unat (sg_len s)" "unat (pb_tot_len p0) = 20 + unat (sg_len s)"
    "0 \<le> pb_off p0" "nat (pb_off p0) + unat (pb_len p0) \<le> length (pb_buf p0)" "chain_ok rest"
    "unat (sg_len s) + 20 < 65536" "sg_dataptr s = pb_off p0 + 20"
  using assms by (auto simp: plain_def seg_ok_def)

text \<open>The part that is sent: ls bytes, when k are cut off.\<close>

lemma head_piece:
  fixes lq :: u16
  assumes s: "plain n s" "sg_p s = p0 # rest" "n + 20 < 65536" and k: "unat (pb_len p0) = 20 + l + k" "unat lq = k"
  defines "s1 \<equiv> s\<lparr>sg_p := [p0\<lparr>pb_len := pb_len p0 - lq, pb_tot_len := ucast (pb_len p0 - lq)\<rparr>],
              sg_len := pb_len p0 - lq - of_nat (TCP_HLEN + 0)\<rparr>"
  shows "plain n s1" "seg_payload s1 = take l (drop 20 (pb_data p0))" "unat (sg_len s1) = l"
proof -
  note z = split_sizes [OF s]
  have l1: "unat (pb_len p0 - lq) = 20 + l" using k by (subst unat_minus_le) (simp_all add: word_le_nat_alt)
  have l2: "unat (pb_len p0 - lq - 20) = l" using l1 by (subst unat_minus_le) (simp_all add: word_le_nat_alt)
  have h1: "seg_hlen s1 = 20" using s(1) by (simp add: s1_def plain_def seg_hlen_def)
  show "seg_payload s1 = take l (drop 20 (pb_data p0))"
    using h1 l1 k(1) by (simp add: seg_payload_def s1_def pb_data_def drop_take min_def)
  show "unat (sg_len s1) = l" using l2 by (simp add: s1_def TCP_HLEN_def)
  show "plain n s1"
    using s(1) h1 l1 l2 z k(1) by (auto simp: plain_def seg_ok_def s1_def TCP_HLEN_def s(2))
qed

text \<open>The part that is queued, in a new first buffer q and the other buffers.\<close>

lemma tail_piece:
  assumes cr: "tcp_create_segment ev pcb nt (q # rest) 0 sq f = Some (Some new, pcb', nt')" and o: "LWIP_TCP_OPT_LENGTH pcb f = 0"
    and q: "20 \<le> pb_off q" "chain_ok (q # rest)" "tot (q # rest) \<le> n" "n + 20 < 65536" "list_all (\<lambda>p. 20 \<le> pb_off p) rest"
  shows "plain n (new\<lparr>sg_flags := 0\<rparr>)" "seg_payload new = chain_data (q # rest)" "unat (sg_len new) = tot (q # rest)"
    "sg_seqno new = sq"
proof -
  from cr obtain sg where fl: "fill_segment pcb sg (q # rest) 0 sq f = Some new" by (rule create_fills)
  have "tot (q # rest) + 20 < 65536" using q(3,4) by linarith
  note f = fill_chain_ok [OF fl o _ q(1,2) this, simplified]
  show "plain n (new\<lparr>sg_flags := 0\<rparr>)"
    using f q(3,5) by (simp add: plain_def seg_ok_def seg_hlen_def)
  show "seg_payload new = chain_data (q # rest)" "unat (sg_len new) = tot (q # rest)" "sg_seqno new = sq"
    using f by simp_all
qed

lemma split_first_ok:
  assumes s: "plain n s" "sg_p s = p0 # rest" "n + 20 < 65536" and rm: "room ev pcb n" and no: "no_opts pcb"
    and big: "20 + unat ls < unat (pb_len p0)"
    and pre: "tcp_pbuf_prealloc ev pcb nt (ucast (lq + of_nat 0)) (split_mss pcb) False False = (Some (p, ov), p1, n1)"
    and lq: "lq = ucast (pb_len p0) - of_nat (TCP_HLEN + 0) - ls"
    and rd: "buf_read (pb_buf p0) (sg_dataptr s + int (unat ls)) (unat lq) = Some bs" and cp: "copy_to p (int 0) bs = Some p2"
    and cr: "tcp_create_segment ev p1 n1 (p2\<lparr>pb_tot_len := pb_tot_len p0 - ls - of_nat TCP_HLEN\<rparr> # rest) 0 (sg_seqno s + ls) (ts_optflags pcb)
         = Some (Some new, p3, nt')"
  shows "split_ok n ls s (s\<lparr>sg_p := [p0\<lparr>pb_len := pb_len p0 - ucast lq, pb_tot_len := ucast (pb_len p0 - ucast lq)\<rparr>],
              sg_len := pb_len p0 - ucast lq - of_nat (TCP_HLEN + 0)\<rparr>)
           (new\<lparr>sg_flags := sg_flags s, sg_tcphdr := TCPH_SET_FLAG (sg_tcphdr new) TCP_PSH\<rparr>)" (is "split_ok n ls s ?s1 _")
proof -
  note z = split_sizes [OF s]
  define k where "k = unat (pb_len p0) - 20 - unat ls"
  have l: "unat (pb_len p0) = 20 + unat ls + k" using big by (simp add: k_def)
  have "unat (ucast (pb_len p0) - 20 :: u32) = unat (pb_len p0) - 20" using l by (subst unat_minus32) simp_all
  then have lk: "unat lq = k" unfolding lq using l by (subst unat_minus32) (simp_all add: TCP_HLEN_def)
  have k: "k < 65536" "k + tot rest \<le> n" using l unat_lt16 [of "pb_len p0"] z(1) s(1) by (simp_all add: plain_def)
  have kl: "unat (ucast lq :: u16) = k" using lk k(1) by (simp add: unsigned_ucast_eq take_bit_nat_eq_self)
  note h = head_piece [OF s l kl]
  have b: "bs = drop (unat ls) (drop 20 (pb_data p0))" "length bs = k"
    using tail_copied [of p0 "unat ls" k bs] rd l lk z by (simp_all add: add.commute)
  have p: "roomy n p" "pb_len p = ucast lq" using prealloc_room(2) [OF pre rm refl] by simp_all
  have c: "pb_data p2 = bs" "pb_off p2 = pb_off p" "length (pb_buf p2) = length (pb_buf p)" "pb_len p2 = pb_len p"
    using copy_to_data [OF cp] p b(2) kl by (auto simp: roomy_def TCP_HLEN_def)
  define q where "q = p2\<lparr>pb_tot_len := pb_tot_len p0 - ls - of_nat TCP_HLEN\<rparr>"
  have "unat (pb_tot_len p0 - ls) = unat (pb_tot_len p0) - unat ls" using z(1,2) l by (intro unat_minus32) simp
  then have qt: "unat (pb_tot_len q) = k + tot rest"
    using z(1,2) l by (subst q_def, simp, subst unat_minus32) (simp_all add: TCP_HLEN_def)
  have qd: "chain_data (q # rest) = bs @ chain_data rest" "tot (q # rest) = k + tot rest" by (simp_all add: q_def c p kl)
  have "LWIP_TCP_OPT_LENGTH p1 (ts_optflags pcb) = 0"
    using no same_but_alloc_sel(11) [OF pbuf_prealloc_frame(1) [OF pre]] by (simp add: no_opts_def)
  from tail_piece [OF cr [folded q_def] this, of n]
  have t: "plain n (new\<lparr>sg_flags := 0\<rparr>)" "seg_payload new = bs @ chain_data rest" "unat (sg_len new) = k + tot rest" "sg_seqno new = sg_seqno s + ls"
    using qd qt k c p kl z(5) s by (auto simp: q_def roomy_def TCP_HLEN_def plain_def)
  have "length (pb_data p0) = unat (pb_len p0)" using z(4) by (rule length_pb_data)
  then have "seg_payload s = drop 20 (pb_data p0) @ chain_data rest" using s l by (simp add: seg_payload_def plain_def)
  then have "seg_payload ?s1 @ seg_payload new = seg_payload s"
    unfolding h(2) t(2) b(1) by (metis append.assoc append_take_drop_id)
  moreover have "seg_payload (new\<lparr>sg_flags := x, sg_tcphdr := TCPH_SET_FLAG (sg_tcphdr new) TCP_PSH\<rparr>) = seg_payload new" for x
    by (simp add: seg_payload_def seg_hlen_def TCPH_HDRLEN_SET_FLAG)
  moreover have "ucast (sg_len ?s1) = ls" using h(3) by (simp add: word_unat_eq_iff)
  moreover have "sg_flags s = 0" using s(1) by (simp add: plain_def)
  ultimately show ?thesis
    using h(1) plain_psh [OF t(1)] t(3,4) z(1) l unfolding split_ok_def h(3) by simp
qed

lemma split_chain_sums:
  assumes "split_chain hl ls n t ps = Some (a, b, m)" "unat n + tot ps < 4294967296"
  shows "unat m = unat n + tot (tl a) \<and> hd a = t \<and> (n - hl \<le> ls \<longrightarrow> m - hl \<le> ls)"
  using assms
proof (induction ps arbitrary: n t a b m)
  case (Cons h hs)
  have u: "unat (n + ucast (pb_len h)) = unat n + unat (pb_len h)" using Cons.prems(2) by (subst unat_plus32) simp_all
  show ?case
  proof (cases "n + ucast (pb_len h) - hl \<le> ls")
    case True
    then obtain a' where r: "split_chain hl ls (n + ucast (pb_len h)) h hs = Some (a', b, m)" "a = t # a'"
      using Cons.prems(1) by (auto split: if_splits)
    have "a' \<noteq> []" using split_chain_lengths [OF r(1)] by simp
    then show ?thesis using Cons.IH [OF r(1)] Cons.prems(2) u True r(2) by (cases a') auto
  next
    case False
    then show ?thesis using Cons.prems by auto
  qed
qed simp

lemma set_tot_ok:
  assumes "chain_ok (a @ b)" "unat n = tot a"
  shows "chain_ok (set_tot n a)" "chain_data (set_tot n a) = chain_data a" "tot (set_tot n a) = tot a"
    "a \<noteq> [] \<Longrightarrow> set_tot n a \<noteq> [] \<and> pb_off (hd (set_tot n a)) = pb_off (hd a) \<and> pb_len (hd (set_tot n a)) = pb_len (hd a)"
    "map pb_off (tl (set_tot n a)) = map pb_off (tl a)"
proof -
  have "chain_ok (set_tot n a) \<and> chain_data (set_tot n a) = chain_data a \<and> tot (set_tot n a) = tot a
    \<and> map pb_off (set_tot n a) = map pb_off a"
    using assms
  proof (induction a arbitrary: n)
    case (Cons p a)
    have "unat (n - ucast (pb_len p)) = tot a" using Cons.prems(2) by (subst unat_minus32) simp_all
    then show ?case using Cons.IH [of "n - ucast (pb_len p)"] Cons.prems by simp
  qed simp
  then show "chain_ok (set_tot n a)" "chain_data (set_tot n a) = chain_data a" "tot (set_tot n a) = tot a"
    "a \<noteq> [] \<Longrightarrow> set_tot n a \<noteq> [] \<and> pb_off (hd (set_tot n a)) = pb_off (hd a) \<and> pb_len (hd (set_tot n a)) = pb_len (hd a)"
    "map pb_off (tl (set_tot n a)) = map pb_off (tl a)"
    by (cases a; simp)+
qed

lemma list_all_off: "list_all (\<lambda>p. 20 \<le> pb_off p) ps = list_all (\<lambda>x. 20 \<le> x) (map pb_off ps)"
  by (simp add: list_all_iff)

lemma split_later_ok:
  assumes s: "plain n s" "sg_p s = p0 # rest" "n + 20 < 65536" and no: "no_opts pcb"
    and small: "unat (pb_len p0) \<le> 20 + unat ls"
    and ch: "split_chain (of_nat (TCP_HLEN + 0)) ls (ucast (pb_len p0)) p0 rest = Some (a, b, m)"
    and cr: "tcp_create_segment ev pcb nt b 0 (sg_seqno s + m - of_nat (TCP_HLEN + 0)) (ts_optflags pcb) = Some (Some new, p3, nt')"
  shows "split_ok n ls s (s\<lparr>sg_p := set_tot m a, sg_len := ucast (m - of_nat (TCP_HLEN + 0))\<rparr>) (new\<lparr>sg_flags := sg_flags s\<rparr>)"
    (is "split_ok n ls s ?s1 _")
proof -
  note z = split_sizes [OF s]
  have pl0: "20 \<le> unat (pb_len p0)" "sg_flags s = 0" "seg_hlen s = 20" "list_all (\<lambda>p. 20 \<le> pb_off p) rest"
    using s(1,2) by (simp_all add: plain_def)
  have ab: "a @ b = p0 # rest" "a \<noteq> []" "b \<noteq> []" using split_chain_lengths [OF ch] by auto
  obtain a' where a: "a = p0 # a'" "rest = a' @ b" using ab by (cases a) auto
  have "unat (ucast (pb_len p0) :: u32) + tot rest < 4294967296" using z(1,6) by simp
  from split_chain_sums [OF ch this] have m: "unat m = tot a"
    and ml: "ucast (pb_len p0) - 20 \<le> ls \<longrightarrow> m - 20 \<le> ls" by (simp_all add: a TCP_HLEN_def)
  have cok: "chain_ok (a @ b)" using s ab(1) by (simp add: plain_def seg_ok_def)
  note st = set_tot_ok [OF cok m]
  have "unat (ucast (pb_len p0) - 20 :: u32) = unat (pb_len p0) - 20" using pl0(1) by (subst unat_minus32) simp_all
  then have le: "m - 20 \<le> ls" using ml small by (simp add: word_le_nat_alt)
  have tb: "tot a + tot b = 20 + unat (sg_len s)" "20 \<le> tot a" using z(1) a pl0(1) by simp_all
  have m20: "unat (m - 20) = tot a - 20" using m tb(2) by (subst unat_minus32) simp_all
  have ln: "unat (sg_len s) \<le> n" using s(1) by (simp add: plain_def)
  have l1: "unat (ucast (m - 20) :: u16) = tot a - 20"
    using m20 tb ln s(3) by (simp add: unsigned_ucast_eq take_bit_nat_eq_self)
  have h1: "seg_hlen ?s1 = 20" using pl0(3) by (simp add: seg_hlen_def)
  have "list_all (\<lambda>p. 20 \<le> pb_off p) (tl (set_tot m a))"
    using pl0(4) a unfolding list_all_off st(5) by simp
  then have "plain n ?s1"
    using s(1) st ab(2) h1 l1 tb ln pl0 a z(3,7) by (auto simp: plain_def seg_ok_def TCP_HLEN_def s(2))
  moreover obtain q b' where b: "b = q # b'" using ab(3) by (cases b) auto
  have "LWIP_TCP_OPT_LENGTH pcb (ts_optflags pcb) = 0" using no by (simp add: no_opts_def)
  from tail_piece [OF cr [unfolded b] this, of n]
  have t: "plain n (new\<lparr>sg_flags := 0\<rparr>)" "seg_payload new = chain_data b" "unat (sg_len new) = tot b" "sg_seqno new = sg_seqno s + m - 20"
    using chain_ok_suffix [OF cok] tb ln s(3) pl0(4) a b by (auto simp: TCP_HLEN_def)
  moreover have "seg_payload ?s1 @ seg_payload new = seg_payload s"
  proof -
    have "length (chain_data a) = tot a" using st(1-3) length_chain_data by metis
    then show ?thesis using h1 pl0(3) tb(2) st(2) t(2) s(2) ab(1) [symmetric]
      by (simp add: seg_payload_def)
  qed
  moreover have "ucast (ucast (m - 20) :: u16) = m - 20" using l1 m20 by (simp add: word_unat_eq_iff)
  ultimately show ?thesis
    using l1 tb le pl0(2) by (simp add: split_ok_def TCP_HLEN_def) (simp add: seg_payload_def seg_hlen_def)
qed

text \<open>The queue and the rest of the pcb after a split.\<close>

definition split_done :: "tcp_env \<Rightarrow> tcp_pcb \<Rightarrow> net \<Rightarrow> tcp_seg \<Rightarrow> tcp_seg \<Rightarrow> tcp_pcb \<Rightarrow> net \<Rightarrow> bool" where
  "split_done ev pcb nt s1 s2 p' nt' = (\<exists>p1 n1 x xs sq f new p3. alloc_only ev pcb nt p1 n1
     \<and> tcp_create_segment ev p1 n1 (x # xs) 0 sq f = Some (Some new, p3, nt') \<and> sg_addr s2 = sg_addr new
     \<and> kept (p3\<lparr>unsent := s1 # s2 # tl (unsent pcb)\<rparr>) p' \<and> pbuf_alloc p' = pbuf_alloc p3)"

lemma split_doneI:
  assumes "alloc_only ev pcb nt p1 n1" "tcp_create_segment ev p1 n1 (x # xs) 0 sq f = Some (Some new, p3, nt')" "sg_addr s2 = sg_addr new"
    "kept (p3\<lparr>unsent := s1 # s2 # tl (unsent pcb)\<rparr>) p'" "pbuf_alloc p' = pbuf_alloc p3"
  shows "split_done ev pcb nt s1 s2 p' nt'"
  unfolding split_done_def using assms by blast

lemma move_tail_kept:
  "kept p (move_tail p s t id)" "kept p (move_tail p s t (\<lambda>p. p\<lparr>unsent_oversize := ov\<rparr>))"
  "pbuf_alloc (move_tail p s t id) = pbuf_alloc p" "pbuf_alloc (move_tail p s t (\<lambda>p. p\<lparr>unsent_oversize := ov\<rparr>)) = pbuf_alloc p"
  by (simp_all add: move_tail_def kept_def)

lemma split_segment_ok:
  assumes sp: "tcp_split_segment ev pcb nt wnd = Some (p', nt')" and us: "unsent pcb = s # q"
    and s: "plain n s" "n + 20 < 65536" and no: "no_opts pcb" and rm: "room ev pcb n"
    and wnd: "unat wnd + 20 < 4294967296"
  shows "alloc_only ev pcb nt p' nt' \<or>
    (\<exists>s1 s2. split_done ev pcb nt s1 s2 p' nt' \<and> split_ok n (wnd - (sg_seqno s - lastack pcb)) s s1 s2 \<and> sg_seqno s - lastack pcb < wnd)"
proof -
  define ls where "ls = wnd - (sg_seqno s - lastack pcb)"
  have ol: "LWIP_TCP_OPT_LENGTH pcb (ts_optflags pcb) = 0" using no by (simp add: no_opts_def)
  obtain p0 rest where p0: "sg_p s = p0 # rest" using s(1) by (cases "sg_p s") (auto simp: plain_def seg_ok_def)
  show ?thesis
  proof (cases "sg_seqno s - lastack pcb \<ge> wnd \<or> pb_ref p0 > 1")
    case True
    then show ?thesis using sp by (simp add: tcp_split_segment_def us p0)
  next
    case False
    then have lt: "sg_seqno s - lastack pcb < wnd" by (simp add: not_le)
    then have "unat ls \<le> unat wnd" unfolding ls_def by (subst unat_minus32) (simp_all add: word_less_nat_alt)
    then have ul: "unat (20 + ls) = 20 + unat ls" using wnd by (subst unat_plus32) simp_all
    have e: "tcp_split_segment ev pcb nt wnd = (if ucast (pb_len p0) > 20 + ls then split_first ev pcb nt s q p0 rest ls
        else if rest \<noteq> [] then split_later ev pcb nt s q p0 rest ls else Some (pcb, nt))"
      using False by (simp add: tcp_split_segment_def us p0 ls_def Let_def ol TCP_HLEN_def)
    consider (first) "split_first ev pcb nt s q p0 rest ls = Some (p', nt')" "ucast (pb_len p0) > 20 + ls"
      | (later) "split_later ev pcb nt s q p0 rest ls = Some (p', nt')" "\<not> ucast (pb_len p0) > 20 + ls"
      | "Some (pcb, nt) = Some (p', nt')"
      using sp unfolding e by argo
    then show ?thesis
    proof cases
      case first
      from first(1) show ?thesis
      proof (cases rule: split_first_parts)
        case (yes p ov p1 n1 bs p2 new p3)
        have "20 + unat ls < unat (pb_len p0)" using first(2) ul by (simp add: word_less_nat_alt)
        from split_first_ok [OF s(1) p0 s(2) rm no this yes(1) [unfolded ol] refl yes(2-4) [unfolded ol]]
        obtain s1 s2 where k: "split_ok n ls s s1 s2" "sg_addr s2 = sg_addr new"
          "p' = move_tail (p3\<lparr>unsent := s1 # s2 # q, snd_queuelen := snd_queuelen p3 + 1\<rparr>) s s2 (\<lambda>p. p\<lparr>unsent_oversize := ov\<rparr>)"
          unfolding yes(5) split_commit_def Let_def ol by auto
        have "kept (p3\<lparr>unsent := s1 # s2 # q\<rparr>) p'"
          unfolding k(3) by (rule kept_trans [OF _ move_tail_kept(2)]) (simp add: kept_def)
        then have "split_done ev pcb nt s1 s2 p' nt'"
          by (intro split_doneI [OF prealloc_only [OF yes(1)] yes(4) k(2)]) (simp_all add: us k(3) move_tail_kept)
        then show ?thesis using k(1) lt by (auto simp: ls_def)
      qed simp
    next
      case later
      from later(1) show ?thesis
      proof (cases rule: split_later_parts)
        case (yes a b n' new p3)
        have "unat (pb_len p0) \<le> 20 + unat ls" using later(2) ul by (simp add: word_less_nat_alt)
        from split_later_ok [OF s(1) p0 s(2) no this yes(1,2) [unfolded ol]]
        obtain s1 s2 where k: "split_ok n ls s s1 s2" "sg_addr s2 = sg_addr new" "p' = move_tail (p3\<lparr>unsent := s1 # s2 # q\<rparr>) s s2 id"
          unfolding yes(3) ol by auto
        obtain b0 b' where "b = b0 # b'" using split_chain_lengths [OF yes(1)] by (cases b) auto
        then have "split_done ev pcb nt s1 s2 p' nt'"
          by (intro split_doneI [OF alloc_only_refl yes(2) [unfolded \<open>b = b0 # b'\<close>] k(2)]) (simp_all add: us k(3) move_tail_kept)
        then show ?thesis using k(1) lt by (auto simp: ls_def)
      qed simp
    qed simp
  qed
qed

section \<open>The invariant of the loop\<close>

text \<open>Segment addresses: no segment is in two places, and the allocator gives new ones.\<close>

definition addrs :: "tcp_pcb \<Rightarrow> nat list" where
  "addrs pcb = map sg_addr (unsent pcb @ unacked pcb @ seg_alloc pcb)"

definition fresh :: "tcp_env \<Rightarrow> tcp_pcb \<Rightarrow> net \<Rightarrow> bool" where
  "fresh ev pcb nt = (distinct (addrs pcb) \<and> (\<forall>k\<ge>nt_segs nt. \<forall>a. external_tcp_seg_alloc ev k = Some a \<longrightarrow> a \<notin> set (addrs pcb)
     \<and> (\<forall>j>k. external_tcp_seg_alloc ev j \<noteq> Some a)))"

lemma distinct_sub:
  assumes "mset xs \<subseteq># mset ys" "distinct ys"
  shows "distinct xs"
proof -
  obtain zs where "mset ys = mset (xs @ zs)"
    using assms(1) by (metis ex_mset mset_append subset_mset.add_diff_inverse)
  then show ?thesis using assms(2) mset_eq_imp_distinct_iff by fastforce
qed

lemma fresh_less:
  assumes "fresh ev p nt" "nt_segs nt \<le> nt_segs nt'" "mset (addrs p') \<subseteq># mset (addrs p)"
  shows "fresh ev p' nt'"
proof -
  have "set (addrs p') \<subseteq> set (addrs p)" using assms(3) by (metis set_mset_mono set_mset_mset)
  moreover have "distinct (addrs p')" using assms(1,3) distinct_sub by (auto simp: fresh_def)
  ultimately show ?thesis using assms(1,2) unfolding fresh_def by (meson le_trans subsetD)
qed

lemma fresh_alloc_only: "fresh ev p nt \<Longrightarrow> alloc_only ev p nt p' nt' \<Longrightarrow> fresh ev p' nt'"
  by (rule fresh_less) (auto simp: alloc_only_def addrs_def same_but_alloc_sel(1,2))

lemma fresh_create:
  assumes fr: "fresh ev pcb nt" and c: "tcp_create_segment ev pcb nt (x # xs) fl sq f = Some (Some new, p3, nt')"
    and p': "mset (addrs p') = add_mset (sg_addr new) (mset (addrs p3))"
  shows "fresh ev p' nt'"
proof (cases "seg_alloc pcb")
  case Nil
  then obtain a where a: "external_tcp_seg_alloc ev (nt_segs nt) = Some a" "sg_addr new = a" "p3 = pcb" "nt_segs nt' = Suc (nt_segs nt)"
    using c by (auto simp: tcp_create_segment_def fill_segment_def Let_def bind_eq_Some_conv split: option.splits)
  have "set (addrs p') = insert a (set (addrs pcb))" using p' a by (metis set_mset_add_mset_insert set_mset_mset)
  moreover have "distinct (addrs p')"
  proof -
    have "distinct (a # addrs pcb)" using fr a by (auto simp: fresh_def)
    moreover have "mset (addrs p') = mset (a # addrs pcb)" using p' a by simp
    ultimately show ?thesis using mset_eq_imp_distinct_iff by blast
  qed
  ultimately show ?thesis using fr a unfolding fresh_def by (metis Suc_leD Suc_le_lessD insertE order_refl)
next
  case (Cons s ss)
  then have n: "sg_addr new = sg_addr s" "nt' = nt" "p3 = pcb\<lparr>seg_alloc := []\<rparr>"
    using c by (auto simp: tcp_create_segment_def fill_segment_def Let_def bind_eq_Some_conv)
  show ?thesis by (rule fresh_less [OF fr]) (use n p' Cons in \<open>simp_all add: addrs_def\<close>)
qed

section \<open>Queueing a segment that was sent\<close>

abbreviation near_la :: "u32 \<Rightarrow> tcp_seg \<Rightarrow> bool" where
  "near_la la s \<equiv> near la (sg_seqno s)"

definition tail_ok :: "tcp_pcb \<Rightarrow> bool" where
  "tail_ok pcb = (unacked pcb = [] \<or> last_unacked pcb = Some (sg_addr (last (unacked pcb))))"

lemma mset_insert_seq: "mset (insert_seq s q) = add_mset s (mset q)"
  by (induction q) auto

lemma insert_seq_not_nil [simp]: "insert_seq s q \<noteq> []"
  by (cases q) simp_all

lemma last_insert_seq: "q \<noteq> [] \<Longrightarrow> \<not> TCP_SEQ_LT (sg_seqno (last q)) (sg_seqno s) \<Longrightarrow> last (insert_seq s q) = last q"
  by (induction q) auto

lemma upto_seg_last: "distinct (map sg_addr q) \<Longrightarrow> upto_seg (sg_addr (last q)) q = q"
  by (induction q) auto

lemma insert_unacked_ok:
  assumes i: "insert_unacked p s = Some p'" and d: "distinct (map sg_addr (unacked p))" and t: "tail_ok p"
    and n: "list_all (near_la la) (s # unacked p)"
  shows "mset (unacked p') = add_mset s (mset (unacked p)) \<and> tail_ok p'
    \<and> kept (p\<lparr>unacked := unacked p', last_unacked := last_unacked p'\<rparr>) p' \<and> pbuf_alloc p' = pbuf_alloc p"
proof (cases "unacked p = []")
  case True
  then show ?thesis using i by (auto simp: insert_unacked_def tail_ok_def kept_def)
next
  case False
  define l where "l = last (unacked p)"
  have a: "last_unacked p = Some (sg_addr l)" using t False by (simp add: tail_ok_def l_def)
  obtain u where u: "find (\<lambda>s. sg_addr s = sg_addr l) (unacked p) = Some u" "u = l"
  proof -
    obtain u where u: "find (\<lambda>s. sg_addr s = sg_addr l) (unacked p) = Some u"
      using last_in_set [OF False] by (cases "find (\<lambda>s. sg_addr s = sg_addr l) (unacked p)") (auto simp: find_None_iff l_def)
    then have "u \<in> set (unacked p)" "sg_addr u = sg_addr l" by (auto simp: find_Some_iff)
    moreover have "inj_on sg_addr (set (unacked p))" using d by (simp add: distinct_map)
    ultimately show thesis using that u False by (metis inj_onD last_in_set l_def)
  qed
  have nl: "near_la la l" "near_la la s" using n False by (auto simp: l_def list_all_iff)
  show ?thesis
  proof (cases "TCP_SEQ_LT (sg_seqno s) (sg_seqno l)")
    case True
    then have p': "p' = p\<lparr>unacked := insert_seq s (unacked p)\<rparr>"
      using i False a u by (simp add: insert_unacked_def find_seg_def)
    have "last (insert_seq s (unacked p)) = l"
      using True nl False seq_lt_near [OF nl(2,1)] seq_lt_near [OF nl] by (simp add: last_insert_seq l_def)
    then show ?thesis using a by (simp add: p' mset_insert_seq tail_ok_def kept_def)
  next
    case False': False
    then have p': "p' = p\<lparr>unacked := unacked p @ [s], last_unacked := Some (sg_addr s)\<rparr>"
      using i False a u upto_seg_last [OF d] by (simp add: insert_unacked_def find_seg_def l_def)
    then show ?thesis by (simp add: tail_ok_def kept_def)
  qed
qed

end
