(* ===== verification/Tcp_Output_Run.thy ===== *)
theory Tcp_Output_Run
  imports Tcp_Output_Flow
begin

text \<open>
  The whole loop of \<open>tcp_output\<close> on a connection that sends no options with its data: an
  invariant of the queues that splitting, the Nagle test and sending keep, and from
  it the two properties of a call that is not forced: every packet lies in the
  window, and the queued bytes are the same before and after.
\<close>

section \<open>The invariant\<close>

definition flow_ok :: "tcp_env \<Rightarrow> nat \<Rightarrow> tcp_pcb \<Rightarrow> net \<Rightarrow> bool" where
  "flow_ok ev n pcb nt = (n + 20 < 65536 \<and> list_all (plain n) (unsent pcb) \<and> no_opts pcb \<and> room ev pcb n \<and> fresh ev pcb nt
     \<and> list_all (near_la (lastack pcb)) (unsent pcb @ unacked pcb) \<and> tail_ok pcb)"

definition pk_len :: "packet \<Rightarrow> nat" where
  "pk_len pk = length (pk_data pk) + 20 - 4 * unat (TCPH_HDRLEN (pk_hdr pk))"

definition pk_in_wnd :: "u32 \<Rightarrow> u32 \<Rightarrow> packet \<Rightarrow> bool" where
  "pk_in_wnd la wnd pk = (unat (ntohl (th_seqno (pk_hdr pk)) - la) + pk_len pk \<le> unat wnd)"

lemma no_opts_cong:
  "flags q AND TF_TIMESTAMP = flags p AND TF_TIMESTAMP \<Longrightarrow> sack_permitted q = sack_permitted p
    \<Longrightarrow> rcv_sack_block_cnt q = rcv_sack_block_cnt p \<Longrightarrow> no_opts q = no_opts p"
  by (simp add: no_opts_def ts_optflags_def LWIP_TCP_OPT_LENGTH_def)

lemma flow_ok_kept:
  assumes "flow_ok ev n p nt" "kept p q" "pbuf_alloc q = pbuf_alloc p" "nt_segs nt' = nt_segs nt"
  shows "flow_ok ev n q nt'"
proof -
  have k: "unsent q = unsent p" "unacked q = unacked p" "last_unacked q = last_unacked p" "lastack q = lastack p" "addrs q = addrs p"
    "room ev q n = room ev p n" "tail_ok q = tail_ok p"
    using assms(2,3) by (simp_all add: kept_def addrs_def room_def tail_ok_def)
  have o: "no_opts q = no_opts p" using assms(2) by (intro no_opts_cong) (simp_all add: kept_def)
  have "fresh ev p nt" using assms(1) by (simp add: flow_ok_def)
  then have "fresh ev q nt'" by (rule fresh_less) (simp_all add: k assms(4))
  then show ?thesis using assms(1) unfolding flow_ok_def k o by blast
qed

lemma flow_ok_alloc:
  assumes "flow_ok ev n p nt" "alloc_only ev p nt q nt'"
  shows "flow_ok ev n q nt'"
proof -
  have s: "same_but_alloc p q" "room ev p n \<longrightarrow> room ev q n" using assms(2) by (auto simp: alloc_only_def)
  have "no_opts q = no_opts p"
    using s(1) by (intro no_opts_cong) (auto simp: same_but_alloc_def)
  then show ?thesis
    using assms(1) s fresh_alloc_only [OF _ assms(2)] same_but_alloc_sel(1,2,14,16) [OF s(1)]
    by (simp add: flow_ok_def tail_ok_def)
qed

section \<open>Splitting\<close>

lemma split_near:
  assumes "split_ok n (wnd - (sg_seqno s - la)) s s1 s2" "sg_seqno s - la < wnd" "unat wnd < 2147483648"
  shows "near_la la s1" "near_la la s2" "in_wnd la wnd s1"
proof -
  define o' where "o' = sg_seqno s - la"
  have k: "sg_seqno s1 - la = o'" "sg_seqno s2 - la = o' + ucast (sg_len s1)" "ucast (sg_len s1) \<le> wnd - o'"
    using assms(1) by (simp_all add: split_ok_def o'_def)
  have "unat (wnd - o') = unat wnd - unat o'"
    using assms(2) by (intro unat_minus32) (simp add: o'_def word_less_nat_alt)
  then have l: "unat o' + unat (sg_len s1) \<le> unat wnd"
    using k(3) assms(2) by (simp add: word_le_nat_alt word_less_nat_alt o'_def)
  have u: "unat (o' + ucast (sg_len s1)) = unat o' + unat (sg_len s1)"
    using l assms(3) by (subst unat_plus32) simp_all
  show "near_la la s1" "near_la la s2" using l u k assms(3) by (simp_all add: seq_off_def)
  show "in_wnd la wnd s1" using k(1) u l by (simp add: in_wnd_def word_le_nat_alt)
qed

lemma flow_ok_split:
  assumes ok: "flow_ok ev n pcb nt" and us: "unsent pcb = s # q"
    and d: "split_done ev pcb nt s1 s2 p' nt'" and sp: "split_ok n (wnd - (sg_seqno s - lastack pcb)) s s1 s2"
    and wnd: "sg_seqno s - lastack pcb < wnd" "unat wnd < 2147483648"
  shows "flow_ok ev n p' nt'" "unsent p' = s1 # s2 # q" "unacked p' = unacked pcb" "lastack p' = lastack pcb"
    "nt_sent nt' = nt_sent nt"
proof -
  obtain p1 n1 x xs sq f new p3 where a: "alloc_only ev pcb nt p1 n1"
    and c: "tcp_create_segment ev p1 n1 (x # xs) 0 sq f = Some (Some new, p3, nt')" and ad: "sg_addr s2 = sg_addr new"
    and k: "kept (p3\<lparr>unsent := s1 # s2 # q\<rparr>) p'" and pa: "pbuf_alloc p' = pbuf_alloc p3"
    using d us unfolding split_done_def by auto
  note ok1 = flow_ok_alloc [OF ok a]
  have sb: "same_but_alloc pcb p3" using a create_segment_frame(1) [OF c] same_but_alloc_trans by (auto simp: alloc_only_def)
  note e = same_but_alloc_sel(1,2,14,16) [OF sb]
  have e1: "unsent p1 = s # q" "unacked p1 = unacked pcb" using a us same_but_alloc_sel(1,2) by (auto simp: alloc_only_def)
  show q: "unsent p' = s1 # s2 # q" "unacked p' = unacked pcb" "lastack p' = lastack pcb" using k e by (simp_all add: kept_def)
  show "nt_sent nt' = nt_sent nt" using a create_segment_frame(2) [OF c] by (simp add: alloc_only_def)
  have "mset (addrs p') = add_mset (sg_addr new) (mset (addrs p3))"
    using k sp ad e us by (simp add: addrs_def kept_def split_ok_def)
  then have fr: "fresh ev p' nt'" using fresh_create [OF _ c] ok1 by (simp add: flow_ok_def)
  have rm: "room ev p' n" using ok1 create_segment_frame(4) [OF c] pa by (simp add: flow_ok_def room_def)
  have "no_opts p' = no_opts pcb"
    using k sb by (intro no_opts_cong) (auto simp: kept_def same_but_alloc_def)
  moreover have "tail_ok p'" using ok k e by (simp add: flow_ok_def tail_ok_def kept_def)
  ultimately show "flow_ok ev n p' nt'"
    using ok us q fr rm sp split_near [OF sp wnd] by (simp add: flow_ok_def split_ok_def)
qed

lemma split_head_ok:
  assumes ok: "flow_ok ev n pcb nt" and us: "unsent pcb = s # q" and h: "split_head ev False wnd pcb nt s = Some (p', nt')"
    and wnd: "unat wnd < 2147483648"
  shows "flow_ok ev n p' nt' \<and> queued (unsent p') = queued (unsent pcb) \<and> unacked p' = unacked pcb
    \<and> lastack p' = lastack pcb \<and> nt_sent nt' = nt_sent nt"
proof (cases "p' = pcb \<and> nt' = nt")
  case False
  then have sp: "tcp_split_segment ev pcb nt wnd = Some (p', nt')" using h by (simp add: split_head_def split: if_splits)
  have pl: "plain n s" "n + 20 < 65536" "no_opts pcb" "room ev pcb n" using ok us by (simp_all add: flow_ok_def)
  have "unat wnd + 20 < 4294967296" using wnd by simp
  from split_segment_ok [OF sp us pl this] show ?thesis
  proof
    assume "alloc_only ev pcb nt p' nt'"
    then show ?thesis
      using flow_ok_alloc [OF ok] same_but_alloc_sel(1,2,14) by (auto simp: alloc_only_def)
  next
    assume "\<exists>s1 s2. split_done ev pcb nt s1 s2 p' nt' \<and> split_ok n (wnd - (sg_seqno s - lastack pcb)) s s1 s2
      \<and> sg_seqno s - lastack pcb < wnd"
    then obtain s1 s2 where k: "split_done ev pcb nt s1 s2 p' nt'" "split_ok n (wnd - (sg_seqno s - lastack pcb)) s s1 s2"
      "sg_seqno s - lastack pcb < wnd" by blast
    from flow_ok_split [OF ok us k wnd] show ?thesis
      using us split_ok_bytes [OF k(2), symmetric] by simp
  qed
qed (use ok in simp)

section \<open>Sending the head\<close>

lemma unat_add_len:
  assumes "unat (a :: u32) + 65536 \<le> 4294967296"
  shows "unat (a + ucast (l :: u16)) = unat a + unat l"
proof -
  have "unat a + unat l < 4294967296" using assms unat_lt16 [of l] by linarith
  then show ?thesis by (subst unat_plus32) simp_all
qed

lemma TCPLEN_zero: "TCP_TCPLEN s = 0 \<Longrightarrow> sg_len s = 0"
proof -
  have "unat (ucast (sg_len s) + 1 :: u32) = unat (sg_len s) + 1"
    using unat_add_len [of 1 "sg_len s"] by (simp add: add.commute)
  then have "(ucast (sg_len s) + 1 :: u32) \<noteq> 0" by (metis add_is_0 unat_0 zero_neq_one)
  then show "TCP_TCPLEN s = 0 \<Longrightarrow> sg_len s = 0"
    by (auto simp: TCP_TCPLEN_def word_unat_eq_iff split: if_splits)
qed

lemma requeue_plain:
  assumes "requeue False p nt s = Some (p', nt')" "sg_flags s = 0"
  obtains p2 where "kept p p2" "pbuf_alloc p2 = pbuf_alloc p"
    "(sg_len s = 0 \<and> p' = p2) \<or> insert_unacked p2 s = Some p'"
proof -
  define p2 where "p2 = (if TCP_SEQ_LT (snd_nxt p) (sg_seqno s + TCP_TCPLEN s) \<and> \<not> LWIP_IS_DUMMY_SEGMENT s then p\<lparr>snd_nxt := sg_seqno s + TCP_TCPLEN s\<rparr> else p)"
  have nd: "\<not> LWIP_IS_DUMMY_SEGMENT s" using assms(2) by (simp add: LWIP_IS_DUMMY_SEGMENT_def)
  have "(TCP_TCPLEN s = 0 \<and> p' = p2) \<or> insert_unacked p2 s = Some p'"
    using assms(1) nd unfolding requeue_def Let_def p2_def [symmetric]
    by (auto simp: word_less_nat_alt unat_eq_0 split: if_splits)
  then show thesis using that [of p2] TCPLEN_zero by (auto simp: p2_def)
qed

lemma seg_kept_bytes: "seg_kept s t \<Longrightarrow> sg_p t = sg_p s \<Longrightarrow> seg_bytes t = seg_bytes s"
  by (simp add: seg_kept_def seg_bytes_def seg_payload_def seg_hlen_def)

lemma queued_mset: "mset x = mset y \<Longrightarrow> queued x = queued y"
proof -
  have "queued q = \<Sum>\<^sub># (image_mset (\<lambda>s. mset (seg_bytes s)) (mset q))" for q by (induction q) simp_all
  then show "mset x = mset y \<Longrightarrow> queued x = queued y" by simp
qed

lemma plain_packet:
  assumes s: "plain n s" "seg_kept s t" "sg_p t = sg_p s" "in_wnd la wnd s" "near_la la s" and wnd: "unat wnd < 2147483648"
    and pk: "pk_hdr pk = sg_tcphdr t" "pk_data pk = drop 20 (chain_data (sg_p t))"
  shows "pk_in_wnd la wnd pk"
proof -
  have l: "length (chain_data (sg_p s)) = 20 + unat (sg_len s)"
    using s(1) by (simp add: plain_def seg_ok_def length_chain_data)
  have h: "4 * unat (TCPH_HDRLEN (sg_tcphdr t)) = 20" "th_seqno (sg_tcphdr t) = htonl (sg_seqno s)"
    using s(1,2) by (simp_all add: plain_def seg_kept_def seg_hlen_def)
  then have "pk_len pk = unat (sg_len s)" using l s(3) pk by (simp add: pk_len_def)
  moreover have "unat (sg_seqno s - la + ucast (sg_len s)) = unat (sg_seqno s - la) + unat (sg_len s)"
    using s(5) by (intro unat_add_len) (simp add: seq_off_def)
  ultimately show ?thesis using s(4) h pk by (simp add: pk_in_wnd_def in_wnd_def word_le_nat_alt ntohl_htonl)
qed

lemma flow_ok_drop:
  assumes "flow_ok ev n pcb nt" "unsent pcb = s # q"
  shows "flow_ok ev n (pcb\<lparr>unsent := q\<rparr>) nt"
proof -
  have "fresh ev pcb nt" using assms(1) by (simp add: flow_ok_def)
  then have "fresh ev (pcb\<lparr>unsent := q\<rparr>) nt" by (rule fresh_less) (simp_all add: addrs_def assms(2))
  moreover have "no_opts (pcb\<lparr>unsent := q\<rparr>) = no_opts pcb" by (rule no_opts_cong) simp_all
  ultimately show ?thesis using assms by (simp add: flow_ok_def room_def tail_ok_def)
qed

lemma flow_ok_queue:
  assumes ok: "flow_ok ev n p nt" and i: "insert_unacked p t = Some p'" and n: "near_la (lastack p) t"
    and fr: "fresh ev p0 nt" "mset (addrs p0) = add_mset (sg_addr t) (mset (addrs p))"
  shows "flow_ok ev n p' nt \<and> unsent p' = unsent p \<and> lastack p' = lastack p \<and> queued (unacked p') = mset (seg_bytes t) + queued (unacked p)"
proof -
  have d: "distinct (map sg_addr (unacked p))" using ok by (simp add: flow_ok_def fresh_def addrs_def)
  have l: "list_all (near_la (lastack p)) (t # unacked p)" "tail_ok p" using ok n by (simp_all add: flow_ok_def)
  from insert_unacked_ok [OF i d l(2,1)]
  have q: "mset (unacked p') = mset (t # unacked p)" "tail_ok p'" and k: "kept (p\<lparr>unacked := unacked p', last_unacked := last_unacked p'\<rparr>) p'"
    and pa: "pbuf_alloc p' = pbuf_alloc p" by simp_all
  have e: "unsent p' = unsent p" "lastack p' = lastack p" "seg_alloc p' = seg_alloc p" using k by (simp_all add: kept_def)
  have o: "no_opts p' = no_opts p" using k by (intro no_opts_cong) (simp_all add: kept_def)
  have "image_mset sg_addr (mset (unacked p')) = add_mset (sg_addr t) (image_mset sg_addr (mset (unacked p)))" using q(1) by simp
  then have "mset (addrs p') = mset (addrs p0)" unfolding fr(2) by (simp add: addrs_def e)
  then have "fresh ev p' nt" by (intro fresh_less [OF fr(1)]) simp_all
  moreover have "list_all (near_la (lastack p)) (unacked p')"
    using l(1) q(1) by (metis list_all_iff mset_eq_setD)
  ultimately have "flow_ok ev n p' nt" using ok o pa q(2) e by (simp add: flow_ok_def room_def)
  then show ?thesis using e queued_mset [OF q(1)] by simp
qed

lemma output_head_flow:
  assumes ok: "flow_ok ev n pcb nt" and us: "unsent pcb = s # q" and iw: "in_wnd (lastack pcb) wnd s" and wnd: "unat wnd < 2147483648"
    and h: "output_head ev False pcb nt s q = Some (p', nt')"
  shows "flow_ok ev n p' nt' \<and> queued (unacked p' @ unsent p') = queued (unacked pcb @ unsent pcb) \<and> lastack p' = lastack pcb
    \<and> (\<exists>pk. nt_sent nt' = nt_sent nt @ [pk] \<and> pk_in_wnd (lastack pcb) wnd pk)"
proof -
  have pl: "plain n s" "sg_flags s = 0" "near_la (lastack pcb) s" using ok us by (simp_all add: flow_ok_def plain_def)
  have nd: "\<not> LWIP_IS_DUMMY_SEGMENT s" using pl(2) by (simp add: LWIP_IS_DUMMY_SEGMENT_def)
  from h obtain p1 n1 t where k: "kept (pcb\<lparr>unsent := q\<rparr>) p1" "seg_kept s t" "sg_p t = sg_p s" "pbuf_alloc p1 = pbuf_alloc pcb"
    and rq: "requeue False p1 n1 t = Some (p', nt')" and ns: "nt_segs n1 = nt_segs nt"
    and st: "\<exists>x y. n1 = nt\<lparr>nt_sent := nt_sent nt @ [\<lparr>pk_hdr = sg_tcphdr t, pk_data = drop 20 (chain_data (sg_p t)),
          pk_rexmit = x, pk_dummy = LWIP_IS_DUMMY_SEGMENT s, pk_tos = y\<rparr>]\<rparr>"
    by (rule output_head_parts) (use pl(2) nd in blast)
  have pk: "\<exists>pk. nt_sent nt' = nt_sent nt @ [pk] \<and> pk_in_wnd (lastack pcb) wnd pk"
    using st requeue_queues(5) [OF rq] plain_packet [OF pl(1) k(2,3) iw pl(3) wnd] by auto
  have t: "sg_flags t = 0" "seg_bytes t = seg_bytes s" "sg_addr t = sg_addr s" "sg_seqno t = sg_seqno s" "sg_len t = sg_len s"
    using k(2) pl(2) seg_kept_bytes [OF k(2,3)] by (simp_all add: seg_kept_def)
  obtain p2 where p2: "kept p1 p2" "pbuf_alloc p2 = pbuf_alloc p1" "(sg_len t = 0 \<and> p' = p2) \<or> insert_unacked p2 t = Some p'"
    using rq t(1) by (rule requeue_plain)
  have k2: "kept (pcb\<lparr>unsent := q\<rparr>) p2" "pbuf_alloc p2 = pbuf_alloc (pcb\<lparr>unsent := q\<rparr>)" using k p2 kept_trans by auto
  have ok2: "flow_ok ev n p2 nt'" 
    by (rule flow_ok_kept [OF flow_ok_drop [OF ok us] k2]) (use ns requeue_queues(4) [OF rq] in simp)
  have e2: "unsent p2 = q" "unacked p2 = unacked pcb" "lastack p2 = lastack pcb" "seg_alloc p2 = seg_alloc pcb" using k2 by (simp_all add: kept_def)
  from p2(3) show ?thesis
  proof
    assume e: "sg_len t = 0 \<and> p' = p2"
    then have "seg_bytes s = []" using t plain_len [OF pl(1)] by (simp add: seg_bytes_def)
    then show ?thesis using e ok2 e2 pk us by simp
  next
    assume i: "insert_unacked p2 t = Some p'"
    have "fresh ev pcb nt'" using ok ns requeue_queues(4) [OF rq] fresh_less [of ev pcb nt nt' pcb] by (simp add: flow_ok_def)
    moreover have "mset (addrs pcb) = add_mset (sg_addr t) (mset (addrs p2))" using us e2 t by (simp add: addrs_def)
    ultimately show ?thesis
      using flow_ok_queue [OF ok2 i] e2 t pl(3) pk us by simp
  qed
qed

text \<open>One round: it stops, or it sends the head of the queue and goes on.\<close>

lemma output_loop_round:
  assumes "output_loop k ev force wnd pcb nt = Some (p', nt')" "unsent pcb = s # q"
  obtains (stop) p1 n1 where "split_head ev force wnd pcb nt s = Some (p1, n1)" "p' = p1" "nt' = n1"
  | (go) k' p1 n1 s1 q1 p2 p3 n3 where "k = Suc k'" "split_head ev force wnd pcb nt s = Some (p1, n1)" "unsent p1 = s1 # q1"
      "in_wnd (lastack p1) wnd s1 \<or> force" "nagle_pass force p1 s1 q1 = Some p2" "output_head ev force p2 n1 s1 q1 = Some (p3, n3)"
      "output_loop k' ev force wnd p3 n3 = Some (p', nt')"
proof -
  obtain p1 n1 where h: "split_head ev force wnd pcb nt s = Some (p1, n1)"
    using assms by (subst (asm) output_loop.simps) (auto split: option.splits)
  note def = assms(1) [unfolded output_loop.simps [of k] assms(2) list.case h option.case prod.case]
  show thesis
  proof (cases "unsent p1")
    case Nil
    then show thesis using def h stop by simp
  next
    case (Cons s1 q1)
    note def = def [unfolded Cons list.case]
    show thesis
    proof (cases "(in_wnd (lastack p1) wnd s1 \<or> force) \<and> nagle_pass force p1 s1 q1 \<noteq> None")
      case False
      then show thesis using def h stop by (auto split: if_splits option.splits)
    next
      case True
      then obtain p2 where p2: "nagle_pass force p1 s1 q1 = Some p2" by auto
      obtain k' where k: "k = Suc k'" using def True p2 by (cases k) auto
      obtain p3 n3 where p3: "output_head ev force p2 n1 s1 q1 = Some (p3, n3)" "output_loop k' ev force wnd p3 n3 = Some (p', nt')"
        using def True p2 k by (auto split: option.splits)
      show thesis by (rule go [OF k h Cons _ p2 p3]) (use True in blast)
    qed
  qed
qed

lemma output_loop_flow:
  assumes "output_loop k ev False wnd pcb nt = Some (p', nt')" "flow_ok ev n pcb nt" "unat wnd < 2147483648"
  shows "queued (unacked p' @ unsent p') = queued (unacked pcb @ unsent pcb)
    \<and> (\<exists>new. nt_sent nt' = nt_sent nt @ new \<and> list_all (pk_in_wnd (lastack pcb) wnd) new)"
  using assms(1,2)
proof (induction k arbitrary: pcb nt)
  case 0
  show ?case
  proof (cases "unsent pcb")
    case Nil
    then show ?thesis using 0 by (subst (asm) output_loop.simps) simp
  next
    case (Cons s q)
    from 0(1) Cons show ?thesis
    proof (cases rule: output_loop_round)
      case (stop p1 n1)
      then show ?thesis using split_head_ok [OF 0(2) Cons stop(1) assms(3)] by simp
    qed simp
  qed
next
  case (Suc k)
  show ?case
  proof (cases "unsent pcb")
    case Nil
    then show ?thesis using Suc.prems by (subst (asm) output_loop.simps) simp
  next
    case (Cons s q)
    from Suc.prems(1) Cons show ?thesis
    proof (cases rule: output_loop_round)
      case (stop p1 n1)
      then show ?thesis using split_head_ok [OF Suc.prems(2) Cons stop(1) assms(3)] by simp
    next
      case (go k' p1 n1 s1 q1 p2 p3 n3)
      note a = split_head_ok [OF Suc.prems(2) Cons go(2) assms(3)]
      note b = nagle_pass_sel [OF go(5)]
      have "flow_ok ev n p2 n1" using a b flow_ok_kept by blast
      from output_head_flow [OF this _ _ assms(3) go(6)]
      have c: "flow_ok ev n p3 n3" "queued (unacked p3 @ unsent p3) = queued (unacked p2 @ unsent p2)" "lastack p3 = lastack p2"
        "\<exists>pk. nt_sent n3 = nt_sent n1 @ [pk] \<and> pk_in_wnd (lastack p2) wnd pk"
        using go(3,4) b by auto
      have "output_loop k ev False wnd p3 n3 = Some (p', nt')" using go(1,7) by simp
      from Suc.IH [OF this c(1)] obtain new where i: "queued (unacked p' @ unsent p') = queued (unacked p3 @ unsent p3)"
        "nt_sent nt' = nt_sent n3 @ new" "list_all (pk_in_wnd (lastack p3) wnd) new" by blast
      obtain pk where pk: "nt_sent n3 = nt_sent n1 @ [pk]" "pk_in_wnd (lastack p2) wnd pk" using c(4) by blast
      have la: "lastack p3 = lastack pcb" "lastack p2 = lastack pcb" using a b c(3) by simp_all
      have "nt_sent nt' = nt_sent nt @ pk # new" "list_all (pk_in_wnd (lastack pcb) wnd) (pk # new)"
        using i(2,3) pk a la by simp_all
      moreover have "queued (unacked p' @ unsent p') = queued (unacked pcb @ unsent pcb)"
        unfolding i(1) c(2) using a b by simp
      ultimately show ?thesis by blast
    qed
  qed
qed

lemma output_done_frame:
  assumes "output_done ev p n = Some (p', n')"
  shows "unsent p' = unsent p \<and> unacked p' = unacked p \<and> nt_sent n' = nt_sent n"
proof -
  define p1 where "p1 = clear_flag (if unsent p = [] then p\<lparr>unsent_oversize := 0\<rparr> else p) TF_NAGLEMEMERR"
  have p1: "unsent p1 = unsent p" "unacked p1 = unacked p" by (simp_all add: p1_def clear_flag_def)
  obtain p2 n2 where c: "(if seg_alloc p1 = [] then
        map_option (\<lambda>(r, pcb, nt). (pcb\<lparr>seg_alloc := (case r of None \<Rightarrow> [] | Some s \<Rightarrow> [s])\<rparr>, nt)) (tcp_create_segment ev p1 n [] 0 0 0)
      else Some (p1, n)) = Some (p2, n2)"
    and d: "(if pbuf_alloc p2 = [] then (case tcp_tx_pbuf_alloc ev p2 n2 0 PBUF_RAM of
        (r, pcb, nt) \<Rightarrow> (pcb\<lparr>pbuf_alloc := (case r of None \<Rightarrow> [] | Some p \<Rightarrow> [p])\<rparr>, nt)) else (p2, n2)) = (p', n')"
    using assms unfolding output_done_def Let_def p1_def [symmetric] by (auto simp: bind_eq_Some_conv)
  have 2: "unsent p2 = unsent p1 \<and> unacked p2 = unacked p1 \<and> nt_sent n2 = nt_sent n"
    using c create_segment_frame [of ev p1 n "[]" 0 0 0] same_but_alloc_sel(1,2) by (fastforce split: if_splits)
  obtain r p3 n3 where a: "tcp_tx_pbuf_alloc ev p2 n2 0 PBUF_RAM = (r, p3, n3)" by (metis prod_cases3)
  have "unsent p' = unsent p2 \<and> unacked p' = unacked p2 \<and> nt_sent n' = nt_sent n2"
    using d tx_pbuf_alloc_frame [OF a] same_but_alloc_sel(1,2) [of p2 p3] by (auto simp: a split: if_splits)
  with 2 p1 show ?thesis by simp
qed

lemma output_flow:
  assumes out: "tcp_output ev pcb nt = Some (e, pcb', nt')" and ok: "flow_ok ev n pcb nt"
    and nf: "send_state (tlt pcb) = Idle" "\<not> pcb_has pcb TF_ACK_NOW" "unat (min (snd_wnd pcb) (cwnd pcb)) < 2147483648"
  shows "queued (unacked pcb' @ unsent pcb') = queued (unacked pcb @ unsent pcb)
    \<and> (\<exists>new. nt_sent nt' = nt_sent nt @ new \<and> list_all (pk_in_wnd (lastack pcb) (min (snd_wnd pcb) (cwnd pcb))) new)"
proof (cases "input_busy nt")
  case True
  then show ?thesis using out by (simp add: tcp_output_def)
next
  case False
  define wnd where "wnd = min (snd_wnd pcb) (cwnd pcb)"
  have "tcp_output_force ev wnd pcb nt = Some (False, pcb, nt)"
    using nf(1) by (simp add: tcp_output_force_def split: list.splits)
  then obtain p1 n1 where l: "output_loop (output_fuel wnd pcb) ev False wnd pcb nt = Some (p1, n1)"
    and d: "output_done ev p1 n1 = Some (pcb', nt')"
    using out False nf(2) by (auto simp: tcp_output_def wnd_def [symmetric] Let_def bind_eq_Some_conv)
  show ?thesis using output_done_frame [OF d] output_loop_flow [OF l ok] nf(3) by (simp add: wnd_def)
qed


text \<open>A connection with eight bytes queued and a window of three.\<close>

definition ex_oseg :: "nat \<Rightarrow> u32 \<Rightarrow> u8 list \<Rightarrow> tcp_seg" where
  "ex_oseg a sq bs = seg_zero\<lparr>sg_addr := a, sg_p := [(ex_pbuf [] 0)\<lparr>pb_buf := replicate 20 0 @ bs, pb_off := 0,
       pb_len := of_nat (20 + length bs), pb_tot_len := of_nat (20 + length bs)\<rparr>], sg_dataptr := 20,
     sg_len := of_nat (length bs), sg_seqno := sq, sg_tcphdr := (TCPH_HDRLEN_FLAGS_SET hdr_zero 5 0)\<lparr>th_seqno := htonl sq\<rparr>\<rparr>"

definition ex_opcb :: tcp_pcb where
  "ex_opcb = pcb_zero\<lparr>private_state := ESTABLISHED, mss := 8, snd_wnd_max := 1000, snd_wnd := 3, cwnd := 1000, lastack := 100,
     snd_nxt := 100, snd_lbb := 108, unsent := [ex_oseg 1 100 [1, 2, 3, 4, 5, 6, 7, 8]], snd_buf := 100, iss := 99\<rparr>"

lemma ex_output: "map_option (\<lambda>(e, p, n). (e, length (nt_sent n))) (tcp_output ex_wenv ex_opcb net_zero) = Some (ERR_OK, 1)"
  by code_simp

lemma ex_flow: "flow_ok ex_wenv 20 ex_opcb net_zero"
proof -
  have "list_all (near_la (lastack ex_opcb)) (unsent ex_opcb @ unacked ex_opcb)"
    by (simp add: ex_opcb_def ex_oseg_def seq_off_def pcb_zero_def)
  moreover have "list_all (plain 20) (unsent ex_opcb)" "no_opts ex_opcb"
    "tail_ok ex_opcb" "addrs ex_opcb = [1]" "pbuf_alloc ex_opcb = []" "nt_segs net_zero = 0"
    "roomy 20 ((ex_pbuf [] 0)\<lparr>pb_buf := replicate 40 0, pb_off := 20\<rparr>)"
    by code_simp+
  ultimately show ?thesis by (simp add: flow_ok_def room_def fresh_def ex_wenv_def)
qed


section \<open>A forced transmission\<close>

lemma pop_unacked: "tlt_uimpq_pop pcb l r = Some (p', x) \<Longrightarrow> unacked p' = unacked pcb"
  by (auto simp: tlt_uimpq_pop_def bind_eq_Some_conv split: option.splits)

lemma force_segment_unacked:
  assumes "force_segment ev pcb nt t sq l = Some (f, p', nt')"
  shows "unacked p' = unacked pcb"
proof -
  define len where "len = (ucast (l + of_nat (LWIP_TCP_OPT_LENGTH pcb (ts_optflags pcb))) :: u16)"
  obtain x p1 n1 where pre: "tcp_pbuf_prealloc ev pcb nt len (force_mss pcb) False False = (x, p1, n1)" by (metis prod_cases3)
  have "unacked p1 = unacked pcb" using same_but_alloc_sel(2) [OF pbuf_prealloc_frame(1) [OF pre]] .
  moreover have "unacked p' = unacked p1"
  proof (cases x)
    case None
    then show ?thesis using assms pre by (simp add: force_segment_def Let_def len_def)
  next
    case (Some po)
    obtain p ov where po: "po = (p, ov)" by (cases po)
    obtain ps sq' fl r p2 n2 where c: "tcp_create_segment ev p1 n1 ps 0 sq' fl = Some (r, p2, n2)" "unacked p' = unacked p2"
      using assms pre Some po by (auto simp: force_segment_def Let_def len_def bind_eq_Some_conv split: option.splits)
    show ?thesis using c(2) same_but_alloc_sel(2) [OF create_segment_frame(1) [OF c(1)]] by simp
  qed
  ultimately show ?thesis by simp
qed

lemma output_force_unacked:
  assumes "tcp_output_force ev wnd pcb nt = Some (f, p', nt')"
  shows "unacked p' = unacked pcb"
proof -
  have "unacked p' = unacked pcb \<or> (\<exists>l r p1 x t sq y. tlt_uimpq_pop pcb l r = Some (p1, x)
      \<and> force_segment ev (p1\<lparr>tlt := y\<rparr>) nt t sq l = Some (f, p', nt'))"
    using assms unfolding tcp_output_force_def Let_def
    by (simp add: bind_eq_Some_conv split: list.splits if_splits option.splits prod.splits) metis+
  then show ?thesis
    using pop_unacked force_segment_unacked by fastforce
qed

text \<open>C28. A forced retransmission empties the unsent queue: the flag stays set for the rest of the
  loop, so every segment behind the retransmitted one is sent without a look at the window
  and then freed instead of being put on the unacknowledged queue; a lost one can never be
  retransmitted.\<close>

theorem tcp_output_forced_drops:
  assumes out: "tcp_output ev pcb nt = Some (e, pcb', nt')"
    and fo: "tcp_output_force ev (min (snd_wnd pcb) (cwnd pcb)) pcb nt = Some (True, p1, n1)"
    and nf: "\<not> input_busy nt" "\<not> pcb_has pcb TF_ACK_NOW"
  shows "unsent pcb' = [] \<and> unacked pcb' = unacked pcb"
proof -
  obtain p2 n2 where l: "output_loop (output_fuel (min (snd_wnd pcb) (cwnd pcb)) p1) ev True (min (snd_wnd pcb) (cwnd pcb)) p1 n1 = Some (p2, n2)"
    and d: "output_done ev p2 n2 = Some (pcb', nt')"
    using out nf fo by (auto simp: tcp_output_def Let_def bind_eq_Some_conv)
  show ?thesis using output_done_frame [OF d] output_loop_forced [OF l] output_force_unacked [OF fo] by simp
qed

definition ex_fpcb :: tcp_pcb where
  "ex_fpcb = pcb_zero\<lparr>private_state := ESTABLISHED, mss := 8, snd_wnd_max := 1000, snd_wnd := 8, cwnd := 1000, lastack := 100,
     snd_nxt := 108, snd_lbb := 110, unacked := [ex_oseg 1 100 [1, 2, 3, 4, 5, 6, 7, 8]], last_unacked := Some 1,
     unsent := [ex_oseg 2 108 [9, 10]], snd_buf := 100, iss := 99, tlt := (tlt (ex_pcb 1))\<lparr>send_state := Pending\<rparr>\<rparr>"

lemma ex_forced:
  "map_option fst (tcp_output_force ex_wenv (min (snd_wnd ex_fpcb) (cwnd ex_fpcb)) ex_fpcb net_zero) = Some True"
  "map_option fst (tcp_output ex_wenv ex_fpcb net_zero) = Some ERR_OK"
  "unsent ex_fpcb \<noteq> []" "\<not> input_busy net_zero" "\<not> pcb_has ex_fpcb TF_ACK_NOW"
  by code_simp+

theorem tcp_output_forced_drops_witness:
  "\<exists>pcb' nt'. unsent ex_fpcb \<noteq> [] \<and> tcp_output ex_wenv ex_fpcb net_zero = Some (ERR_OK, pcb', nt')
    \<and> unsent pcb' = [] \<and> unacked pcb' = unacked ex_fpcb"
proof -
  obtain p1 n1 where f: "tcp_output_force ex_wenv (min (snd_wnd ex_fpcb) (cwnd ex_fpcb)) ex_fpcb net_zero = Some (True, p1, n1)"
    using ex_forced(1) by auto
  obtain pcb' nt' where o: "tcp_output ex_wenv ex_fpcb net_zero = Some (ERR_OK, pcb', nt')" using ex_forced(2) by auto
  show ?thesis using tcp_output_forced_drops [OF o f ex_forced(4,5)] o ex_forced(3) by auto
qed

end
