(* ===== verification/Tcp_Core.thy ===== *)
theory Tcp_Core
  imports Tcp_Output
begin

text \<open>
  The connection management of \<^verbatim>\<open>src/src/vma/lwip/tcp.c\<close>: initialisation, purging and
  removal of a protocol control block, the receive window, opening and
  closing, and the two timers.  None stands for undefined behaviour: an index
  outside a table, a division by zero, a shift that overflows, or one of the
  cases of the output code.  The callbacks of the socket layer are the record
  \<open>tcp_cbs\<close>; an absent one is a null pointer.
\<close>

record tcp_cbs =
  recv_cb :: "(tcp_pcb \<Rightarrow> net \<Rightarrow> pbuf list \<Rightarrow> err \<Rightarrow> (err \<times> tcp_pcb \<times> net) option) option"
  sent_cb :: "(tcp_pcb \<Rightarrow> net \<Rightarrow> u32 \<Rightarrow> (err \<times> tcp_pcb \<times> net) option) option"
  connected_cb :: "(tcp_pcb \<Rightarrow> net \<Rightarrow> err \<Rightarrow> (err \<times> tcp_pcb \<times> net) option) option"
  accept_cb :: "(tcp_pcb \<Rightarrow> net \<Rightarrow> err \<Rightarrow> (err \<times> tcp_pcb \<times> net) option) option"
  clone_conn_cb :: "(net \<Rightarrow> tcp_pcb option \<times> net) option"
  syn_handled_cb :: "(tcp_pcb \<Rightarrow> net \<Rightarrow> (err \<times> tcp_pcb \<times> net) option) option"

section \<open>Constants\<close>

definition tcp_backoff :: "nat list" where "tcp_backoff = [1, 2, 3, 4, 5, 6, 7, 7, 7, 7, 7, 7, 7]"
definition tcp_persist_backoff :: "u32 list" where "tcp_persist_backoff = [3, 6, 12, 24, 48, 96, 120]"

definition TCP_WND :: u32 where "TCP_WND = 0xFFFF"
definition TCP_SND_BUF :: u32 where "TCP_SND_BUF = 1000000"
definition TCP_TTL :: u8 where "TCP_TTL = 255"
definition TCP_MAXRTX :: u8 where "TCP_MAXRTX = 12"
definition TCP_SYNMAXRTX :: u8 where "TCP_SYNMAXRTX = 6"
definition TCP_INITIAL_RTO :: nat where "TCP_INITIAL_RTO = 100"
definition TCP_MIN_RTO :: nat where "TCP_MIN_RTO = 4"
definition TCP_INITIAL_RTT_EST :: nat where "TCP_INITIAL_RTT_EST = 4"
definition TCP_FIN_WAIT_TIMEOUT :: nat where "TCP_FIN_WAIT_TIMEOUT = 20000"
definition TCP_SYN_RCVD_TIMEOUT :: nat where "TCP_SYN_RCVD_TIMEOUT = 20000"
definition TCP_OOSEQ_TIMEOUT :: u32 where "TCP_OOSEQ_TIMEOUT = 6"
definition TCP_MSL :: nat where "TCP_MSL = 60000"
definition TCP_KEEPIDLE_DEFAULT :: u32 where "TCP_KEEPIDLE_DEFAULT = 7200000"
definition TCP_KEEPINTVL_DEFAULT :: nat where "TCP_KEEPINTVL_DEFAULT = 75000"
definition TCP_MAXIDLE :: nat where "TCP_MAXIDLE = 9 * TCP_KEEPINTVL_DEFAULT"
definition SOF_ACCEPTCONN :: u8 where "SOF_ACCEPTCONN = 0x02"
definition SOF_KEEPALIVE :: u8 where "SOF_KEEPALIVE = 0x08"

definition TCP_WND_SCALED :: "tcp_pcb \<Rightarrow> u32" where
  "TCP_WND_SCALED pcb = push_bit (unat (rcv_scale pcb)) TCP_WND"

definition set_tmr_resolution :: "tcp_env \<Rightarrow> u32 \<Rightarrow> tcp_env" where
  "set_tmr_resolution ev v = ev\<lparr>slow_tmr_interval := v * 2\<rparr>"

text \<open>A number of milliseconds in ticks of the slow timer; the division is by a global.\<close>

definition in_ticks :: "tcp_env \<Rightarrow> nat \<Rightarrow> nat option" where
  "in_ticks ev ms = (if slow_tmr_interval ev = 0 then None else Some (ms div unat (slow_tmr_interval ev)))"

text \<open>Ticks since the last activity of a connection.\<close>

definition elapsed :: "tcp_pcb \<Rightarrow> net \<Rightarrow> u32" where
  "elapsed pcb nt = tcp_ticks nt - tmr pcb"

section \<open>A new control block\<close>

definition initial_mss :: "tcp_env \<Rightarrow> u16" where
  "initial_mss ev = (if lwip_tcp_mss ev \<noteq> 0 then (if lwip_tcp_mss ev > 536 then 536 else lwip_tcp_mss ev) else 536)"

definition tcp_pcb_init :: "tcp_env \<Rightarrow> u32 \<Rightarrow> u8 \<Rightarrow> tcp_pcb option" where
  "tcp_pcb_init ev ticks prio' =
     (let pcb = pcb_zero\<lparr>max_snd_buff := TCP_SND_BUF, prio := prio', snd_buf := TCP_SND_BUF, snd_queuelen := 0,
            snd_scale := 0, rcv_scale := 0\<rparr>;
          pcb = pcb\<lparr>rcv_wnd := TCP_WND_SCALED pcb, rcv_ann_wnd := TCP_WND_SCALED pcb,
            rcv_wnd_max := TCP_WND_SCALED pcb, rcv_wnd_max_desired := TCP_WND_SCALED pcb,
            tos := 0, ttl := TCP_TTL, advtsd_mss := initial_mss ev\<rparr>;
          pcb = UPDATE_PCB_BY_MSS pcb (initial_mss ev);
          pcb = pcb\<lparr>max_unsent_len := ucast (max_tcp_snd_queuelen pcb)\<rparr>
      in do {
        t1 \<leftarrow> in_ticks ev TCP_MIN_RTO;
        t2 \<leftarrow> in_ticks ev TCP_INITIAL_RTO;
        t3 \<leftarrow> in_ticks ev (TCP_INITIAL_RTT_EST * 8);
        let pcb = pcb\<lparr>minrto := int t1, rto := int t2, sa := int t3, sv := 0, rtime := - 1,
                       cc_algo_of := lwip_cc_algo_module ev\<rparr>;
        pcb \<leftarrow> cc_init pcb (ucast ticks) (malloc_ok ev);
        let pcb = pcb\<lparr>cwnd := 1, iss := 1, snd_wl2 := 1, snd_nxt := 1, lastack := 1, snd_lbb := 1, tmr := ticks,
                       snd_sml_snt := 0, snd_sml_add := 0, polltmr := 0, tcp_timer := 0,
                       keep_idle := TCP_KEEPIDLE_DEFAULT, keep_cnt_sent := 0, quickack := 0,
                       enable_ts_opt := enable_ts_option ev, seg_alloc := [], pbuf_alloc := [],
                       sack_permitted := 0, rcv_sack_block_cnt := 0, snd_sack_block_cnt := 0\<rparr>;
        Some (dctcp_init (tlt_init pcb))
      })"

section \<open>Purging and removing\<close>

definition tcp_pcb_purge :: "tcp_pcb \<Rightarrow> net \<Rightarrow> tcp_pcb \<times> net" where
  "tcp_pcb_purge pcb nt =
     (if get_tcp_state pcb \<noteq> CLOSED \<and> get_tcp_state pcb \<noteq> TIME_WAIT \<and> get_tcp_state pcb \<noteq> LISTEN then
        (let nt = nt\<lparr>nt_pbuf_free := nt_pbuf_free nt @ fst (pbuf_free (refused_data pcb))\<rparr>;
             nt = tcp_segs_free nt (ooseq pcb);
             nt = tcp_tx_segs_free nt (unsent pcb);
             nt = tcp_tx_segs_free nt (unacked pcb)
         in (cc_destroy (pcb\<lparr>refused_data := [], ooseq := [], rtime := - 1, unsent := [], unacked := [], unsent_oversize := 0\<rparr>), nt))
      else (pcb, nt))"

definition tcp_pcb_remove :: "tcp_env \<Rightarrow> tcp_pcb \<Rightarrow> net \<Rightarrow> (tcp_pcb \<times> net) option" where
  "tcp_pcb_remove ev pcb nt =
     (let (pcb, nt) = tcp_pcb_purge pcb nt
      in do {
        (pcb, nt) \<leftarrow> (if get_tcp_state pcb \<noteq> TIME_WAIT \<and> get_tcp_state pcb \<noteq> LISTEN \<and> pcb_has pcb TF_ACK_DELAY
                      then map_option snd (tcp_output ev (set_flag pcb TF_ACK_NOW) nt) else Some (pcb, nt));
        Some (set_tcp_state pcb nt CLOSED)
      })"

section \<open>The receive window\<close>

text \<open>The right edge the peer may send up to; the second component is the growth an
  announcement would give.\<close>

definition tcp_update_rcv_ann_wnd :: "tcp_pcb \<Rightarrow> tcp_pcb \<times> u32" where
  "tcp_update_rcv_ann_wnd pcb =
     (let new_right_edge = rcv_nxt pcb + rcv_wnd pcb
      in if TCP_SEQ_GEQ new_right_edge (rcv_ann_right_edge pcb + min (rcv_wnd_max pcb div 2) (ucast (mss pcb))) then
           (pcb\<lparr>rcv_ann_wnd := rcv_wnd pcb\<rparr>, new_right_edge - rcv_ann_right_edge pcb)
         else if TCP_SEQ_GT (rcv_nxt pcb) (rcv_ann_right_edge pcb) then (pcb\<lparr>rcv_ann_wnd := 0\<rparr>, 0)
         else (pcb\<lparr>rcv_ann_wnd := rcv_ann_right_edge pcb - rcv_nxt pcb\<rparr>, 0))"

definition open_window :: "tcp_pcb \<Rightarrow> u32 \<Rightarrow> tcp_pcb" where
  "open_window pcb len =
     (let pcb = pcb\<lparr>rcv_wnd := rcv_wnd pcb + len\<rparr>
      in if rcv_wnd pcb > rcv_wnd_max pcb then pcb\<lparr>rcv_wnd := rcv_wnd_max pcb\<rparr>
         else if rcv_wnd pcb = 0 \<and> (get_tcp_state pcb = CLOSE_WAIT \<or> get_tcp_state pcb = LAST_ACK)
              then pcb\<lparr>rcv_wnd := rcv_wnd_max pcb\<rparr> else pcb)"

definition tcp_recved :: "tcp_env \<Rightarrow> tcp_pcb \<Rightarrow> net \<Rightarrow> u32 \<Rightarrow> (tcp_pcb \<times> net) option" where
  "tcp_recved ev pcb nt len =
     (let (pcb, wnd_inflation) = tcp_update_rcv_ann_wnd (open_window pcb len)
      in if wnd_inflation \<ge> rcv_wnd_max pcb div 4 then map_option snd (tcp_output ev (tcp_ack_now pcb) nt)
         else Some (pcb, nt))"

section \<open>Opening\<close>

text \<open>An address is null, the wildcard 0, or proper.\<close>

definition tcp_bind :: "tcp_pcb \<Rightarrow> u32 option \<Rightarrow> u16 \<Rightarrow> err \<times> tcp_pcb" where
  "tcp_bind pcb ipaddr port =
     (if get_tcp_state pcb \<noteq> CLOSED then (ERR_ISCONN, pcb)
      else (ERR_OK, (case ipaddr of None \<Rightarrow> pcb | Some a \<Rightarrow> if a = 0 then pcb else pcb\<lparr>local_ip := a\<rparr>)\<lparr>local_port := port\<rparr>))"

definition tcp_listen :: "tcp_pcb option \<Rightarrow> tcp_pcb option \<Rightarrow> net \<Rightarrow> err \<times> tcp_pcb option \<times> net" where
  "tcp_listen listen_pcb conn_pcb nt =
     (case (listen_pcb, conn_pcb) of
        (Some l, Some pcb) \<Rightarrow>
          if get_tcp_state pcb = LISTEN then (ERR_ISCONN, Some l, nt)
          else (let l = l\<lparr>local_port := local_port pcb\<rparr>;
                    (l, nt) = set_tcp_state l nt LISTEN
                in (ERR_OK, Some (l\<lparr>prio := prio pcb, so_options := so_options pcb OR SOF_ACCEPTCONN, ttl := ttl pcb,
                                    tos := tos pcb, local_ip := local_ip pcb\<rparr>), nt))
      | _ \<Rightarrow> (ERR_ISCONN, listen_pcb, nt))"

text \<open>The macro UPDATE_PCB_BY_MSS divides by the segment size.\<close>

definition update_mss :: "tcp_pcb \<Rightarrow> u16 \<Rightarrow> tcp_pcb option" where
  "update_mss pcb m = (if m = 0 then None else Some (UPDATE_PCB_BY_MSS pcb m))"

definition connect_fields :: "tcp_env \<Rightarrow> tcp_pcb \<Rightarrow> tcp_pcb option" where
  "connect_fields ev pcb = do {
     let pcb = pcb\<lparr>rcv_nxt := 0, snd_nxt := 1, lastack := 0, snd_lbb := 0, rcv_ann_right_edge := 0, snd_wnd := TCP_WND,
                    advtsd_mss := initial_mss ev\<rparr>;
     pcb \<leftarrow> update_mss pcb (initial_mss ev);
     let pcb = pcb\<lparr>advtsd_mss := (if lwip_tcp_mss ev > 0 then tcp_eff_send_mss ev (lwip_tcp_mss ev)
                                  else tcp_mss_follow_mtu_with_default ev 536)\<rparr>;
     pcb \<leftarrow> update_mss pcb (tcp_eff_send_mss ev (mss pcb));
     Some (pcb\<lparr>cwnd := 1, ssthresh := ucast (mss pcb) * 10\<rparr>)
   }"

definition tcp_connect :: "tcp_env \<Rightarrow> tcp_pcb \<Rightarrow> net \<Rightarrow> u32 option \<Rightarrow> u16 \<Rightarrow> (err \<times> tcp_pcb \<times> net) option" where
  "tcp_connect ev pcb nt ipaddr port =
     (if get_tcp_state pcb \<noteq> CLOSED then Some (ERR_ISCONN, pcb, nt)
      else case ipaddr of None \<Rightarrow> Some (ERR_VAL, pcb, nt)
      | Some a \<Rightarrow>
          (let pcb = pcb\<lparr>remote_ip := a, remote_port := port\<rparr>
           in if local_port pcb = 0 then Some (ERR_VAL, pcb, nt)
              else do {
                pcb \<leftarrow> connect_fields ev pcb;
                (e, pcb, nt) \<leftarrow> tcp_enqueue_flags ev pcb nt TCP_SYN;
                if e \<noteq> ERR_OK then Some (e, pcb, nt)
                else do {
                  let (pcb, nt) = set_tcp_state pcb nt SYN_SENT;
                  (_, pcb, nt) \<leftarrow> tcp_output ev pcb nt;
                  Some (ERR_OK, pcb, nt)
                }
              }))"

section \<open>Closing\<close>

text \<open>A FIN is queued, the state changes, and what is queued is sent (lines 204-243).\<close>

definition close_with_fin :: "tcp_env \<Rightarrow> tcp_pcb \<Rightarrow> net \<Rightarrow> tcp_state \<Rightarrow> (err \<times> tcp_pcb \<times> net) option" where
  "close_with_fin ev pcb nt s = do {
     (e, pcb, nt) \<leftarrow> tcp_send_fin ev pcb nt;
     if e \<noteq> ERR_OK then Some (e, pcb, nt)
     else do {
       let (pcb, nt) = set_tcp_state pcb nt s;
       (_, pcb, nt) \<leftarrow> tcp_output ev pcb nt;
       Some (ERR_OK, pcb, nt)
     }
   }"

definition tcp_close_shutdown :: "tcp_env \<Rightarrow> tcp_pcb \<Rightarrow> net \<Rightarrow> bool \<Rightarrow> (err \<times> tcp_pcb \<times> net) option" where
  "tcp_close_shutdown ev pcb nt rst_on_unacked_data =
     (if rst_on_unacked_data \<and> (get_tcp_state pcb = ESTABLISHED \<or> get_tcp_state pcb = CLOSE_WAIT)
         \<and> (refused_data pcb \<noteq> [] \<or> rcv_wnd pcb \<noteq> rcv_wnd_max pcb) then
        (let (pcb, nt) = tcp_rst ev pcb nt (snd_nxt pcb) (rcv_nxt pcb) (local_port pcb) (remote_port pcb);
             (pcb, nt) = tcp_pcb_purge pcb nt;
             (pcb, nt) = (if get_tcp_state pcb = ESTABLISHED then set_tcp_state pcb nt TIME_WAIT else (pcb, nt))
         in Some (ERR_OK, pcb, nt))
      else (case get_tcp_state pcb of
         LISTEN \<Rightarrow> map_option (\<lambda>(p, n). (ERR_OK, p, n)) (tcp_pcb_remove ev pcb nt)
       | SYN_SENT \<Rightarrow> map_option (\<lambda>(p, n). (ERR_OK, p, n)) (tcp_pcb_remove ev pcb nt)
       | SYN_RCVD \<Rightarrow> close_with_fin ev pcb nt FIN_WAIT_1
       | ESTABLISHED \<Rightarrow> close_with_fin ev pcb nt FIN_WAIT_1
       | CLOSE_WAIT \<Rightarrow> close_with_fin ev pcb nt LAST_ACK
       | _ \<Rightarrow> Some (ERR_OK, pcb, nt)))"

definition tcp_close :: "tcp_env \<Rightarrow> tcp_pcb \<Rightarrow> net \<Rightarrow> (err \<times> tcp_pcb \<times> net) option" where
  "tcp_close ev pcb nt =
     tcp_close_shutdown ev (if get_tcp_state pcb \<noteq> LISTEN then set_flag pcb TF_RXCLOSED else pcb) nt True"

definition tcp_shutdown :: "tcp_env \<Rightarrow> tcp_pcb \<Rightarrow> net \<Rightarrow> bool \<Rightarrow> bool \<Rightarrow> (err \<times> tcp_pcb \<times> net) option" where
  "tcp_shutdown ev pcb nt shut_rx shut_tx =
     (if get_tcp_state pcb = LISTEN then Some (ERR_CONN, pcb, nt)
      else (let pcb = (if shut_rx then set_flag pcb TF_RXCLOSED else pcb)
            in if shut_rx \<and> shut_tx then tcp_close_shutdown ev pcb nt True
               else (let nt = (if shut_rx then nt\<lparr>nt_pbuf_free := nt_pbuf_free nt @ fst (pbuf_free (refused_data pcb))\<rparr> else nt);
                         pcb = (if shut_rx then pcb\<lparr>refused_data := []\<rparr> else pcb)
                     in if shut_tx then
                          (if get_tcp_state pcb \<in> {SYN_RCVD, ESTABLISHED, CLOSE_WAIT}
                           then tcp_close_shutdown ev pcb nt False else Some (ERR_CONN, pcb, nt))
                        else Some (ERR_OK, pcb, nt))))"

text \<open>\<open>tcp_abandon\<close>; the segments of ooseq are freed and the pointer stays.\<close>

definition tcp_abandon :: "tcp_env \<Rightarrow> tcp_pcb \<Rightarrow> net \<Rightarrow> bool \<Rightarrow> (tcp_pcb \<times> net) option" where
  "tcp_abandon ev pcb nt reset =
     (if get_tcp_state pcb = TIME_WAIT then tcp_pcb_remove ev pcb nt
      else (let send_rst = (reset \<and> get_tcp_state pcb \<noteq> CLOSED);
                seqno = snd_nxt pcb; ackno = rcv_nxt pcb; rport = remote_port pcb; lport = local_port pcb
            in do {
              (pcb, nt) \<leftarrow> tcp_pcb_remove ev pcb nt;
              let nt = tcp_tx_segs_free nt (unacked pcb);
              let nt = tcp_tx_segs_free nt (unsent pcb);
              let nt = tcp_segs_free nt (ooseq pcb);
              let pcb = pcb\<lparr>unacked := [], unsent := []\<rparr>;
              let nt = event_err nt ERR_ABRT;
              Some (if send_rst then tcp_rst ev pcb nt seqno ackno lport rport else (pcb, nt))
            }))"

definition tcp_abort :: "tcp_env \<Rightarrow> tcp_pcb \<Rightarrow> net \<Rightarrow> (tcp_pcb \<times> net) option" where
  "tcp_abort ev pcb nt = tcp_abandon ev pcb nt True"

section \<open>Delivering data\<close>

definition tcp_recv_null :: "tcp_env \<Rightarrow> tcp_pcb \<Rightarrow> net \<Rightarrow> pbuf list \<Rightarrow> err \<Rightarrow> (err \<times> tcp_pcb \<times> net) option" where
  "tcp_recv_null ev pcb nt p e =
     (case p of
        b # _ \<Rightarrow> do {
          (pcb, nt) \<leftarrow> tcp_recved ev pcb nt (pb_tot_len b);
          Some (ERR_OK, pcb, nt\<lparr>nt_pbuf_free := nt_pbuf_free nt @ fst (pbuf_free p)\<rparr>)
        }
      | [] \<Rightarrow> if e = ERR_OK then tcp_close ev pcb nt else Some (ERR_OK, pcb, nt))"

definition TCP_EVENT_RECV ::
    "tcp_env \<Rightarrow> tcp_cbs \<Rightarrow> tcp_pcb \<Rightarrow> net \<Rightarrow> pbuf list \<Rightarrow> err \<Rightarrow> (err \<times> tcp_pcb \<times> net) option" where
  "TCP_EVENT_RECV ev cb pcb nt p e =
     (case recv_cb cb of Some f \<Rightarrow> f pcb nt p e | None \<Rightarrow> tcp_recv_null ev pcb nt p e)"

text \<open>The loop over data that was refused before (lines 877-898, and lines 199-222 of tcp_in.c): the
  error of the application, or ERR_OK when everything is delivered.  Every round that goes
  on leaves fewer buffers.\<close>

fun redeliver :: "nat \<Rightarrow> tcp_env \<Rightarrow> tcp_cbs \<Rightarrow> tcp_pcb \<Rightarrow> net \<Rightarrow> (err \<times> tcp_pcb \<times> net) option" where
  "redeliver fuel ev cb pcb nt =
     (if refused_data pcb = [] then Some (ERR_OK, pcb, nt)
      else case fuel of 0 \<Rightarrow> None
      | Suc n \<Rightarrow>
          (let (front, rest) = pbuf_split_64k (refused_data pcb)
           in case TCP_EVENT_RECV ev cb (pcb\<lparr>refused_data := front\<rparr>) nt front ERR_OK of
                None \<Rightarrow> None
              | Some (e, pcb, nt) \<Rightarrow>
                  if e = ERR_OK then redeliver n ev cb (pcb\<lparr>refused_data := rest\<rparr>) nt
                  else Some (e, if rest \<noteq> [] then pcb\<lparr>refused_data := pbuf_cat (refused_data pcb) rest\<rparr> else pcb, nt)))"

declare redeliver.simps [simp del]

definition tcp_fasttmr :: "tcp_env \<Rightarrow> tcp_cbs \<Rightarrow> tcp_pcb \<Rightarrow> net \<Rightarrow> (tcp_pcb \<times> net) option" where
  "tcp_fasttmr ev cb pcb nt =
     (if \<not> PCB_IN_ACTIVE_STATE pcb then Some (pcb, nt)
      else do {
        (e, pcb, nt) \<leftarrow> redeliver (length (refused_data pcb)) ev cb pcb nt;
        if e \<noteq> ERR_ABRT \<and> pcb_has pcb TF_ACK_DELAY then do {
          (_, pcb, nt) \<leftarrow> tcp_output ev (tcp_ack_now pcb) nt;
          Some (clear_flag pcb (TF_ACK_DELAY OR TF_ACK_NOW), nt)
        } else Some (pcb, nt)
      })"

section \<open>The slow timer\<close>

text \<open>The left shift of line 709; shifting a negative number or out of the range is undefined.\<close>

definition shift_left :: "int \<Rightarrow> nat \<Rightarrow> int option" where
  "shift_left x k = (if 0 \<le> x \<and> x * 2 ^ k < 2147483648 then Some (x * 2 ^ k) else None)"

text \<open>The retransmission timeout (lines 699-737).  tcp_backoff has 13 elements.\<close>

definition slow_rto :: "tcp_env \<Rightarrow> tcp_pcb \<Rightarrow> net \<Rightarrow> (tcp_pcb \<times> net) option" where
  "slow_rto ev pcb nt = do {
     pcb \<leftarrow> (if get_tcp_state pcb \<noteq> SYN_SENT then
              (if unat (nrtx pcb) < length tcp_backoff then do {
                 r \<leftarrow> shift_left (sa pcb div 8 + sv pcb) (tcp_backoff ! unat (nrtx pcb));
                 Some (pcb\<lparr>rto := max r (minrto pcb)\<rparr>)
               } else None)
            else Some pcb);
     pcb \<leftarrow> cc_cong_signal (pcb\<lparr>rtime := 0\<rparr>) CC_RTO (ucast (tcp_ticks nt));
     tcp_rexmit_rto ev (dctcp_reduce_cwnd_rto pcb) nt
   }"

text \<open>The persist timer and the retransmission timer (lines 679-738).\<close>

definition slow_persist :: "tcp_env \<Rightarrow> tcp_pcb \<Rightarrow> net \<Rightarrow> (tcp_pcb \<times> net) option" where
  "slow_persist ev pcb nt =
     (let pcb = pcb\<lparr>persist_cnt := persist_cnt pcb + 1\<rparr>
      in if unat (persist_backoff pcb) > length tcp_persist_backoff then None
         else if persist_cnt pcb \<ge> tcp_persist_backoff ! (unat (persist_backoff pcb) - 1) then
           (let pcb = pcb\<lparr>persist_cnt := 0\<rparr>;
                pcb = (if persist_backoff pcb < 7 then pcb\<lparr>persist_backoff := persist_backoff pcb + 1\<rparr> else pcb)
            in Some (tcp_keepalive ev pcb nt))
         else Some (pcb, nt))"

definition slow_rexmt :: "tcp_env \<Rightarrow> tcp_pcb \<Rightarrow> net \<Rightarrow> (tcp_pcb \<times> net) option" where
  "slow_rexmt ev pcb nt =
     (if persist_backoff pcb > 0 then slow_persist ev pcb nt
      else (let pcb = (if rtime pcb \<ge> 0 then pcb\<lparr>rtime := s16 (rtime pcb + 1)\<rparr> else pcb)
            in if unacked pcb \<noteq> [] \<and> rtime pcb \<ge> rto pcb then slow_rto ev pcb nt else Some (pcb, nt)))"

text \<open>Giving up after too many retransmissions (lines 668-739): the error, when there is one.\<close>

definition slow_retries :: "tcp_env \<Rightarrow> tcp_pcb \<Rightarrow> net \<Rightarrow> (err option \<times> tcp_pcb \<times> net) option" where
  "slow_retries ev pcb nt =
     (if get_tcp_state pcb = SYN_SENT \<and> nrtx pcb = TCP_SYNMAXRTX then Some (Some ERR_TIMEOUT, pcb, nt)
      else if nrtx pcb = TCP_MAXRTX then Some (Some ERR_ABRT, pcb, nt)
      else map_option (\<lambda>(p, n). (None, p, n)) (slow_rexmt ev pcb nt))"

text \<open>Whether a connection has been idle longer than a number of milliseconds.\<close>

definition idle_for :: "tcp_env \<Rightarrow> tcp_pcb \<Rightarrow> net \<Rightarrow> nat \<Rightarrow> bool option" where
  "idle_for ev pcb nt ms = map_option (\<lambda>t. unat (elapsed pcb nt) > t) (in_ticks ev ms)"

text \<open>The test of one state against its timeout (lines 741-754, 806-824).\<close>

definition slow_timeout :: "tcp_env \<Rightarrow> tcp_pcb \<Rightarrow> net \<Rightarrow> bool \<Rightarrow> nat \<Rightarrow> err option \<Rightarrow> err option option" where
  "slow_timeout ev pcb nt c ms e =
     (if c then map_option (\<lambda>b. if b then Some ERR_ABRT else e) (idle_for ev pcb nt ms) else Some e)"

text \<open>Keepalive (lines 757-792): the flag asks for a reset.\<close>

definition slow_keepalive :: "tcp_env \<Rightarrow> tcp_pcb \<Rightarrow> net \<Rightarrow> err option \<Rightarrow> (err option \<times> bool \<times> tcp_pcb \<times> net) option" where
  "slow_keepalive ev pcb nt e =
     (if so_options pcb AND SOF_KEEPALIVE \<noteq> 0 \<and> (get_tcp_state pcb = ESTABLISHED \<or> get_tcp_state pcb = CLOSE_WAIT) then do {
        dead \<leftarrow> idle_for ev pcb nt (unat (keep_idle pcb) + TCP_MAXIDLE);
        if dead then Some (Some ERR_ABRT, True, pcb, nt)
        else do {
          probe \<leftarrow> idle_for ev pcb nt (unat (keep_idle pcb) + unat (keep_cnt_sent pcb) * TCP_KEEPINTVL_DEFAULT);
          Some (if probe then (let (pcb, nt) = tcp_keepalive ev pcb nt
                               in (e, False, pcb\<lparr>keep_cnt_sent := keep_cnt_sent pcb + 1\<rparr>, nt))
                else (e, False, pcb, nt))
        }
      } else Some (e, False, pcb, nt))"

text \<open>Out-of-sequence data of an inactive connection is dropped (lines 797-804); the product
  is computed unsigned.\<close>

definition slow_ooseq :: "tcp_pcb \<Rightarrow> net \<Rightarrow> tcp_pcb \<times> net" where
  "slow_ooseq pcb nt =
     (if ooseq pcb \<noteq> [] \<and> elapsed pcb nt \<ge> of_int (rto pcb) * TCP_OOSEQ_TIMEOUT
      then (pcb\<lparr>ooseq := []\<rparr>, tcp_segs_free nt (ooseq pcb)) else (pcb, nt))"

text \<open>Removing the connection or polling the application (lines 827-848).\<close>

definition slow_finish :: "tcp_env \<Rightarrow> err option \<Rightarrow> bool \<Rightarrow> tcp_pcb \<Rightarrow> net \<Rightarrow> (tcp_pcb \<times> net) option" where
  "slow_finish ev e reset pcb nt =
     (case e of
        Some err \<Rightarrow>
          (let (pcb, nt) = tcp_pcb_purge pcb nt;
               nt = event_err nt err;
               (pcb, nt) = (if reset then tcp_rst ev pcb nt (snd_nxt pcb) (rcv_nxt pcb) (local_port pcb) (remote_port pcb)
                            else (pcb, nt))
           in Some (set_tcp_state pcb nt CLOSED))
      | None \<Rightarrow>
          (let pcb = pcb\<lparr>polltmr := polltmr pcb + 1\<rparr>
           in if polltmr pcb \<ge> pollinterval pcb then
                (let (err, pcb, nt) = poll_cb ev (pcb\<lparr>polltmr := 0\<rparr>) nt
                 in if err = ERR_OK then map_option snd (tcp_output ev pcb nt) else Some (pcb, nt))
              else Some (pcb, nt)))"

definition slow_active :: "tcp_env \<Rightarrow> tcp_pcb \<Rightarrow> net \<Rightarrow> (tcp_pcb \<times> net) option" where
  "slow_active ev pcb nt = do {
     (e, pcb, nt) \<leftarrow> slow_retries ev pcb nt;
     e \<leftarrow> slow_timeout ev pcb nt (get_tcp_state pcb = FIN_WAIT_2 \<and> pcb_has pcb TF_RXCLOSED) TCP_FIN_WAIT_TIMEOUT e;
     (e, reset, pcb, nt) \<leftarrow> slow_keepalive ev pcb nt e;
     let (pcb, nt) = slow_ooseq pcb nt;
     e \<leftarrow> slow_timeout ev pcb nt (get_tcp_state pcb = SYN_RCVD) TCP_SYN_RCVD_TIMEOUT e;
     e \<leftarrow> slow_timeout ev pcb nt (get_tcp_state pcb = LAST_ACK) (2 * TCP_MSL) e;
     slow_finish ev e reset pcb nt
   }"

definition slow_time_wait :: "tcp_env \<Rightarrow> tcp_pcb \<Rightarrow> net \<Rightarrow> (tcp_pcb \<times> net) option" where
  "slow_time_wait ev pcb nt = do {
     old \<leftarrow> idle_for ev pcb nt (2 * TCP_MSL);
     Some (if old then (let (pcb, nt) = tcp_pcb_purge pcb nt in set_tcp_state pcb nt CLOSED) else (pcb, nt))
   }"

definition tcp_slowtmr :: "tcp_env \<Rightarrow> tcp_pcb \<Rightarrow> net \<Rightarrow> (tcp_pcb \<times> net) option" where
  "tcp_slowtmr ev pcb nt = do {
     (pcb, nt) \<leftarrow> (if PCB_IN_ACTIVE_STATE pcb then slow_active ev pcb nt else Some (pcb, nt));
     if get_tcp_state pcb = TIME_WAIT then slow_time_wait ev pcb nt else Some (pcb, nt)
   }"

definition tcp_tmr :: "tcp_env \<Rightarrow> tcp_cbs \<Rightarrow> tcp_pcb \<Rightarrow> net \<Rightarrow> (tcp_pcb \<times> net) option" where
  "tcp_tmr ev cb pcb nt = do {
     (pcb, nt) \<leftarrow> tcp_fasttmr ev cb pcb nt;
     let pcb = pcb\<lparr>tcp_timer := tcp_timer pcb + 1\<rparr>;
     if tcp_timer pcb AND 1 \<noteq> 0 then tcp_slowtmr ev pcb nt else Some (pcb, nt)
   }"

end
