(* ===== verification/Tcp_In.thy ===== *)
theory Tcp_In
  imports Tcp_Core
begin

text \<open>
  \<^verbatim>\<open>tcp_receive\<close> of \<^verbatim>\<open>src/src/vma/lwip/tcp_in.c\<close>: the processing of an acknowledgement
  (window, SACK blocks, duplicate acknowledgements, round-trip time) and of
  the data of a segment (trimming, delivery in sequence, the queue of
  out-of-sequence segments and the SACK blocks that describe it).  The header
  fields seqno, ackno and wnd of the incoming segment and of the queued ones
  are in host order, as the code has them there.

  A copy of the incoming segment shares its buffers and takes a reference;
  rx_shared is the address of the queued copy, which loses the
  reference when the input is done.
\<close>

record rx =
  rx_pcb :: tcp_pcb
  rx_net :: net
  rx_in :: tcp_in_data
  rx_shared :: "nat option"

definition TF_RESET :: u8 where "TF_RESET = 0x08"
definition TF_CLOSED :: u8 where "TF_CLOSED = 0x10"
definition TF_GOT_FIN :: u8 where "TF_GOT_FIN = 0x20"
definition LWIP_TCP_DUP_ACK_THRESH :: u8 where "LWIP_TCP_DUP_ACK_THRESH = 1"
definition LWIP_TCP_SACK_BLOCK_LEN :: nat where "LWIP_TCP_SACK_BLOCK_LEN = 16"

section \<open>The acknowledgement\<close>

text \<open>Window update (lines 933-964); the flag asks for the persist timer.\<close>

definition update_snd_wnd :: "tcp_pcb \<Rightarrow> tcp_in_data \<Rightarrow> tcp_pcb \<times> bool" where
  "update_snd_wnd pcb d =
     (let wnd = SND_WND_SCALE pcb (ucast (th_wnd (in_tcphdr d)))
      in if TCP_SEQ_LT (snd_wl1 pcb) (in_seqno d) \<or> snd_wl1 pcb = in_seqno d \<and> TCP_SEQ_LT (snd_wl2 pcb) (in_ackno d)
            \<or> snd_wl2 pcb = in_ackno d \<and> wnd > snd_wnd pcb then
           (let pcb = pcb\<lparr>snd_wnd := wnd, snd_wnd_max := (if snd_wnd_max pcb < wnd then wnd else snd_wnd_max pcb),
                           snd_wl1 := in_seqno d, snd_wl2 := in_ackno d\<rparr>
            in if wnd = 0 then (pcb, persist_backoff pcb = 0)
               else (if persist_backoff pcb > 0 then pcb\<lparr>persist_backoff := 0\<rparr> else pcb, False))
         else (pcb, False))"

text \<open>Whether the blocks cover a segment (lines 983-996): le moves to the end of a block that
  covers the start.\<close>

fun sacked :: "sack_block list \<Rightarrow> u32 \<Rightarrow> u32 \<Rightarrow> bool" where
  "sacked [] le re = False"
| "sacked (b # bs) le re =
     (if TCP_SEQ_LEQ (block_le b) le \<and> TCP_SEQ_LEQ re (block_re b) then True
      else sacked bs (if TCP_SEQ_LEQ (block_le b) le then block_re b else le) re)"

definition seg_sacked :: "tcp_in_data \<Rightarrow> tcp_seg \<Rightarrow> bool" where
  "seg_sacked d s = sacked (take (unat (in_sack_block_cnt d)) (in_sack_block d)) (sg_seqno s) (sg_seqno s + ucast (sg_len s))"

text \<open>Selectively acknowledged segments leave the unacknowledged queue (lines 967-1015).\<close>

fun sack_walk :: "tcp_in_data \<Rightarrow> tcp_pcb \<Rightarrow> net \<Rightarrow> tcp_seg list \<Rightarrow> tcp_seg list \<Rightarrow> tcp_pcb \<times> net" where
  "sack_walk d pcb nt done [] = (pcb\<lparr>unacked := done\<rparr>, nt)"
| "sack_walk d pcb nt done (s # ss) =
     (if seg_sacked d s then sack_walk d (pcb\<lparr>snd_queuelen := snd_queuelen pcb - ucast (pbuf_clen (sg_p s))\<rparr>) (tcp_tx_seg_free nt s) done ss
      else sack_walk d pcb nt (done @ [s]) ss)"

definition sack_remove :: "tcp_pcb \<Rightarrow> net \<Rightarrow> tcp_in_data \<Rightarrow> tcp_pcb \<times> net" where
  "sack_remove pcb nt d =
     (if sack_permitted pcb \<noteq> 0 \<and> unacked pcb \<noteq> [] \<and> in_sack_block_cnt d \<noteq> 0
      then sack_walk d pcb nt [] (unacked pcb) else (pcb, nt))"

text \<open>One segment that an acknowledgement frees.\<close>

definition free_acked :: "tcp_pcb \<Rightarrow> tcp_seg \<Rightarrow> tcp_pcb" where
  "free_acked pcb s =
     (let pcb = (if acked pcb \<noteq> 0 \<and> has_flag (sg_tcphdr s) TCP_FIN then pcb\<lparr>acked := acked pcb - 1\<rparr> else pcb)
      in pcb\<lparr>snd_queuelen := snd_queuelen pcb - ucast (pbuf_clen (sg_p s))\<rparr>)"

fun purge_unacked :: "u32 \<Rightarrow> tcp_pcb \<Rightarrow> net \<Rightarrow> tcp_seg list \<Rightarrow> tcp_pcb \<times> net" where
  "purge_unacked ackno pcb nt [] = (pcb\<lparr>unacked := []\<rparr>, nt)"
| "purge_unacked ackno pcb nt (s # ss) =
     (if TCP_SEQ_LEQ (sg_seqno s + TCP_TCPLEN s) ackno then purge_unacked ackno (free_acked pcb s) (tcp_tx_seg_free nt s) ss
      else (pcb\<lparr>unacked := s # ss\<rparr>, nt))"

text \<open>The timers after the queue was purged (lines 1107-1117, 1228-1238).\<close>

definition restart_rtime :: "bool \<Rightarrow> tcp_pcb \<Rightarrow> tcp_pcb" where
  "restart_rtime persist pcb =
     (if unacked pcb = [] then
        (if persist then pcb\<lparr>persist_cnt := 0, persist_backoff := 1, rtime := - 1\<rparr> else pcb\<lparr>rtime := - 1\<rparr>)
      else pcb\<lparr>rtime := 0\<rparr>)"

text \<open>The call \<open>cc_ack_received(pcb, 0)\<close> of line 1066: 0 is none of the codes, so the lwIP module
  does nothing, and CUBIC only what it does for every code but CC_ACK.\<close>

definition cc_ack_zero :: "tcp_pcb \<Rightarrow> u64 \<Rightarrow> tcp_pcb option" where
  "cc_ack_zero pcb ticks =
     (case cc_algo_of pcb of CC_MOD_CUBIC \<Rightarrow> cubic_ack_received pcb CC_DUPACK ticks | _ \<Rightarrow> Some pcb)"

text \<open>A duplicate acknowledgement (lines 1049-1070).\<close>

definition dup_ack :: "tcp_pcb \<Rightarrow> net \<Rightarrow> tcp_pcb option" where
  "dup_ack pcb nt =
     (let pcb = (if dupacks pcb + 1 > dupacks pcb then pcb\<lparr>dupacks := dupacks pcb + 1\<rparr> else pcb)
      in if dupacks pcb > LWIP_TCP_DUP_ACK_THRESH then cc_ack_received pcb CC_DUPACK (ucast (tcp_ticks nt))
         else if dupacks pcb = LWIP_TCP_DUP_ACK_THRESH then do {
           pcb \<leftarrow> tcp_rexmit_fast pcb (ucast (tcp_ticks nt));
           cc_ack_zero pcb (ucast (tcp_ticks nt))
         }
         else Some pcb)"

text \<open>An acknowledgement of nothing new (lines 1039-1119).\<close>

definition old_ack :: "tcp_pcb \<Rightarrow> net \<Rightarrow> tcp_in_data \<Rightarrow> u32 \<Rightarrow> bool \<Rightarrow> (tcp_pcb \<times> net) option" where
  "old_ack pcb nt d right_wnd_edge persist = do {
     let pcb = pcb\<lparr>acked := 0\<rparr>;
     pcb \<leftarrow> (if in_tcplen d = 0 \<and> snd_wl2 pcb + snd_wnd pcb = right_wnd_edge \<and> rtime pcb \<ge> 0 \<and> lastack pcb = in_ackno d
             then dup_ack pcb nt else Some (pcb\<lparr>dupacks := 0\<rparr>));
     let (pcb, nt) = purge_unacked (in_ackno d) pcb nt (unacked pcb);
     Some (restart_rtime persist pcb, nt)
   }"

text \<open>The retransmission timeout from the estimators; the sum is on 32 bits.\<close>

definition base_rto :: "tcp_pcb \<Rightarrow> int option" where
  "base_rto pcb = map_option (\<lambda>x. max x (minrto pcb)) (s32_sum (sa pcb div 8 + sv pcb))"

text \<open>An acknowledgement of new data (lines 1120-1241).\<close>

definition new_ack :: "tcp_pcb \<Rightarrow> net \<Rightarrow> tcp_in_data \<Rightarrow> bool \<Rightarrow> (tcp_pcb \<times> net) option" where
  "new_ack pcb nt d persist = do {
     let now = ucast (tcp_ticks nt);
     pcb \<leftarrow> (if pcb_has pcb TF_INFR then map_option (\<lambda>p. clear_flag p TF_INFR) (cc_post_recovery pcb now) else Some pcb);
     let pcb = pcb\<lparr>nrtx := 0\<rparr>;
     r \<leftarrow> base_rto pcb;
     let n = in_ackno d - lastack pcb;
     let pcb = pcb\<lparr>rto := r, acked := n, snd_buf := snd_buf pcb + n, dupacks := 0, lastack := in_ackno d\<rparr>;
     pcb \<leftarrow> (if ESTABLISHED \<le> get_tcp_state pcb then
              (case dctcp_reduce_cwnd pcb of (pcb, reduced) \<Rightarrow>
                 if reduced then Some pcb else cc_ack_received pcb CC_ACK now)
            else Some pcb);
     let (pcb, nt) = purge_unacked (in_ackno d) pcb nt (unacked pcb);
     Some ((restart_rtime persist pcb)\<lparr>polltmr := 0\<rparr>, nt)
   }"

text \<open>Segments put back on the unsent queue by a retransmission (lines 1298-1325).\<close>

fun purge_unsent :: "u32 \<Rightarrow> tcp_pcb \<Rightarrow> net \<Rightarrow> tcp_seg list \<Rightarrow> tcp_pcb \<times> net" where
  "purge_unsent ackno pcb nt [] = (pcb\<lparr>unsent := []\<rparr>, nt)"
| "purge_unsent ackno pcb nt (s # ss) =
     (if TCP_SEQ_BETWEEN ackno (ntohl (th_seqno (sg_tcphdr s)) + TCP_TCPLEN s) (snd_nxt pcb) then
        (let pcb = (if ss = [] then pcb\<lparr>unsent_oversize := 0\<rparr> else pcb)
         in purge_unsent ackno (free_acked pcb s) (tcp_tx_seg_free nt s) ss)
      else (pcb\<lparr>unsent := s # ss\<rparr>, nt))"

text \<open>Round-trip time estimation (lines 1334-1364).\<close>

definition rtt_sample :: "tcp_pcb \<Rightarrow> net \<Rightarrow> tcp_pcb option" where
  "rtt_sample pcb nt = do {
     let pcb = pcb\<lparr>t_rttupdated := t_rttupdated pcb + 1\<rparr>;
     let m = s16 (uint (tcp_ticks nt - rttest pcb));
     m \<leftarrow> s32_sum (m - sa pcb div 8);
     sa' \<leftarrow> s32_sum (sa pcb + m);
     m \<leftarrow> s32_sum (if m < 0 then - m else m);
     m \<leftarrow> s32_sum (m - sv pcb div 4);
     sv' \<leftarrow> s32_sum (sv pcb + m);
     let pcb = pcb\<lparr>sa := sa', sv := sv'\<rparr>;
     r \<leftarrow> base_rto pcb;
     Some (pcb\<lparr>rto := r, rttest := 0\<rparr>)
   }"

definition rtt_update :: "tcp_pcb \<Rightarrow> net \<Rightarrow> tcp_in_data \<Rightarrow> tcp_pcb option" where
  "rtt_update pcb nt d =
     (if rttest pcb \<noteq> 0 \<and> TCP_SEQ_LT (rtseq pcb) (in_ackno d) then rtt_sample pcb nt else Some pcb)"

text \<open>The whole part for a segment with the ACK flag (lines 930-1365).\<close>

definition receive_ack :: "tcp_env \<Rightarrow> tcp_pcb \<Rightarrow> net \<Rightarrow> tcp_in_data \<Rightarrow> (tcp_pcb \<times> net) option" where
  "receive_ack ev pcb nt d = do {
     let right_wnd_edge = snd_wnd pcb + snd_wl2 pcb;
     let (pcb, persist) = update_snd_wnd pcb d;
     let (pcb, nt) = sack_remove pcb nt d;
     (pcb, nt) \<leftarrow> (if TCP_SEQ_LEQ (in_ackno d) (lastack pcb) then old_ack pcb nt d right_wnd_edge persist
                  else if TCP_SEQ_BETWEEN (in_ackno d) (lastack pcb + 1) (snd_nxt pcb) then new_ack pcb nt d persist
                  else map_option snd (tcp_send_empty_ack ev (pcb\<lparr>acked := 0\<rparr>) nt));
     let (pcb, nt) = purge_unsent (in_ackno d) pcb nt (unsent pcb);
     pcb \<leftarrow> rtt_update pcb nt d;
     Some (pcb, nt)
   }"

section \<open>Data in sequence\<close>

text \<open>Shortening a chain to a length; what is cut off is given back.\<close>

definition trim_chain :: "net \<Rightarrow> pbuf list \<Rightarrow> u16 \<Rightarrow> (pbuf list \<times> net) option" where
  "trim_chain nt ps len = map_option (\<lambda>(k, _). (k, nt\<lparr>nt_pbuf_free := nt_pbuf_free nt @ fst (pbuf_free (drop (length k) ps))\<rparr>))
     (pbuf_realloc ps len)"

text \<open>The walk over buffers that lie before rcv_nxt (lines 1430-1442); the last argument of
  pbuf_header is cut to 16 bits.\<close>

fun skip_front :: "u32 \<Rightarrow> int \<Rightarrow> pbuf list \<Rightarrow> pbuf list option" where
  "skip_front new_tot_len off [] = None"
| "skip_front new_tot_len off (p # ps) =
     (if int (unat (pb_len p)) < off then
        map_option ((#) (p\<lparr>pb_tot_len := new_tot_len, pb_len := 0\<rparr>)) (skip_front new_tot_len (off - int (unat (pb_len p))) ps)
      else Some (fst (pbuf_header p (s16 (- off))) # ps))"

text \<open>Data that was received before is cut off at the front (lines 1402-1466).\<close>

definition trim_front :: "tcp_pcb \<Rightarrow> tcp_in_data \<Rightarrow> (tcp_pcb \<times> tcp_in_data) option" where
  "trim_front pcb d =
     (if TCP_SEQ_BETWEEN (rcv_nxt pcb) (in_seqno d + 1) (in_seqno d + ucast (in_tcplen d) - 1) then do {
        let off = sint (rcv_nxt pcb - in_seqno d);
        let s = in_inseg d;
        p \<leftarrow> (case sg_p s of [] \<Rightarrow> None
             | p # ps \<Rightarrow> if int (unat (pb_len p)) < off
                         then skip_front (ucast (ucast (pb_tot_len p - of_int off) :: u16)) off (p # ps)
                         else Some (fst (pbuf_header p (s16 (- off))) # ps));
        let s = s\<lparr>sg_p := p, sg_len := sg_len s - ucast (rcv_nxt pcb - in_seqno d),
                   sg_tcphdr := (sg_tcphdr s)\<lparr>th_seqno := rcv_nxt pcb\<rparr>\<rparr>;
        Some (pcb, d\<lparr>in_inseg := s, in_seqno := rcv_nxt pcb\<rparr>)
      }
      else Some (if TCP_SEQ_LT (in_seqno d) (rcv_nxt pcb) then tcp_ack_now pcb else pcb, d))"

text \<open>A new length for the incoming segment, one less for a SYN.\<close>

definition set_inseg_len :: "net \<Rightarrow> tcp_in_data \<Rightarrow> u16 \<Rightarrow> (tcp_in_data \<times> net) option" where
  "set_inseg_len nt d len = do {
     let s = in_inseg d;
     let s = s\<lparr>sg_len := (if has_flag (sg_tcphdr s) TCP_SYN then len - 1 else len)\<rparr>;
     (p, nt) \<leftarrow> trim_chain nt (sg_p s) (sg_len s);
     let s = s\<lparr>sg_p := p\<rparr>;
     Some (d\<lparr>in_inseg := s, in_tcplen := ucast (TCP_TCPLEN s)\<rparr>, nt)
   }"

text \<open>The end of the segment is cut off at the right edge of the window (lines 1475-1501).\<close>

definition clear_fin :: "tcp_seg \<Rightarrow> tcp_seg" where
  "clear_fin s = (if has_flag (sg_tcphdr s) TCP_FIN
     then s\<lparr>sg_tcphdr := TCPH_FLAGS_SET (sg_tcphdr s) (TCPH_FLAGS (sg_tcphdr s) AND NOT TCP_FIN)\<rparr> else s)"

definition trim_to_window :: "tcp_pcb \<Rightarrow> net \<Rightarrow> tcp_in_data \<Rightarrow> (tcp_in_data \<times> net) option" where
  "trim_to_window pcb nt d =
     (let d = d\<lparr>in_tcplen := ucast (TCP_TCPLEN (in_inseg d))\<rparr>
      in if ucast (in_tcplen d) > rcv_wnd pcb
         then set_inseg_len nt (d\<lparr>in_inseg := clear_fin (in_inseg d)\<rparr>) (ucast (rcv_wnd pcb))
         else Some (d, nt))"

text \<open>Queued segments that the incoming one covers are dropped (lines 1521-1536), their FIN is
  taken over.\<close>

fun drop_covered :: "tcp_in_data \<Rightarrow> net \<Rightarrow> tcp_seg list \<Rightarrow> tcp_in_data \<times> net \<times> tcp_seg list" where
  "drop_covered d nt [] = (d, nt, [])"
| "drop_covered d nt (n # ns) =
     (if TCP_SEQ_GEQ (in_seqno d + ucast (in_tcplen d)) (th_seqno (sg_tcphdr n) + ucast (sg_len n)) then
        (let d = (if has_flag (sg_tcphdr n) TCP_FIN \<and> \<not> has_flag (sg_tcphdr (in_inseg d)) TCP_SYN then
                    (let s = (in_inseg d)\<lparr>sg_tcphdr := TCPH_SET_FLAG (sg_tcphdr (in_inseg d)) TCP_FIN\<rparr>
                     in d\<lparr>in_inseg := s, in_tcplen := ucast (TCP_TCPLEN s)\<rparr>)
                  else d)
         in drop_covered d (tcp_seg_free nt n) ns)
      else (d, nt, n # ns))"

text \<open>The queue and the incoming segment do not overlap afterwards (lines 1502-1555).\<close>

definition adjust_ooseq :: "tcp_pcb \<Rightarrow> net \<Rightarrow> tcp_in_data \<Rightarrow> (tcp_pcb \<times> net \<times> tcp_in_data) option" where
  "adjust_ooseq pcb nt d =
     (if ooseq pcb = [] then Some (pcb, nt, d)
      else if has_flag (sg_tcphdr (in_inseg d)) TCP_FIN then Some (pcb\<lparr>ooseq := []\<rparr>, tcp_segs_free nt (ooseq pcb), d)
      else (let (d, nt, q) = drop_covered d nt (ooseq pcb)
            in case q of [] \<Rightarrow> Some (pcb\<lparr>ooseq := []\<rparr>, nt, d)
               | n # _ \<Rightarrow>
                   if TCP_SEQ_GT (in_seqno d + ucast (in_tcplen d)) (th_seqno (sg_tcphdr n)) then do {
                     (d, nt) \<leftarrow> set_inseg_len nt d (ucast (th_seqno (sg_tcphdr n) - in_seqno d));
                     Some (pcb\<lparr>ooseq := q\<rparr>, nt, d)
                   }
                   else Some (pcb\<lparr>ooseq := q\<rparr>, nt, d)))"

text \<open>Sequence space that is accepted moves rcv_nxt and closes the window.\<close>

definition advance :: "tcp_pcb \<Rightarrow> u32 \<Rightarrow> u32 \<Rightarrow> tcp_pcb" where
  "advance pcb nxt n = fst (tcp_update_rcv_ann_wnd (pcb\<lparr>rcv_nxt := nxt, rcv_wnd := rcv_wnd pcb - n\<rparr>))"

definition got_fin :: "tcp_in_data \<Rightarrow> tcp_in_data" where
  "got_fin d = d\<lparr>in_recv_flags := in_recv_flags d OR TF_GOT_FIN\<rparr>"

text \<open>The incoming segment goes to the application (lines 1575-1588).\<close>

definition deliver :: "tcp_in_data \<Rightarrow> tcp_in_data option" where
  "deliver d =
     (case sg_p (in_inseg d) of [] \<Rightarrow> None
      | p # _ \<Rightarrow>
          (let d' = (if pb_tot_len p > 0 then d\<lparr>in_recv_data := sg_p (in_inseg d), in_inseg := (in_inseg d)\<lparr>sg_p := []\<rparr>\<rparr> else d)
           in Some (if has_flag (sg_tcphdr (in_inseg d)) TCP_FIN then got_fin d' else d')))"

text \<open>Queued segments that are in sequence now follow it (lines 1589-1622).\<close>

definition take_queued :: "tcp_pcb \<Rightarrow> net \<Rightarrow> tcp_in_data \<Rightarrow> tcp_seg \<Rightarrow> (tcp_pcb \<times> net \<times> tcp_in_data) option" where
  "take_queued pcb nt d c =
     (case sg_p c of [] \<Rightarrow> None
      | p # _ \<Rightarrow>
          (let d = d\<lparr>in_seqno := th_seqno (sg_tcphdr c)\<rparr>;
               pcb = advance pcb (rcv_nxt pcb + TCP_TCPLEN c) (TCP_TCPLEN c);
               d = (if pb_tot_len p > 0
                    then d\<lparr>in_recv_data := (if in_recv_data d \<noteq> [] then pbuf_cat (in_recv_data d) (sg_p c) else sg_p c)\<rparr> else d);
               c' = (if pb_tot_len p > 0 then c\<lparr>sg_p := []\<rparr> else c);
               fin = has_flag (sg_tcphdr c) TCP_FIN;
               d = (if fin then got_fin d else d);
               (pcb, nt) = (if fin \<and> get_tcp_state pcb = ESTABLISHED then set_tcp_state pcb nt CLOSE_WAIT else (pcb, nt))
           in Some (pcb, tcp_seg_free nt c', d)))"

fun drain :: "tcp_pcb \<Rightarrow> net \<Rightarrow> tcp_in_data \<Rightarrow> tcp_seg list \<Rightarrow> (tcp_pcb \<times> net \<times> tcp_in_data) option" where
  "drain pcb nt d [] = Some (pcb\<lparr>ooseq := []\<rparr>, nt, d)"
| "drain pcb nt d (c # cs) =
     (if th_seqno (sg_tcphdr c) = rcv_nxt pcb
      then (case take_queued pcb nt d c of None \<Rightarrow> None | Some (pcb, nt, d) \<Rightarrow> drain pcb nt d cs)
      else Some (pcb\<lparr>ooseq := c # cs\<rparr>, nt, d))"

text \<open>Blocks below rcv_nxt are forgotten (lines 1627-1652).\<close>

fun trim_blocks :: "u32 \<Rightarrow> sack_block list \<Rightarrow> sack_block list" where
  "trim_blocks nxt [] = []"
| "trim_blocks nxt (b # bs) =
     (if TCP_SEQ_LEQ (block_re b) (block_le b) \<or> TCP_SEQ_LEQ (block_re b) nxt then trim_blocks nxt bs
      else (if TCP_SEQ_LEQ (block_le b) nxt \<and> TCP_SEQ_LT nxt (block_re b) then b\<lparr>block_le := nxt\<rparr> else b) # trim_blocks nxt bs)"

definition no_block :: sack_block where
  "no_block = \<lparr>block_le = 0, block_re = 0\<rparr>"

definition trim_sack :: "tcp_pcb \<Rightarrow> tcp_pcb option" where
  "trim_sack pcb =
     (if sack_permitted pcb \<noteq> 0 \<and> rcv_sack_block_cnt pcb \<noteq> 0 then
        (if unat (rcv_sack_block_cnt pcb) > length (rcv_sack_block pcb) then None
         else (let bs = trim_blocks (rcv_nxt pcb) (take (unat (rcv_sack_block_cnt pcb)) (rcv_sack_block pcb))
               in Some (pcb\<lparr>rcv_sack_block := bs @ replicate (LWIP_TCP_SACK_BLOCK_LEN - length bs) no_block,
                           rcv_sack_block_cnt := of_nat (length bs)\<rparr>)))
      else Some pcb)"

text \<open>The segment is the next in sequence (lines 1471-1666).\<close>

definition in_sequence :: "tcp_pcb \<Rightarrow> net \<Rightarrow> tcp_in_data \<Rightarrow> (tcp_pcb \<times> net \<times> tcp_in_data) option" where
  "in_sequence pcb nt d = do {
     (d, nt) \<leftarrow> trim_to_window pcb nt d;
     (pcb, nt, d) \<leftarrow> adjust_ooseq pcb nt d;
     let pcb = advance pcb (in_seqno d + ucast (in_tcplen d)) (ucast (in_tcplen d));
     d \<leftarrow> deliver d;
     (pcb, nt, d) \<leftarrow> drain pcb nt d (ooseq pcb);
     pcb \<leftarrow> trim_sack pcb;
     Some (tcp_ack_now pcb, nt, d)
   }"

section \<open>Data out of sequence\<close>

text \<open>\<open>tcp_oos_insert_segment\<close>: the segments the new one covers go, and its end is cut off where
  the next one begins.\<close>

fun oos_drop :: "u32 \<Rightarrow> net \<Rightarrow> tcp_seg \<Rightarrow> tcp_seg list \<Rightarrow> net \<times> tcp_seg \<times> tcp_seg list" where
  "oos_drop seqno nt c [] = (nt, c, [])"
| "oos_drop seqno nt c (n # ns) =
     (if TCP_SEQ_GEQ (seqno + ucast (sg_len c)) (th_seqno (sg_tcphdr n) + ucast (sg_len n)) then
        oos_drop seqno (tcp_seg_free nt n)
          (if has_flag (sg_tcphdr n) TCP_FIN then c\<lparr>sg_tcphdr := TCPH_SET_FLAG (sg_tcphdr c) TCP_FIN\<rparr> else c) ns
      else (nt, c, n # ns))"

definition trim_seg :: "net \<Rightarrow> tcp_seg \<Rightarrow> u16 \<Rightarrow> (tcp_seg \<times> net) option" where
  "trim_seg nt s len = map_option (\<lambda>(p, nt). (s\<lparr>sg_len := len, sg_p := p\<rparr>, nt)) (trim_chain nt (sg_p s) len)"

definition tcp_oos_insert_segment :: "u32 \<Rightarrow> net \<Rightarrow> tcp_seg \<Rightarrow> tcp_seg list \<Rightarrow> (tcp_seg list \<times> net) option" where
  "tcp_oos_insert_segment seqno nt c ns =
     (if has_flag (sg_tcphdr c) TCP_FIN then Some ([c], tcp_segs_free nt ns)
      else (let (nt, c, ns) = oos_drop seqno nt c ns
            in case ns of [] \<Rightarrow> Some ([c], nt)
               | n # _ \<Rightarrow>
                   if TCP_SEQ_GT (seqno + ucast (sg_len c)) (th_seqno (sg_tcphdr n)) then do {
                     (c, nt) \<leftarrow> trim_seg nt c (ucast (th_seqno (sg_tcphdr n) - seqno));
                     Some (c # ns, nt)
                   }
                   else Some (c # ns, nt)))"

text \<open>A segment is shortened when it reaches beyond a sequence number.\<close>

definition cut_at :: "net \<Rightarrow> tcp_seg \<Rightarrow> u32 \<Rightarrow> (tcp_seg \<times> net) option" where
  "cut_at nt s seqno =
     (if TCP_SEQ_GT (th_seqno (sg_tcphdr s) + ucast (sg_len s)) seqno
      then trim_seg nt s (ucast (seqno - th_seqno (sg_tcphdr s))) else Some (s, nt))"

text \<open>Appending behind the last segment (lines 1860-1898); the test of the right edge is a plain
  comparison.\<close>

definition append_oos ::
    "tcp_env \<Rightarrow> tcp_pcb \<Rightarrow> net \<Rightarrow> tcp_in_data \<Rightarrow> tcp_seg \<Rightarrow> (tcp_seg list \<times> nat option \<times> net \<times> tcp_in_data) option" where
  "append_oos ev pcb nt d n =
     (if has_flag (sg_tcphdr n) TCP_FIN then Some ([n], None, nt, d)
      else case tcp_seg_copy ev nt (in_inseg d) of
        (None, nt) \<Rightarrow> Some ([n], None, nt, d)
      | (Some c, nt) \<Rightarrow> do {
          (n, nt) \<leftarrow> cut_at nt n (in_seqno d);
          if ucast (in_tcplen d) + in_seqno d > rcv_nxt pcb + rcv_wnd pcb then do {
            (c, nt) \<leftarrow> trim_seg nt (clear_fin c) (ucast (rcv_nxt pcb + rcv_wnd pcb - in_seqno d));
            Some ([n, c], Some (sg_addr c), nt, d\<lparr>in_tcplen := ucast (TCP_TCPLEN c)\<rparr>)
          }
          else Some ([n, c], Some (sg_addr c), nt, d)
        })"

text \<open>A copy of the incoming segment in front of the rest of the queue.\<close>

definition insert_copy ::
    "tcp_env \<Rightarrow> net \<Rightarrow> tcp_in_data \<Rightarrow> tcp_seg list \<Rightarrow> (tcp_seg list \<times> nat option \<times> net \<times> tcp_in_data) option" where
  "insert_copy ev nt d q =
     (case tcp_seg_copy ev nt (in_inseg d) of
        (None, nt) \<Rightarrow> Some (q, None, nt, d)
      | (Some c, nt) \<Rightarrow> map_option (\<lambda>(q, nt). (q, Some (sg_addr c), nt, d)) (tcp_oos_insert_segment (in_seqno d) nt c q))"

text \<open>The walk over the queue (lines 1793-1903) with the previous segment; the result is the queue
  from that one on.\<close>

fun oos_walk ::
    "tcp_env \<Rightarrow> tcp_pcb \<Rightarrow> net \<Rightarrow> tcp_in_data \<Rightarrow> tcp_seg option \<Rightarrow> tcp_seg list \<Rightarrow> (tcp_seg list \<times> nat option \<times> net \<times> tcp_in_data) option" where
  "oos_walk ev pcb nt d prev [] = Some (case prev of None \<Rightarrow> [] | Some p \<Rightarrow> [p], None, nt, d)"
| "oos_walk ev pcb nt d prev (n # ns) =
     (let front = (\<lambda>(q, a, nt, d). ((case prev of None \<Rightarrow> [] | Some p \<Rightarrow> [p]) @ q, a, nt, d))
      in if in_seqno d = th_seqno (sg_tcphdr n) then
           (if sg_len (in_inseg d) > sg_len n then map_option front (insert_copy ev nt d (n # ns))
            else Some (front (n # ns, None, nt, d)))
         else if prev = None \<and> TCP_SEQ_LT (in_seqno d) (th_seqno (sg_tcphdr n)) then insert_copy ev nt d (n # ns)
         else case prev of
           Some p \<Rightarrow>
             if TCP_SEQ_BETWEEN (in_seqno d) (th_seqno (sg_tcphdr p) + 1) (th_seqno (sg_tcphdr n) - 1) then (
               case tcp_seg_copy ev nt (in_inseg d) of
                 (None, nt) \<Rightarrow> Some (p # n # ns, None, nt, d)
               | (Some c, nt) \<Rightarrow> do {
                   (p, nt) \<leftarrow> cut_at nt p (in_seqno d);
                   (q, nt) \<leftarrow> tcp_oos_insert_segment (in_seqno d) nt c (n # ns);
                   Some (p # q, Some (sg_addr c), nt, d)
                 })
             else if ns = [] \<and> TCP_SEQ_GT (in_seqno d) (th_seqno (sg_tcphdr n)) then map_option front (append_oos ev pcb nt d n)
             else map_option front (oos_walk ev pcb nt d (Some n) ns)
         | None \<Rightarrow>
             if ns = [] \<and> TCP_SEQ_GT (in_seqno d) (th_seqno (sg_tcphdr n)) then append_oos ev pcb nt d n
             else oos_walk ev pcb nt d (Some n) ns)"

definition oos_queue :: "tcp_env \<Rightarrow> tcp_pcb \<Rightarrow> net \<Rightarrow> tcp_in_data \<Rightarrow> (tcp_seg list \<times> nat option \<times> net \<times> tcp_in_data) option" where
  "oos_queue ev pcb nt d =
     (if ooseq pcb = [] then
        (case tcp_seg_copy ev nt (in_inseg d) of
           (None, nt) \<Rightarrow> Some ([], None, nt, d)
         | (Some c, nt) \<Rightarrow> Some ([c], Some (sg_addr c), nt, d))
      else oos_walk ev pcb nt d None (ooseq pcb))"

text \<open>The SACK blocks from the queue (lines 1907-1925).  The variable incomplete is never set, so
  every segment writes the left edge; the array has 16 elements.\<close>

fun rebuild_sack :: "sack_block list \<Rightarrow> nat \<Rightarrow> tcp_seg list \<Rightarrow> (sack_block list \<times> nat) option" where
  "rebuild_sack bs n [] = Some (bs, n)"
| "rebuild_sack bs n (s # ss) =
     (if n < length bs then
        (let re = th_seqno (sg_tcphdr s) + ucast (sg_len s);
             bs = bs[n := (bs ! n)\<lparr>block_le := th_seqno (sg_tcphdr s)\<rparr>]
         in if (case ss of [] \<Rightarrow> True | t # _ \<Rightarrow> TCP_SEQ_LT re (th_seqno (sg_tcphdr t)))
            then rebuild_sack (bs[n := (bs ! n)\<lparr>block_re := re\<rparr>]) (Suc n) ss
            else rebuild_sack bs n ss)
      else None)"

definition sack_from_ooseq :: "tcp_pcb \<Rightarrow> tcp_pcb option" where
  "sack_from_ooseq pcb =
     (if sack_permitted pcb \<noteq> 0 then do {
        (bs, n) \<leftarrow> rebuild_sack (replicate LWIP_TCP_SACK_BLOCK_LEN no_block) 0 (ooseq pcb);
        Some (pcb\<lparr>rcv_sack_block := bs, rcv_sack_block_cnt := of_nat n\<rparr>)
      }
      else Some (pcb\<lparr>rcv_sack_block_cnt := 0\<rparr>))"

definition out_of_sequence :: "tcp_env \<Rightarrow> tcp_pcb \<Rightarrow> net \<Rightarrow> tcp_in_data \<Rightarrow> (tcp_pcb \<times> net \<times> tcp_in_data \<times> nat option) option" where
  "out_of_sequence ev pcb nt d = do {
     (q, a, nt, d) \<leftarrow> oos_queue ev pcb nt d;
     pcb \<leftarrow> sack_from_ooseq (pcb\<lparr>ooseq := q\<rparr>);
     (_, pcb, nt) \<leftarrow> tcp_send_empty_ack ev pcb nt;
     Some (pcb, nt, d, a)
   }"

text \<open>The data of a segment (lines 1371-1934).\<close>

definition receive_data :: "tcp_env \<Rightarrow> tcp_pcb \<Rightarrow> net \<Rightarrow> tcp_in_data \<Rightarrow> rx option" where
  "receive_data ev pcb nt d =
     (if in_tcplen d > 0 \<and> get_tcp_state pcb < CLOSE_WAIT then do {
        (pcb, d) \<leftarrow> trim_front pcb d;
        if TCP_SEQ_BETWEEN (in_seqno d) (rcv_nxt pcb) (rcv_nxt pcb + rcv_wnd pcb - 1) then
          (if rcv_nxt pcb = in_seqno d then do {
             (pcb, nt, d) \<leftarrow> in_sequence pcb nt d;
             Some \<lparr>rx_pcb = pcb, rx_net = nt, rx_in = d, rx_shared = None\<rparr>
           }
           else do {
             (pcb, nt, d, a) \<leftarrow> out_of_sequence ev pcb nt d;
             Some \<lparr>rx_pcb = pcb, rx_net = nt, rx_in = d, rx_shared = a\<rparr>
           })
        else do {
          (_, pcb, nt) \<leftarrow> tcp_send_empty_ack ev pcb nt;
          Some \<lparr>rx_pcb = pcb, rx_net = nt, rx_in = d, rx_shared = None\<rparr>
        }
      }
      else Some \<lparr>rx_pcb = pcb, rx_net = nt, rx_in = d, rx_shared = None\<rparr>)"

definition tcp_receive :: "tcp_env \<Rightarrow> tcp_pcb \<Rightarrow> net \<Rightarrow> tcp_in_data \<Rightarrow> rx option" where
  "tcp_receive ev pcb nt d = do {
     (pcb, nt) \<leftarrow> (if in_has d TCP_ACK then receive_ack ev pcb nt d else Some (pcb, nt));
     receive_data ev pcb nt d
   }"

end
