(* ===== verification/Tcp_Process.thy ===== *)
theory Tcp_Process
  imports Tcp_In
begin

text \<open>
  The input side of a connection (\<^verbatim>\<open>src/src/vma/lwip/tcp_in.c\<close>): the state machine
  \<open>tcp_process\<close>, segments for listening connections and for connections in TIME_WAIT,
  and \<open>L3_level_tcp_input\<close>, which takes a packet from its IP header on.  None stands for
  undefined behaviour, and for an option parser that does not return.
\<close>

section \<open>The state machine\<close>

definition TCP_EVENT_SENT :: "tcp_cbs \<Rightarrow> tcp_pcb \<Rightarrow> net \<Rightarrow> u32 \<Rightarrow> (err \<times> tcp_pcb \<times> net) option" where
  "TCP_EVENT_SENT cb pcb nt space = (case sent_cb cb of None \<Rightarrow> Some (ERR_OK, pcb, nt) | Some f \<Rightarrow> f pcb nt space)"

definition TCP_EVENT_CONNECTED :: "tcp_cbs \<Rightarrow> tcp_pcb \<Rightarrow> net \<Rightarrow> err \<Rightarrow> (err \<times> tcp_pcb \<times> net) option" where
  "TCP_EVENT_CONNECTED cb pcb nt e = (case connected_cb cb of None \<Rightarrow> Some (ERR_OK, pcb, nt) | Some f \<Rightarrow> f pcb nt e)"

definition TCP_EVENT_ACCEPT :: "tcp_cbs \<Rightarrow> tcp_pcb \<Rightarrow> net \<Rightarrow> err \<Rightarrow> (err \<times> tcp_pcb \<times> net) option" where
  "TCP_EVENT_ACCEPT cb pcb nt e = (case accept_cb cb of None \<Rightarrow> Some (ERR_ARG, pcb, nt) | Some f \<Rightarrow> f pcb nt e)"

definition TCP_EVENT_CLOSED :: "tcp_cbs \<Rightarrow> tcp_pcb \<Rightarrow> net \<Rightarrow> (err \<times> tcp_pcb \<times> net) option" where
  "TCP_EVENT_CLOSED cb pcb nt = (case recv_cb cb of None \<Rightarrow> Some (ERR_OK, pcb, nt) | Some f \<Rightarrow> f pcb nt [] ERR_OK)"

text \<open>The state of the input is lifted to rx; changes of the pcb and the surroundings.\<close>

definition on_rx :: "rx \<Rightarrow> tcp_pcb \<times> net \<Rightarrow> rx" where
  "on_rx r pn = r\<lparr>rx_pcb := fst pn, rx_net := snd pn\<rparr>"

definition rx_fin :: "rx \<Rightarrow> bool" where
  "rx_fin r = (in_recv_flags (rx_in r) AND TF_GOT_FIN \<noteq> 0)"

text \<open>A reset in answer to the incoming segment.\<close>

definition answer_rst :: "tcp_env \<Rightarrow> tcp_pcb \<Rightarrow> net \<Rightarrow> tcp_in_data \<Rightarrow> tcp_pcb \<times> net" where
  "answer_rst ev pcb nt d = tcp_rst ev pcb nt (in_ackno d) (in_seqno d + ucast (in_tcplen d)) (th_dest (in_tcphdr d)) (th_src (in_tcphdr d))"

text \<open>Whether a reset is acceptable (lines 519-531), and what it does.\<close>

definition process_rst :: "tcp_pcb \<Rightarrow> tcp_in_data \<Rightarrow> err \<times> tcp_pcb \<times> tcp_in_data" where
  "process_rst pcb d =
     (let acceptable = (if get_tcp_state pcb = SYN_SENT then in_ackno d = snd_nxt pcb
                        else TCP_SEQ_BETWEEN (in_seqno d) (rcv_nxt pcb) (rcv_nxt pcb + rcv_wnd pcb))
      in if acceptable then (ERR_RST, clear_flag pcb TF_ACK_DELAY, d\<lparr>in_recv_flags := in_recv_flags d OR TF_RESET\<rparr>)
         else (ERR_OK, pcb, d))"

text \<open>SYN_SENT (lines 566-635).\<close>

definition syn_acked :: "tcp_env \<Rightarrow> tcp_pcb \<Rightarrow> net \<Rightarrow> tcp_in_data \<Rightarrow> tcp_seg \<Rightarrow> tcp_seg list \<Rightarrow> (tcp_pcb \<times> net) option" where
  "syn_acked ev pcb nt d rseg rest = do {
     let wnd = SND_WND_SCALE pcb (ucast (th_wnd (in_tcphdr d)));
     let pcb = pcb\<lparr>rcv_nxt := in_seqno d + 1, rcv_ann_right_edge := in_seqno d + 1, lastack := in_ackno d,
                    snd_wnd := wnd, snd_wnd_max := wnd, snd_wl1 := in_seqno d - 1\<rparr>;
     let (pcb, nt) = set_tcp_state pcb nt ESTABLISHED;
     pcb \<leftarrow> update_mss pcb (tcp_eff_send_mss ev (mss pcb));
     pcb \<leftarrow> cc_conn_init (pcb\<lparr>ssthresh := ucast (mss pcb) * 10\<rparr>);
     let pcb = pcb\<lparr>snd_queuelen := snd_queuelen pcb - 1, unacked := rest\<rparr>;
     let pcb = (if rest = [] then pcb\<lparr>rtime := - 1\<rparr> else pcb\<lparr>rtime := 0, nrtx := 0\<rparr>);
     Some (pcb, tcp_tx_seg_free nt rseg)
   }"

definition process_syn_sent :: "tcp_env \<Rightarrow> tcp_cbs \<Rightarrow> tcp_pcb \<Rightarrow> net \<Rightarrow> tcp_in_data \<Rightarrow> (err \<times> tcp_pcb \<times> net) option" where
  "process_syn_sent ev cb pcb nt d =
     (if in_has d TCP_ACK \<and> in_has d TCP_SYN then
        (case unacked pcb of [] \<Rightarrow> None
         | rseg # rest \<Rightarrow>
             if in_ackno d = sg_seqno rseg + 1 then do {
               (pcb, nt) \<leftarrow> syn_acked ev pcb nt d rseg rest;
               (e, pcb, nt) \<leftarrow> TCP_EVENT_CONNECTED cb pcb nt ERR_OK;
               Some (if e = ERR_ABRT then (ERR_ABRT, pcb, nt)
                     else (let pcb = tcp_ack_now pcb
                           in (ERR_OK, if rttest pcb \<noteq> 0 then pcb\<lparr>rttest := 0\<rparr> else pcb, nt)))
             }
             else Some (ERR_OK, answer_rst ev pcb nt d))
      else Some (ERR_OK, if in_has d TCP_ACK then answer_rst ev pcb nt d else (pcb, nt)))"

text \<open>SYN_RCVD (lines 636-684).\<close>

definition process_syn_rcvd :: "tcp_env \<Rightarrow> tcp_cbs \<Rightarrow> tcp_pcb \<Rightarrow> net \<Rightarrow> tcp_in_data \<Rightarrow> (err \<times> rx) option" where
  "process_syn_rcvd ev cb pcb nt d =
     (let same = (\<lambda>(pcb, nt). \<lparr>rx_pcb = pcb, rx_net = nt, rx_in = d, rx_shared = None\<rparr>)
      in if in_has d TCP_ACK then
           (if TCP_SEQ_BETWEEN (in_ackno d) (lastack pcb + 1) (snd_nxt pcb) then do {
              let (pcb, nt) = set_tcp_state pcb nt ESTABLISHED;
              (e, pcb, nt) \<leftarrow> TCP_EVENT_ACCEPT cb pcb nt ERR_OK;
              if e \<noteq> ERR_OK then
                (if e \<noteq> ERR_ABRT then map_option (\<lambda>pn. (ERR_ABRT, same pn)) (tcp_abort ev pcb nt)
                 else Some (ERR_ABRT, same (pcb, nt)))
              else do {
                let old_cwnd = cwnd pcb;
                r \<leftarrow> tcp_receive ev pcb nt d;
                let pcb = rx_pcb r;
                let pcb = (if acked pcb \<noteq> 0 then pcb\<lparr>acked := acked pcb - 1\<rparr> else pcb);
                pcb \<leftarrow> cc_conn_init (pcb\<lparr>cwnd := old_cwnd\<rparr>);
                Some (ERR_OK, on_rx r (if rx_fin r then set_tcp_state (tcp_ack_now pcb) (rx_net r) CLOSE_WAIT else (pcb, rx_net r)))
              }
            }
            else Some (ERR_OK, same (answer_rst ev pcb nt d)))
         else Some (ERR_OK, same (if in_has d TCP_SYN \<and> in_seqno d = rcv_nxt pcb - 1 then tcp_rexmit pcb else pcb, nt)))"

text \<open>The states behind the handshake (lines 685-738); acked is whether the segment
  acknowledges everything that was sent.\<close>

definition all_acked :: "tcp_in_data \<Rightarrow> tcp_pcb \<Rightarrow> bool" where
  "all_acked d pcb = (in_has d TCP_ACK \<and> in_ackno d = snd_nxt pcb)"

definition to_time_wait :: "tcp_pcb \<Rightarrow> net \<Rightarrow> tcp_pcb \<times> net" where
  "to_time_wait pcb nt = (let (pcb, nt) = tcp_pcb_purge pcb nt in set_tcp_state pcb nt TIME_WAIT)"

definition after_receive :: "tcp_state \<Rightarrow> tcp_in_data \<Rightarrow> rx \<Rightarrow> rx" where
  "after_receive s d r =
     (let pcb = rx_pcb r; nt = rx_net r
      in case s of
        ESTABLISHED \<Rightarrow> if rx_fin r then on_rx r (set_tcp_state (tcp_ack_now pcb) nt CLOSE_WAIT) else r
      | CLOSE_WAIT \<Rightarrow> if rx_fin r then on_rx r (set_tcp_state (tcp_ack_now pcb) nt CLOSE_WAIT) else r
      | FIN_WAIT_1 \<Rightarrow>
          if rx_fin r then
            (if all_acked d pcb then on_rx r (to_time_wait (tcp_ack_now pcb) nt)
             else on_rx r (set_tcp_state (tcp_ack_now pcb) nt CLOSING))
          else if all_acked d pcb then on_rx r (set_tcp_state pcb nt FIN_WAIT_2) else r
      | FIN_WAIT_2 \<Rightarrow> if rx_fin r then on_rx r (to_time_wait (tcp_ack_now pcb) nt) else r
      | CLOSING \<Rightarrow> if all_acked d pcb then on_rx r (to_time_wait pcb nt) else r
      | LAST_ACK \<Rightarrow> if all_acked d pcb
                    then r\<lparr>rx_in := (rx_in r)\<lparr>in_recv_flags := in_recv_flags (rx_in r) OR TF_CLOSED\<rparr>\<rparr> else r
      | _ \<Rightarrow> r)"

text \<open>The parser of the options reads the buffer behind the fixed header.  An option area has at
  most 40 bytes and every option but an empty SACK option advances.\<close>

definition parse_options :: "tcp_env \<Rightarrow> u8 list \<Rightarrow> tcp_pcb \<Rightarrow> tcp_in_data \<Rightarrow> (tcp_pcb \<times> tcp_in_data) option" where
  "parse_options ev opts pcb d = (case tcp_parseopt 40 ev opts pcb d of Parsed p d \<Rightarrow> Some (p, d) | _ \<Rightarrow> None)"

text \<open>\<open>tcp_process\<close>; opts is the memory behind the fixed TCP header.\<close>

definition process_state :: "tcp_env \<Rightarrow> tcp_cbs \<Rightarrow> tcp_pcb \<Rightarrow> net \<Rightarrow> tcp_in_data \<Rightarrow> (err \<times> rx) option" where
  "process_state ev cb pcb nt d =
     (if get_tcp_state pcb = SYN_SENT then
        map_option (\<lambda>(e, pcb, nt). (e, \<lparr>rx_pcb = pcb, rx_net = nt, rx_in = d, rx_shared = None\<rparr>)) (process_syn_sent ev cb pcb nt d)
      else if get_tcp_state pcb = SYN_RCVD then process_syn_rcvd ev cb pcb nt d
      else if ESTABLISHED \<le> get_tcp_state pcb \<and> get_tcp_state pcb \<le> LAST_ACK then do {
        r \<leftarrow> tcp_receive ev pcb nt d;
        Some (ERR_OK, after_receive (get_tcp_state pcb) d r)
      }
      else Some (ERR_OK, \<lparr>rx_pcb = pcb, rx_net = nt, rx_in = d, rx_shared = None\<rparr>))"

definition tcp_process :: "tcp_env \<Rightarrow> tcp_cbs \<Rightarrow> u8 list \<Rightarrow> tcp_pcb \<Rightarrow> net \<Rightarrow> tcp_in_data \<Rightarrow> (err \<times> rx) option" where
  "tcp_process ev cb opts pcb nt d =
     (let same = (\<lambda>(e, pcb, d). (e, \<lparr>rx_pcb = pcb, rx_net = nt, rx_in = d, rx_shared = None\<rparr>))
      in if in_has d TCP_RST then Some (same (process_rst pcb d))
         else if in_has d TCP_SYN \<and> get_tcp_state pcb \<noteq> SYN_SENT \<and> get_tcp_state pcb \<noteq> SYN_RCVD
         then Some (same (ERR_OK, tcp_ack_now pcb, d))
         else do {
           let pcb = (if pcb_has pcb TF_RXCLOSED then pcb else pcb\<lparr>tmr := tcp_ticks nt\<rparr>);
           (pcb, d) \<leftarrow> parse_options ev opts (pcb\<lparr>keep_cnt_sent := 0\<rparr>) d;
           process_state ev cb pcb nt d
         })"

section \<open>Listening and TIME_WAIT\<close>

definition SOF_INHERITED :: u8 where "SOF_INHERITED = 0x04 OR SOF_KEEPALIVE OR 0x80"

text \<open>The connection that answers a SYN (lines 402-440); clone is the new control block the socket
  layer gives.\<close>

definition listen_fields :: "tcp_env \<Rightarrow> u8 list \<Rightarrow> tcp_pcb \<Rightarrow> u32 \<Rightarrow> u32 \<Rightarrow> net \<Rightarrow> tcp_in_data \<Rightarrow> tcp_pcb \<Rightarrow> (tcp_pcb \<times> net) option" where
  "listen_fields ev opts pcb src dest nt d npcb = do {
     let npcb = npcb\<lparr>local_ip := dest, local_port := local_port pcb, remote_ip := src, remote_port := th_src (in_tcphdr d)\<rparr>;
     let (npcb, nt) = set_tcp_state npcb nt SYN_RCVD;
     let npcb = npcb\<lparr>rcv_nxt := in_seqno d + 1, rcv_ann_right_edge := in_seqno d + 1,
                      snd_wnd := ucast (th_wnd (in_tcphdr d)), ssthresh := ucast (th_wnd (in_tcphdr d)), snd_wl1 := in_seqno d - 1,
                      so_options := so_options pcb AND SOF_INHERITED, snd_scale := 0, rcv_scale := 0,
                      advtsd_mss := (if lwip_tcp_mss ev > 0 then tcp_eff_send_mss ev (lwip_tcp_mss ev)
                                     else tcp_mss_follow_mtu_with_default ev 536)\<rparr>;
     (npcb, d) \<leftarrow> parse_options ev opts npcb d;
     let w = TCP_WND_SCALED npcb;
     let npcb = npcb\<lparr>rcv_wnd := w, rcv_ann_wnd := w, rcv_wnd_max := w, rcv_wnd_max_desired := w\<rparr>;
     let w = SND_WND_SCALE npcb (ucast (th_wnd (in_tcphdr d)));
     npcb \<leftarrow> update_mss (npcb\<lparr>snd_wnd := w, snd_wnd_max := w, ssthresh := w\<rparr>) (tcp_eff_send_mss ev (mss npcb));
     Some (npcb, nt)
   }"

text \<open>\<open>tcp_listen_input\<close> gives the error and the new connection.  For a segment with the ACK flag
  tcp_rst is called without a control block and returns at once.\<close>

definition tcp_listen_input ::
    "tcp_env \<Rightarrow> tcp_cbs \<Rightarrow> u8 list \<Rightarrow> tcp_pcb \<Rightarrow> u32 \<Rightarrow> u32 \<Rightarrow> net \<Rightarrow> tcp_in_data \<Rightarrow> (err \<times> tcp_pcb option \<times> net) option" where
  "tcp_listen_input ev cb opts pcb src dest nt d =
     (if in_has d TCP_RST \<or> in_has d TCP_FIN \<or> in_has d TCP_ACK \<or> \<not> in_has d TCP_SYN then Some (ERR_OK, None, nt)
      else (let (npcb, nt) = (case clone_conn_cb cb of None \<Rightarrow> (None, nt) | Some f \<Rightarrow> f nt)
            in case npcb of None \<Rightarrow> Some (ERR_MEM, None, nt)
               | Some npcb \<Rightarrow> do {
                   (npcb, nt) \<leftarrow> listen_fields ev opts pcb src dest nt d npcb;
                   (e, npcb, nt) \<leftarrow> (case syn_handled_cb cb of None \<Rightarrow> Some (ERR_ARG, npcb, nt) | Some f \<Rightarrow> f npcb nt);
                   if e \<noteq> ERR_OK then Some (e, Some npcb, nt)
                   else do {
                     (e, npcb, nt) \<leftarrow> tcp_enqueue_flags ev npcb nt (TCP_SYN OR TCP_ACK);
                     if e \<noteq> ERR_OK then map_option (\<lambda>(p, n). (e, Some p, n)) (tcp_abandon ev npcb nt False)
                     else map_option (\<lambda>(e, p, n). (e, Some p, n)) (tcp_output ev npcb nt)
                   }
                 }))"

definition tcp_timewait_input :: "tcp_env \<Rightarrow> tcp_pcb \<Rightarrow> net \<Rightarrow> tcp_in_data \<Rightarrow> (err \<times> tcp_pcb \<times> net) option" where
  "tcp_timewait_input ev pcb nt d =
     (if in_has d TCP_RST then Some (ERR_OK, pcb, nt)
      else if in_has d TCP_SYN \<and> TCP_SEQ_BETWEEN (in_seqno d) (rcv_nxt pcb) (rcv_nxt pcb + rcv_wnd pcb)
      then Some (ERR_OK, answer_rst ev pcb nt d)
      else (let pcb = (if \<not> in_has d TCP_SYN \<and> in_has d TCP_FIN then pcb\<lparr>tmr := tcp_ticks nt\<rparr> else pcb)
            in if in_tcplen d > 0 then tcp_output ev (set_flag pcb TF_ACK_NOW) nt else Some (ERR_OK, pcb, nt)))"

section \<open>A packet\<close>

definition le_half :: "u8 \<Rightarrow> u8 \<Rightarrow> u16" where
  "le_half a b = ucast a OR push_bit 8 (ucast b)"

text \<open>The 20 bytes of a TCP header at an offset, as the fields a little-endian machine loads.\<close>

definition read_tcp_hdr :: "u8 list \<Rightarrow> int \<Rightarrow> tcp_hdr option" where
  "read_tcp_hdr b off = map_option (\<lambda>x.
     \<lparr>th_src = le_half (x ! 0) (x ! 1), th_dest = le_half (x ! 2) (x ! 3),
      th_seqno = le_word (x ! 4) (x ! 5) (x ! 6) (x ! 7), th_ackno = le_word (x ! 8) (x ! 9) (x ! 10) (x ! 11),
      th_hdrlen_rsvd_flags = le_half (x ! 12) (x ! 13), th_wnd = le_half (x ! 14) (x ! 15),
      th_chksum = le_half (x ! 16) (x ! 17), th_urgp = le_half (x ! 18) (x ! 19)\<rparr>) (buf_read b off 20)"

text \<open>The fields of the IP header that are used: header length, TOS, total length, addresses.\<close>

record ip_hdr =
  iph_hl :: nat
  iph_tos :: u8
  iph_len :: u16
  iph_src :: u32
  iph_dest :: u32

definition read_ip_hdr :: "u8 list \<Rightarrow> int \<Rightarrow> ip_hdr option" where
  "read_ip_hdr b off = map_option (\<lambda>x.
     \<lparr>iph_hl = unat (x ! 0 AND 0x0f), iph_tos = x ! 1, iph_len = ntohs (le_half (x ! 2) (x ! 3)),
      iph_src = le_word (x ! 12) (x ! 13) (x ! 14) (x ! 15), iph_dest = le_word (x ! 16) (x ! 17) (x ! 18) (x ! 19)\<rparr>) (buf_read b off 20)"

text \<open>The fields of the header in host order (lines 148-156), and the length in sequence space.\<close>

definition host_hdr :: "tcp_hdr \<Rightarrow> tcp_hdr" where
  "host_hdr h = h\<lparr>th_src := ntohs (th_src h), th_dest := ntohs (th_dest h), th_seqno := ntohl (th_seqno h),
     th_ackno := ntohl (th_ackno h), th_wnd := ntohs (th_wnd h)\<rparr>"

definition input_data :: "tcp_hdr \<Rightarrow> u8 \<Rightarrow> pbuf list \<Rightarrow> tcp_in_data" where
  "input_data h tos_in ps =
     (let fl = TCPH_FLAGS h; tot = (case ps of [] \<Rightarrow> 0 | p # _ \<Rightarrow> pb_tot_len p);
          seg = seg_zero\<lparr>sg_p := ps, sg_len := ucast tot, sg_tcphdr := h, sg_dataptr := (case ps of [] \<Rightarrow> 0 | p # _ \<Rightarrow> pb_off p)\<rparr>
      in \<lparr>in_recv_data = [], in_tcphdr = h, in_tos = tos_in, in_seqno = th_seqno h, in_ackno = th_ackno h, in_inseg = seg,
          in_tcplen = ucast (tot + (if fl AND (TCP_FIN OR TCP_SYN) \<noteq> 0 then 1 else 0)), in_flags = ucast fl,
          in_recv_flags = 0, in_sack_block = replicate 4 no_block, in_sack_block_cnt = 0\<rparr>)"

text \<open>Lines 109-156: the packet is cut to the length the IP header gives, and the two headers are
  removed; None inside is a packet that is too short.\<close>

definition strip_headers :: "net \<Rightarrow> pbuf list \<Rightarrow> ((ip_hdr \<times> tcp_hdr \<times> u8 list \<times> pbuf list) option \<times> net) option" where
  "strip_headers nt ps =
     (case ps of [] \<Rightarrow> None
      | p # _ \<Rightarrow> do {
          ip \<leftarrow> read_ip_hdr (pb_buf p) (pb_off p);
          (ps, nt) \<leftarrow> trim_chain nt ps (iph_len ip);
          (case ps of [] \<Rightarrow> None
           | p # rest \<Rightarrow>
               (let at = pb_off p + int (iph_hl ip * 4);
                    (p1, bad) = pbuf_header p (- int (iph_hl ip * 4));
                    drop_it = (\<lambda>ps. Some (None, nt\<lparr>nt_pbuf_free := nt_pbuf_free nt @ fst (pbuf_free ps)\<rparr>))
                in if bad \<noteq> 0 \<or> pb_tot_len p1 < 20 then drop_it (p1 # rest)
                   else do {
                     h \<leftarrow> read_tcp_hdr (pb_buf p1) at;
                     let (p2, bad) = pbuf_header p1 (- int (unat (TCPH_HDRLEN h) * 4));
                     if bad \<noteq> 0 then drop_it (p2 # rest)
                     else Some (Some (ip, host_hdr h, drop (nat at + 20) (pb_buf p2), p2 # rest), nt)
                   }))
        })"

text \<open>Data goes to the application (lines 253-289); the flag tells that the connection is gone.  A
  round that goes on leaves fewer buffers.\<close>

fun upcall :: "nat \<Rightarrow> tcp_env \<Rightarrow> tcp_cbs \<Rightarrow> rx \<Rightarrow> (bool \<times> rx) option" where
  "upcall fuel ev cb r =
     (let d = rx_in r; pcb = rx_pcb r; nt = rx_net r
      in if in_recv_data d = [] then Some (False, r)
         else case fuel of 0 \<Rightarrow> None
         | Suc n \<Rightarrow>
             if pcb_has pcb TF_RXCLOSED then
               map_option (\<lambda>pn. (True, on_rx r pn))
                 (tcp_abort ev pcb (nt\<lparr>nt_pbuf_free := nt_pbuf_free nt @ fst (pbuf_free (in_recv_data d))\<rparr>))
             else
               (let (front, rest) = pbuf_split_64k (in_recv_data d);
                    front = (if in_has d TCP_PSH then (hd front)\<lparr>pb_flags := pb_flags (hd front) OR 1\<rparr> # tl front else front)
                in case TCP_EVENT_RECV ev cb pcb nt front ERR_OK of None \<Rightarrow> None
                   | Some (e, pcb, nt) \<Rightarrow>
                       if e = ERR_ABRT then Some (True, on_rx r (pcb, nt))
                       else if e \<noteq> ERR_OK then
                         Some (False, on_rx r (pcb\<lparr>refused_data := (if rest \<noteq> [] then pbuf_cat front rest else front)\<rparr>, nt))
                       else upcall n ev cb ((on_rx r (pcb, nt))\<lparr>rx_in := d\<lparr>in_recv_data := rest\<rparr>\<rparr>)))"

declare upcall.simps [simp del]

text \<open>The end of file (lines 292-303).\<close>

definition upcall_fin :: "tcp_cbs \<Rightarrow> rx \<Rightarrow> (bool \<times> rx) option" where
  "upcall_fin cb r =
     (if rx_fin r then do {
        let pcb = rx_pcb r;
        let pcb = (if rcv_wnd pcb \<noteq> rcv_wnd_max pcb then pcb\<lparr>rcv_wnd := rcv_wnd pcb + 1\<rparr> else pcb);
        (e, pcb, nt) \<leftarrow> TCP_EVENT_CLOSED cb pcb (rx_net r);
        Some (e = ERR_ABRT, on_rx r (pcb, nt))
      }
      else Some (False, r))"

text \<open>What follows tcp_process (lines 225-315).\<close>

definition notify :: "tcp_env \<Rightarrow> tcp_cbs \<Rightarrow> rx \<Rightarrow> rx option" where
  "notify ev cb r = do {
     (gone, r) \<leftarrow> (if acked (rx_pcb r) > 0
                   then map_option (\<lambda>(e, pn). (e = ERR_ABRT, on_rx r pn)) (TCP_EVENT_SENT cb (rx_pcb r) (rx_net r) (acked (rx_pcb r)))
                   else Some (False, r));
     if gone then Some r else do {
       (gone, r) \<leftarrow> upcall (length (in_recv_data (rx_in r))) ev cb r;
       if gone then Some r else do {
         (gone, r) \<leftarrow> upcall_fin cb r;
         if gone then Some r
         else map_option (\<lambda>(_, pn). on_rx r pn) (tcp_output ev (rx_pcb r) ((rx_net r)\<lparr>input_busy := False\<rparr>))
       }
     }
   }"

definition finish_input :: "tcp_env \<Rightarrow> tcp_cbs \<Rightarrow> err \<Rightarrow> rx \<Rightarrow> rx option" where
  "finish_input ev cb e r =
     (if e = ERR_ABRT then Some r
      else if in_recv_flags (rx_in r) AND TF_RESET \<noteq> 0
      then map_option (on_rx r) (tcp_pcb_remove ev (rx_pcb r) (event_err (rx_net r) ERR_RST))
      else if in_recv_flags (rx_in r) AND TF_CLOSED \<noteq> 0
      then map_option (on_rx r) (tcp_pcb_remove ev (rx_pcb r) (rx_net r))
      else notify ev cb r)"

text \<open>The reference to the buffers of the packet is given up (lines 318-326): a queued copy of the
  segment keeps the other one.\<close>

definition unshare :: "nat \<Rightarrow> tcp_seg \<Rightarrow> tcp_seg" where
  "unshare a s = (if sg_addr s = a then s\<lparr>sg_p := (case sg_p s of [] \<Rightarrow> [] | p # ps \<Rightarrow> p\<lparr>pb_ref := pb_ref p - 1\<rparr> # ps)\<rparr> else s)"

definition release_input :: "rx \<Rightarrow> tcp_pcb \<times> net" where
  "release_input r =
     (let pcb = rx_pcb r; nt = (rx_net r)\<lparr>input_busy := False\<rparr>; ps = sg_p (in_inseg (rx_in r))
      in case rx_shared r of
           Some a \<Rightarrow>
             if a \<in> set (map sg_addr (ooseq pcb)) then (pcb\<lparr>ooseq := map (unshare a) (ooseq pcb)\<rparr>, nt)
             else (pcb, nt\<lparr>nt_pbuf_free := nt_pbuf_free nt @ fst (pbuf_free ps)\<rparr>)
         | None \<Rightarrow> (pcb, nt\<lparr>nt_pbuf_free := nt_pbuf_free nt @ fst (pbuf_free ps)\<rparr>))"

text \<open>A segment for a connection (lines 163-327).\<close>

definition active_input :: "tcp_env \<Rightarrow> tcp_cbs \<Rightarrow> u8 list \<Rightarrow> tcp_pcb \<Rightarrow> net \<Rightarrow> tcp_in_data \<Rightarrow> (tcp_pcb \<times> net) option" where
  "active_input ev cb opts pcb nt d = do {
     pcb \<leftarrow> tlt_in pcb (in_inseg d) (in_tos d);
     let pcb = dctcp_recv pcb (in_tos d AND 3) (in_tcphdr d);
     (e, pcb, nt) \<leftarrow> redeliver (length (refused_data pcb)) ev cb pcb nt;
     if e \<noteq> ERR_OK then Some (pcb, nt\<lparr>nt_pbuf_free := nt_pbuf_free nt @ fst (pbuf_free (sg_p (in_inseg d)))\<rparr>)
     else do {
       (e, r) \<leftarrow> tcp_process ev cb opts pcb (nt\<lparr>input_busy := True\<rparr>) d;
       r \<leftarrow> finish_input ev cb e r;
       Some (release_input r)
     }
   }"

text \<open>\<open>L3_level_tcp_input\<close> with the control block the socket layer found; the second result is a new
  connection.  Without a control block tcp_rst returns at once.\<close>

definition L3_level_tcp_input ::
    "tcp_env \<Rightarrow> tcp_cbs \<Rightarrow> tcp_pcb option \<Rightarrow> net \<Rightarrow> pbuf list \<Rightarrow> (tcp_pcb option \<times> tcp_pcb option \<times> net) option" where
  "L3_level_tcp_input ev cb conn nt ps = do {
     (pkt, nt) \<leftarrow> strip_headers nt ps;
     case pkt of None \<Rightarrow> Some (conn, None, nt)
     | Some (ip, h, opts, ps) \<Rightarrow> do {
         let d = input_data h (iph_tos ip) ps;
         let free = (\<lambda>nt. nt\<lparr>nt_pbuf_free := nt_pbuf_free nt @ fst (pbuf_free ps)\<rparr>);
         case conn of None \<Rightarrow> Some (None, None, free nt)
         | Some pcb \<Rightarrow>
             if PCB_IN_ACTIVE_STATE pcb then map_option (\<lambda>(p, n). (Some p, None, n)) (active_input ev cb opts pcb nt d)
             else if get_tcp_state pcb = LISTEN then
               map_option (\<lambda>(_, q, n). (Some pcb, q, free n)) (tcp_listen_input ev cb opts pcb (iph_src ip) (iph_dest ip) nt d)
             else if get_tcp_state pcb = TIME_WAIT then
               map_option (\<lambda>(_, p, n). (Some p, None, free n)) (tcp_timewait_input ev pcb nt d)
             else Some (Some pcb, None, free nt)
       }
   }"

end
