(* ===== verification/Tcp_Frame.thy ===== *)
theory Tcp_Frame
  imports Tcp_Output_Ok
begin

text \<open>
  What the output path leaves alone: the state of the connection, the receive
  side, the parameters of congestion control and the timers that only the
  input and timer code writes, and of the surroundings the clock and the
  record of notifications.
\<close>

definition steady :: "tcp_pcb \<Rightarrow> tcp_pcb \<Rightarrow> bool" where
  "steady p q = (private_state q = private_state p \<and> rcv_nxt q = rcv_nxt p \<and> rcv_wnd q = rcv_wnd p
     \<and> rcv_wnd_max q = rcv_wnd_max p \<and> rcv_ann_wnd q = rcv_ann_wnd p \<and> ooseq q = ooseq p \<and> refused_data q = refused_data p
     \<and> mss q = mss p \<and> local_port q = local_port p \<and> remote_port q = remote_port p \<and> so_options q = so_options p
     \<and> iss q = iss p \<and> lastack q = lastack p \<and> cc_algo_of q = cc_algo_of p \<and> cc_data q = cc_data p \<and> cwnd q = cwnd p
     \<and> ssthresh q = ssthresh p \<and> snd_wnd q = snd_wnd p \<and> rto q = rto p \<and> tmr q = tmr p
     \<and> nrtx q = nrtx p \<and> persist_backoff q = persist_backoff p
     \<and> rcv_sack_block q = rcv_sack_block p \<and> rcv_sack_block_cnt q = rcv_sack_block_cnt p
     \<and> flags q AND TF_RXCLOSED = flags p AND TF_RXCLOSED)"

definition calm :: "net \<Rightarrow> net \<Rightarrow> bool" where
  "calm n m = (nt_events m = nt_events n \<and> tcp_ticks m = tcp_ticks n \<and> input_busy m = input_busy n)"

lemma steady_refl [simp]: "steady p p" and steady_trans: "steady p q \<Longrightarrow> steady q r \<Longrightarrow> steady p r"
  by (simp_all add: steady_def)

lemma calm_refl [simp]: "calm n n" and calm_trans: "calm n m \<Longrightarrow> calm m k \<Longrightarrow> calm n k"
  by (simp_all add: calm_def)

lemma steady_upd [simp]:
  "steady p (p\<lparr>snd_nxt := a\<rparr>)" "steady p (p\<lparr>dctcp := b\<rparr>)" "steady p (p\<lparr>tlt := c\<rparr>)" "steady p (p\<lparr>rtime := d\<rparr>)"
  "steady p (p\<lparr>rttest := e, rtseq := f\<rparr>)" "steady p (p\<lparr>rcv_ann_right_edge := e\<rparr>)" "steady p (p\<lparr>ts_lastacksent := e\<rparr>)"
  "steady p (p\<lparr>snd_sml_snt := e\<rparr>)" "steady p (p\<lparr>unsent := us\<rparr>)" "steady p (p\<lparr>unacked := us\<rparr>)"
  "steady p (p\<lparr>unsent_oversize := h\<rparr>)" "steady p (p\<lparr>last_unsent := i\<rparr>)" "steady p (p\<lparr>last_unacked := i\<rparr>)"
  "steady p (p\<lparr>seg_alloc := us\<rparr>)" "steady p (p\<lparr>pbuf_alloc := j\<rparr>)"
  "steady p (p\<lparr>snd_lbb := e, snd_buf := a, snd_queuelen := k\<rparr>)" "steady p (p\<lparr>snd_queuelen := k\<rparr>)" "steady p (p\<lparr>rttest := e\<rparr>)"
  by (simp_all add: steady_def)

lemma steady_flag:
  "f AND TF_RXCLOSED = 0 \<Longrightarrow> steady p (clear_flag p f)" "f AND TF_RXCLOSED = 0 \<Longrightarrow> steady p (set_flag p f)"
proof -
  assume f: "f AND TF_RXCLOSED = 0"
  have "bit (f AND TF_RXCLOSED) n = False" for n by (simp add: f)
  then have "(flags p AND NOT f) AND TF_RXCLOSED = flags p AND TF_RXCLOSED" "(flags p OR f) AND TF_RXCLOSED = flags p AND TF_RXCLOSED"
    by (intro bit_eqI; auto simp: bit_simps)+
  then show "steady p (clear_flag p f)" "steady p (set_flag p f)" by (simp_all add: steady_def clear_flag_def set_flag_def)
qed

lemma steady_flags [simp]:
  "steady p (clear_flag p (TF_ACK_DELAY OR TF_ACK_NOW))" "steady p (clear_flag p TF_NAGLEMEMERR)" "steady p (set_flag p TF_NAGLEMEMERR)"
  "steady p (set_flag p TF_ACK_NOW)" "steady p (set_flag p TF_ACK_DELAY)" "steady p (clear_flag p TF_ACK_DELAY)"
  "steady p (set_flag p TF_FIN)" "steady p (set_flag p TF_INFR)" "steady p (clear_flag p TF_INFR)"
  by (intro steady_flag; simp add: pcb_flag_defs)+

lemma steady_ack_now [simp]: "steady p (tcp_ack_now p)"
  by (simp add: tcp_ack_now_def)

lemma calm_upd [simp]:
  "calm n (m\<lparr>nt_sent := a\<rparr>) = calm n m" "calm n (m\<lparr>nt_segs := b\<rparr>) = calm n m" "calm n (m\<lparr>nt_pbufs := b\<rparr>) = calm n m"
  "calm n (m\<lparr>nt_pbuf_free := c\<rparr>) = calm n m" "calm n (m\<lparr>nt_pbuf_free := c, nt_seg_free := d\<rparr>) = calm n m"
  "calm n (tcp_tx_pbuf_free m ps) = calm n m" "calm n (tcp_tx_seg_free m s) = calm n m"
  "calm n (tcp_tx_segs_free m ss) = calm n m" "calm n (tcp_segs_free m ss) = calm n m" "calm n (ip_output m h ps x y z) = calm n m"
  by (simp_all add: calm_def ip_output_def)

lemma steady_alloc: "same_but_alloc p q \<Longrightarrow> steady p q"
  by (auto simp: same_but_alloc_def steady_def)

subsection \<open>Sending one packet\<close>

lemma tx_alloc_calm: "tcp_tx_pbuf_alloc ev pcb nt len ty = (r, pcb', nt') \<Longrightarrow> steady pcb pcb' \<and> calm nt nt'"
  using tx_pbuf_alloc_frame(1) steady_alloc
  by (auto simp: tcp_tx_pbuf_alloc_def Let_def calm_def split: list.splits option.splits)

lemma prealloc_calm:
  assumes "tcp_pbuf_prealloc ev pcb nt len m a b = (r, pcb', nt')"
  shows "steady pcb pcb' \<and> calm nt nt'"
proof -
  obtain n r' where "tcp_tx_pbuf_alloc ev pcb nt n PBUF_RAM = (r', pcb', nt')"
    using assms by (auto simp: tcp_pbuf_prealloc_def Let_def split: prod.splits option.splits)
  then show ?thesis by (rule tx_alloc_calm)
qed

lemma create_calm:
  assumes "tcp_create_segment ev pcb nt ps fl s f = Some (r, pcb', nt')"
  shows "steady pcb pcb' \<and> calm nt nt'"
proof -
  have "calm nt nt'"
    using assms by (auto simp: tcp_create_segment_def Let_def bind_eq_Some_conv calm_def split: list.splits option.splits if_splits)
  then show ?thesis using create_segment_frame(1) [OF assms] steady_alloc by blast
qed

lemma alloc_header_steady:
  assumes "tcp_output_alloc_header ev pcb nt ol dl sq = (r, pcb', nt')"
  shows "steady pcb pcb' \<and> calm nt nt'"
proof -
  obtain x p1 n1 where a: "tcp_tx_pbuf_alloc ev pcb nt (of_nat (ol + dl)) PBUF_RAM = (x, p1, n1)" by (metis prod_cases3)
  have "nt' = n1 \<and> (pcb' = p1 \<or> pcb' = p1\<lparr>rcv_ann_right_edge := rcv_nxt p1 + rcv_ann_wnd p1\<rparr>)"
    using assms unfolding tcp_output_alloc_header_def a by (auto simp: Let_def split: option.splits)
  then show ?thesis using tx_alloc_calm [OF a] steady_trans [OF _ steady_upd(6)] by blast
qed

lemma dctcp_send_steady: "steady p (fst (dctcp_send_empty p h))" "steady p (fst (dctcp_send p s))"
  by (simp_all add: dctcp_send_def dctcp_send_empty_def Let_def split: prod.splits)

lemma tlt_out_steady: "tlt_out p s = Some (p', s') \<Longrightarrow> steady p p'"
  by (auto simp: tlt_out_def tlt_send_payload_def tlt_send_syn_def tlt_send_ack_def Let_def bind_eq_Some_conv split: if_splits tlt_state.splits)

lemma tlt_out_empty_ack_steady: "steady p (fst (tlt_out_empty_ack p))"
  by (auto simp: tlt_out_empty_ack_def split: tlt_state.splits)

lemma start_timers_steady: "steady p (start_timers p n s)"
  by (simp add: start_timers_def Let_def steady_def)

lemma send_empty_ack_steady:
  assumes "tcp_send_empty_ack ev pcb nt = Some (e, pcb', nt')"
  shows "steady pcb pcb' \<and> calm nt nt'"
proof -
  define ol where "ol = (if sack_permitted pcb \<noteq> 0 then LWIP_TCP_OPT_LENGTH pcb 0
     else if pcb_has pcb TF_TIMESTAMP then LWIP_TCP_OPT_LENGTH pcb TF_SEG_OPTS_TS else 0)"
  obtain x p1 n1 where a: "tcp_output_alloc_header ev pcb nt ol 0 (htonl (snd_nxt pcb)) = (x, p1, n1)" by (metis prod_cases3)
  note k = alloc_header_steady [OF a]
  define p2 where "p2 = (clear_flag p1 (TF_ACK_DELAY OR TF_ACK_NOW))\<lparr>ts_lastacksent := rcv_nxt (clear_flag p1 (TF_ACK_DELAY OR TF_ACK_NOW))\<rparr>"
  have k2: "steady p1 p2" using steady_trans [OF steady_flags(1) steady_upd(7)] by (simp add: p2_def)
  note def = assms [unfolded tcp_send_empty_ack_def Let_def, folded ol_def, unfolded a prod.case, folded p2_def]
  show ?thesis
  proof (cases x)
    case None
    then show ?thesis using def k by simp
  next
    case (Some ph)
    obtain p h where ph: "ph = (p, h)" by (cases ph)
    obtain q where "put_opts p ((if pcb_has p2 TF_TIMESTAMP then tcp_build_timestamp_option p2 (sys_now n1) else []) @
        (if sack_permitted p2 = 0 then [] else if has_flag h TCP_SYN then tcp_build_sack_perm_option else tcp_build_sack_option p2)) = Some q"
      using def Some ph by (auto simp: bind_eq_Some_conv)
    then have r: "pcb' = fst (tlt_out_empty_ack (fst (dctcp_send_empty p2 h)))" "calm n1 nt'"
      using def Some ph by (auto simp: Let_def split: prod.splits)
    show ?thesis
      using k k2 dctcp_send_steady(1) [of p2 h] tlt_out_empty_ack_steady r steady_trans calm_trans by metis
  qed
qed

lemma output_segment_steady:
  assumes "tcp_output_segment ev pcb nt seg = Some (seg', pcb', nt')"
  shows "steady pcb pcb' \<and> calm nt nt'"
proof -
  define p1 where "p1 = (if LWIP_IS_DUMMY_SEGMENT seg then pcb else pcb\<lparr>rcv_ann_right_edge := rcv_nxt pcb + rcv_ann_wnd pcb\<rparr>)"
  define p2 where "p2 = (if LWIP_IS_DUMMY_SEGMENT seg then p1 else p1\<lparr>ts_lastacksent := rcv_nxt p1\<rparr>)"
  have k2: "steady pcb p2" by (simp add: p2_def p1_def steady_def)
  note def = assms [unfolded tcp_output_segment_def Let_def, folded p1_def, folded p2_def]
  define h1 where "h1 = (sg_tcphdr seg)\<lparr>th_ackno := htonl (rcv_nxt pcb), th_wnd := htons
      (if sg_flags seg AND TF_SEG_OPTS_WNDSCALE \<noteq> 0 then TCPWND_MIN16 (rcv_ann_wnd pcb)
       else TCPWND_MIN16 (RCV_WND_SCALE pcb (rcv_ann_wnd pcb)))\<rparr>"
  obtain p ps q where sp: "sg_p seg = p # ps" and q: "put_opts p (segment_options ev p1 (sys_now nt) (sg_flags seg)) = Some q"
    using def by (auto simp: bind_eq_Some_conv split: list.splits)
  define s1 where "s1 = seg\<lparr>sg_tcphdr := h1, sg_p := q # ps, sg_tos := tos p2\<rparr>"
  obtain p3 s2 where d: "dctcp_send p2 s1 = (p3, s2)" by fastforce
  obtain p4 s3 n where t: "tlt_out p3 s2 = Some (p4, s3)" and r: "pcb' = start_timers p4 n s3" "calm nt nt'"
    using def q d by (auto simp: sp bind_eq_Some_conv s1_def h1_def)
  show ?thesis
    using r(2) k2 dctcp_send_steady(2) [of p2 s1] tlt_out_steady [OF t] start_timers_steady [of p4 n s3] steady_trans
    by (metis d fst_conv r(1))
qed

subsection \<open>The loop\<close>

lemma requeue_steady:
  assumes "requeue force p nt s = Some (p', nt')"
  shows "steady p p' \<and> calm nt nt'"
proof -
  have i: "steady q q'" if "insert_unacked q s = Some q'" for q q'
    using that by (auto simp: insert_unacked_def bind_eq_Some_conv steady_def split: if_splits)
  define q where "q = (if TCP_SEQ_LT (snd_nxt p) (sg_seqno s + TCP_TCPLEN s) \<and> \<not> LWIP_IS_DUMMY_SEGMENT s
    then p\<lparr>snd_nxt := sg_seqno s + TCP_TCPLEN s\<rparr> else p)"
  have "steady p q" by (simp add: q_def)
  moreover have "steady q p' \<and> calm nt nt'"
    using assms [unfolded requeue_def Let_def, folded q_def] i by (auto split: if_splits)
  ultimately show ?thesis using steady_trans by blast
qed

lemma output_head_steady:
  assumes "output_head ev force pcb nt seg rest = Some (pcb', nt')"
  shows "steady pcb pcb' \<and> calm nt nt'"
proof -
  define p0 where "p0 = pcb\<lparr>unsent := rest\<rparr>"
  note def = assms [unfolded output_head_def Let_def, folded p0_def]
  obtain pa na where a: "(if LWIP_IS_DUMMY_SEGMENT seg \<and> pcb_has p0 (TF_ACK_DELAY OR TF_ACK_NOW)
      then map_option snd (tcp_send_empty_ack ev p0 nt) else Some (p0, nt)) = Some (pa, na)"
    using def by (auto simp: bind_eq_Some_conv)
  have ka: "steady p0 pa \<and> calm nt na" using a send_empty_ack_steady by (auto split: if_splits)
  obtain sb pb seg' p1 n1 where o: "tcp_output_segment ev pb na sb = Some (seg', p1, n1)" and r: "requeue force p1 n1 seg' = Some (pcb', nt')"
    and kb: "steady pa pb"
    using def a by (auto simp: bind_eq_Some_conv split: if_splits)
  have "steady pcb p0" by (simp add: p0_def)
  then show ?thesis
    using ka kb output_segment_steady [OF o] requeue_steady [OF r] steady_trans calm_trans by metis
qed

lemma move_tail_steady: "steady p (move_tail p s t id)" "steady p (move_tail p s t (\<lambda>p. p\<lparr>unsent_oversize := ov\<rparr>))"
  by (simp_all add: move_tail_def steady_def)

lemma split_first_steady:
  assumes "split_first ev pcb nt s q p0 rest ls = Some (p', nt')"
  shows "steady pcb p' \<and> calm nt nt'"
proof -
  define ol where "ol = LWIP_TCP_OPT_LENGTH pcb (ts_optflags pcb)"
  define lq where "lq = (ucast (pb_len p0) - of_nat (TCP_HLEN + ol) - ls :: u32)"
  note def = assms(1) [unfolded split_first_def Let_def, folded ol_def, folded lq_def]
  obtain x p1 n1 where pre: "tcp_pbuf_prealloc ev pcb nt (ucast (lq + of_nat ol)) (split_mss pcb) False False = (x, p1, n1)"
    by (metis prod_cases3)
  note k1 = prealloc_calm [OF pre]
  show ?thesis
  proof (cases x)
    case None
    then show ?thesis using def k1 by (simp add: pre)
  next
    case (Some po)
    obtain p ov where po: "po = (p, ov)" by (cases po)
    obtain ps sq r p3 where c: "tcp_create_segment ev p1 n1 ps 0 sq (ts_optflags pcb) = Some (r, p3, nt')"
      and e: "p' = (case r of None \<Rightarrow> p3 | Some new \<Rightarrow> split_commit p3 s q p0 ol lq new ov)"
      using def unfolding pre Some po by (auto simp: bind_eq_Some_conv)
    have "steady p3 (split_commit p3 s q p0 ol lq new ov)" for new
      unfolding split_commit_def Let_def by (rule steady_trans [OF _ move_tail_steady(2)]) (simp add: steady_def)
    then have "steady p3 p'" using e by (simp split: option.splits)
    then show ?thesis using k1 create_calm [OF c] steady_trans calm_trans by metis
  qed
qed

lemma split_later_steady:
  assumes "split_later ev pcb nt s q p0 rest ls = Some (p', nt')"
  shows "steady pcb p' \<and> calm nt nt'"
proof -
  define hlen where "hlen = (of_nat (TCP_HLEN + LWIP_TCP_OPT_LENGTH pcb (ts_optflags pcb)) :: u32)"
  note def = assms(1) [unfolded split_later_def Let_def, folded hlen_def]
  show ?thesis
  proof (cases "split_chain hlen ls (ucast (pb_len p0)) p0 rest")
    case None
    then show ?thesis using def by simp
  next
    case (Some abn)
    obtain a b n where abn: "abn = (a, b, n)" by (cases abn)
    obtain r p3 n3 where c: "tcp_create_segment ev pcb nt b 0 (sg_seqno s + n - hlen) (ts_optflags pcb) = Some (r, p3, n3)"
      using def Some abn by (auto simp: bind_eq_Some_conv)
    have "steady p3 p' \<and> nt' = n3"
      using def Some abn c steady_trans [OF steady_upd(9) move_tail_steady(1)] by (auto split: option.splits)
    then show ?thesis using create_calm [OF c] steady_trans by blast
  qed
qed

lemma split_head_steady:
  assumes "split_head ev force wnd pcb nt s = Some (p', nt')"
  shows "steady pcb p' \<and> calm nt nt'"
proof -
  have "steady pcb p' \<and> calm nt nt'" if "tcp_split_segment ev pcb nt wnd = Some (p', nt')"
    using that split_first_steady split_later_steady
    by (auto simp: tcp_split_segment_def Let_def split: list.splits if_splits)
  then show ?thesis using assms by (auto simp: split_head_def split: if_splits)
qed

lemma nagle_pass_steady: "nagle_pass force pcb seg rest = Some p' \<Longrightarrow> steady pcb p'"
  by (auto simp: nagle_pass_def split: if_splits)

lemma output_loop_steady:
  "output_loop n ev force wnd pcb nt = Some (pcb', nt') \<Longrightarrow> steady pcb pcb' \<and> calm nt nt'"
proof (induction n arbitrary: pcb nt)
  case 0
  obtain p1 n1 where "steady pcb p1" "calm nt n1" "(pcb', nt') = (p1, n1)"
    using 0 split_head_steady by (subst (asm) output_loop.simps) (fastforce split: list.splits option.splits if_splits)
  then show ?case by simp
next
  case (Suc n)
  consider "pcb' = pcb" "nt' = nt"
    | s p1 n1 where "split_head ev force wnd pcb nt s = Some (p1, n1)" "pcb' = p1" "nt' = n1"
    | s p1 n1 s1 q1 p2 p3 n3 where "split_head ev force wnd pcb nt s = Some (p1, n1)" "nagle_pass force p1 s1 q1 = Some p2"
      "output_head ev force p2 n1 s1 q1 = Some (p3, n3)" "output_loop n ev force wnd p3 n3 = Some (pcb', nt')"
    using Suc.prems by (subst (asm) output_loop.simps) (auto split: list.splits option.splits if_splits)
  then show ?case
  proof cases
    case 2
    then show ?thesis using split_head_steady by blast
  next
    case 3
    then show ?thesis
      using split_head_steady [OF 3(1)] nagle_pass_steady [OF 3(2)] output_head_steady [OF 3(3)] Suc.IH [OF 3(4)]
      by (meson steady_trans calm_trans)
  qed simp
qed

subsection \<open>The whole function\<close>

lemma force_segment_steady:
  assumes "force_segment ev pcb nt t sq l = Some (f, p', nt')"
  shows "steady pcb p' \<and> calm nt nt'"
proof -
  define len where "len = (ucast (l + of_nat (LWIP_TCP_OPT_LENGTH pcb (ts_optflags pcb))) :: u16)"
  obtain x p1 n1 where pre: "tcp_pbuf_prealloc ev pcb nt len (force_mss pcb) False False = (x, p1, n1)" by (metis prod_cases3)
  have "steady p1 p' \<and> calm n1 nt'"
  proof (cases x)
    case None
    then show ?thesis using assms pre by (simp add: force_segment_def Let_def len_def)
  next
    case (Some po)
    obtain p ov where po: "po = (p, ov)" by (cases po)
    obtain ps sq' fl r p2 n2 where c: "tcp_create_segment ev p1 n1 ps 0 sq' fl = Some (r, p2, n2)" "steady p2 p'" "nt' = n2"
      using assms pre Some po by (auto simp: force_segment_def Let_def len_def bind_eq_Some_conv split: option.splits)
    show ?thesis using c(2,3) create_calm [OF c(1)] steady_trans by blast
  qed
  then show ?thesis using prealloc_calm [OF pre] steady_trans calm_trans by blast
qed

lemma pop_steady: "tlt_uimpq_pop pcb l r = Some (p', x) \<Longrightarrow> steady pcb p'"
  by (auto simp: tlt_uimpq_pop_def bind_eq_Some_conv split: option.splits)

lemma output_force_steady:
  assumes "tcp_output_force ev wnd pcb nt = Some (f, p', nt')"
  shows "steady pcb p' \<and> calm nt nt'"
proof -
  have "p' = pcb \<and> nt' = nt \<or> (\<exists>l r p1 x t sq y. tlt_uimpq_pop pcb l r = Some (p1, x)
      \<and> force_segment ev (p1\<lparr>tlt := y\<rparr>) nt t sq l = Some (f, p', nt'))"
    using assms unfolding tcp_output_force_def Let_def
    by (simp add: bind_eq_Some_conv split: list.splits if_splits option.splits prod.splits) metis+
  then consider "p' = pcb" "nt' = nt"
    | l r p1 x t sq y where "tlt_uimpq_pop pcb l r = Some (p1, x)" "force_segment ev (p1\<lparr>tlt := y\<rparr>) nt t sq l = Some (f, p', nt')"
    by blast
  then show ?thesis
  proof cases
    case 2
    then show ?thesis using pop_steady [OF 2(1)] steady_upd(3) force_segment_steady [OF 2(2)] steady_trans by meson
  qed simp
qed

lemma output_done_steady:
  assumes "output_done ev pcb nt = Some (pcb', nt')"
  shows "steady pcb pcb' \<and> calm nt nt'"
proof -
  define p1 where "p1 = clear_flag (if unsent pcb = [] then pcb\<lparr>unsent_oversize := 0\<rparr> else pcb) TF_NAGLEMEMERR"
  have k1: "steady pcb p1" using steady_trans [OF steady_upd(11) steady_flags(2)] by (simp add: p1_def)
  note def = assms [unfolded output_done_def Let_def, folded p1_def]
  obtain p2 n2 where a: "(if seg_alloc p1 = [] then map_option (\<lambda>(r, pcb, nt). (pcb\<lparr>seg_alloc := (case r of None \<Rightarrow> [] | Some s \<Rightarrow> [s])\<rparr>, nt))
      (tcp_create_segment ev p1 nt [] 0 0 0) else Some (p1, nt)) = Some (p2, n2)"
    using def by (auto simp: bind_eq_Some_conv)
  have k2: "steady p1 p2 \<and> calm nt n2"
    using a create_calm steady_trans [OF _ steady_upd(14)] by (fastforce split: if_splits)
  have "steady p2 pcb' \<and> calm n2 nt'"
    using def a tx_alloc_calm steady_trans [OF _ steady_upd(15)] by (fastforce split: if_splits prod.splits)
  then show ?thesis using k1 k2 steady_trans calm_trans by meson
qed

lemma output_steady:
  assumes "tcp_output ev pcb nt = Some (e, pcb', nt')"
  shows "steady pcb pcb' \<and> calm nt nt'"
proof -
  consider "pcb' = pcb" "nt' = nt" | "tcp_send_empty_ack ev pcb nt = Some (e, pcb', nt')"
    | w f p1 n1 k p2 n2 where "tcp_output_force ev w pcb nt = Some (f, p1, n1)" "output_loop k ev f w p1 n1 = Some (p2, n2)"
      "output_done ev p2 n2 = Some (pcb', nt')"
    using assms by (auto simp: tcp_output_def Let_def bind_eq_Some_conv split: if_splits)
  then show ?thesis
  proof cases
    case 2
    then show ?thesis by (rule send_empty_ack_steady)
  next
    case 3
    show ?thesis
      using output_force_steady [OF 3(1)] output_loop_steady [OF 3(2)] output_done_steady [OF 3(3)] by (meson steady_trans calm_trans)
  qed simp
qed

lemma rexmit_rto_steady:
  assumes "tcp_rexmit_rto ev pcb nt = Some (pcb', nt')"
  shows "steady (pcb\<lparr>nrtx := nrtx pcb'\<rparr>) pcb' \<and> calm nt nt'"
proof (cases "unacked pcb = []")
  case True
  then show ?thesis using assms by (simp add: tcp_rexmit_rto_def)
next
  case False
  define p where "p = pcb\<lparr>unsent := unacked pcb @ unsent pcb, unacked := [], nrtx := nrtx pcb + 1, rttest := 0\<rparr>"
  obtain e where o: "tcp_output ev p nt = Some (e, pcb', nt')" using assms False by (auto simp: tcp_rexmit_rto_def p_def)
  show ?thesis using output_steady [OF o] by (simp add: p_def steady_def)
qed

lemma keepalive_steady: "tcp_keepalive ev pcb nt = (pcb', nt') \<Longrightarrow> steady pcb pcb' \<and> calm nt nt'"
  using alloc_header_steady by (fastforce simp: tcp_keepalive_def split: prod.splits option.splits)

lemma rst_steady:
  assumes "tcp_rst ev pcb nt a b c d = (pcb', nt')"
  shows "steady pcb pcb' \<and> calm nt nt'"
proof -
  obtain x p1 n1 where t: "tcp_tx_pbuf_alloc ev pcb nt 0 PBUF_RAM = (x, p1, n1)" by (metis prod_cases3)
  show ?thesis
    using assms tx_alloc_calm [OF t] by (auto simp: tcp_rst_def t Let_def split: option.splits)
qed

lemma enqueue_flags_steady:
  assumes "tcp_enqueue_flags ev pcb nt fl = Some (e, pcb', nt')"
  shows "steady pcb pcb' \<and> calm nt nt'"
proof (cases "queue_full pcb (snd_queuelen pcb) \<and> fl AND TCP_FIN = 0")
  case True
  then have "pcb' = set_flag pcb TF_NAGLEMEMERR" "nt' = nt" using assms by (auto simp: tcp_enqueue_flags_def)
  then show ?thesis by simp
next
  case False
  define p0 where "p0 = (if fl AND TCP_SYN \<noteq> 0 then pcb\<lparr>sack_permitted := 1\<rparr> else pcb)"
  have k0: "steady pcb p0" by (simp add: p0_def steady_def)
  define l where "l = (of_nat (LWIP_TCP_OPT_LENGTH p0 (enqueue_optflags ev pcb fl)) :: u16)"
  obtain x p1 n1 where t: "tcp_tx_pbuf_alloc ev p0 nt l PBUF_RAM = (x, p1, n1)" by (metis prod_cases3)
  note def = assms [unfolded tcp_enqueue_flags_def Let_def, folded p0_def, folded l_def, unfolded t prod.case]
  have "steady p1 pcb' \<and> calm n1 nt'"
  proof (cases x)
    case None
    then have "pcb' = set_flag p1 TF_NAGLEMEMERR" "nt' = n1" using def False by auto
    then show ?thesis by simp
  next
    case (Some b)
    obtain r p2 n2 where c: "tcp_create_segment ev p1 n1 [b] fl (snd_lbb p1) (enqueue_optflags ev pcb fl) = Some (r, p2, n2)"
      using def False Some by (auto simp: bind_eq_Some_conv)
    have "steady p2 pcb' \<and> nt' = n2"
    proof (cases r)
      case None
      then have "pcb' = set_flag p2 TF_NAGLEMEMERR" "nt' = n2" using def False Some c by auto
      then show ?thesis by simp
    next
      case r: (Some seg)
      define q0 where "q0 = p2\<lparr>unsent := unsent p2 @ [seg], unsent_oversize := 0\<rparr>"
      define q1 where "q1 = (if fl AND TCP_SYN \<noteq> 0 \<or> fl AND TCP_FIN \<noteq> 0 then q0\<lparr>snd_lbb := snd_lbb q0 + 1\<rparr> else q0)"
      define q2 where "q2 = (if fl AND TCP_FIN \<noteq> 0 then set_flag q1 TF_FIN else q1)"
      have "Some (ERR_OK, q2\<lparr>snd_queuelen := snd_queuelen q2 + ucast (pbuf_clen (sg_p seg))\<rparr>, n2) = Some (e, pcb', nt')"
        using def unfolding Some r q2_def q1_def q0_def by (simp only: False if_False option.case c r Option.bind.simps prod.case)
      then have "pcb' = q2\<lparr>snd_queuelen := snd_queuelen q2 + ucast (pbuf_clen (sg_p seg))\<rparr>" "nt' = n2" by blast+
      moreover have "steady p2 q0" "steady q0 q1" "steady q1 q2" by (simp_all add: q0_def q1_def q2_def) (simp_all add: steady_def)
      ultimately show ?thesis using steady_upd(17) steady_trans by metis
    qed
    then show ?thesis using create_calm [OF c] steady_trans by blast
  qed
  then show ?thesis using k0 tx_alloc_calm [OF t] steady_trans calm_trans by meson
qed

lemma send_fin_steady:
  assumes "tcp_send_fin ev pcb nt = Some (e, pcb', nt')"
  shows "steady pcb pcb' \<and> calm nt nt'"
  using assms enqueue_flags_steady steady_trans [OF steady_upd(9) steady_flags(7)]
  by (fastforce simp: tcp_send_fin_def Let_def split: if_splits)

end
