(* ===== verification/Tcp_Core_Ok.thy ===== *)
theory Tcp_Core_Ok
  imports Tcp_Core Tcp_Frame Tcp_Output_Run
begin

text \<open>
  Properties of the connection management: a new control block satisfies the
  invariants of every component, the announced window never takes back a
  promise and never promises more than there is, an aborted connection
  gives back every segment once, TIME_WAIT ends; and a defect of the
  retransmission limit.
\<close>

section \<open>A new control block\<close>

lemma in_ticks_Some: "slow_tmr_interval ev \<noteq> 0 \<Longrightarrow> in_ticks ev n = Some (n div unat (slow_tmr_interval ev))"
  by (simp add: in_ticks_def)

lemma tlt_zero_ok: "tlt p = tlt_zero\<lparr>recv_state := a, send_state := b\<rparr> \<Longrightarrow> tlt_ok p"
  by (auto simp: tlt_ok_def tlt_zero_def qrep_def empty_tseg_def small_blocks_def intro!: exI [of _ "[]"])

text \<open>The control block before and after the call that initialises the congestion control.\<close>

abbreviation pcb_start0 :: "tcp_env \<Rightarrow> u8 \<Rightarrow> tcp_pcb" where
  "pcb_start0 ev pr \<equiv> (let pcb = pcb_zero\<lparr>max_snd_buff := TCP_SND_BUF, prio := pr, snd_buf := TCP_SND_BUF, snd_queuelen := 0,
            snd_scale := 0, rcv_scale := 0\<rparr>
     in UPDATE_PCB_BY_MSS (pcb\<lparr>rcv_wnd := TCP_WND_SCALED pcb, rcv_ann_wnd := TCP_WND_SCALED pcb,
            rcv_wnd_max := TCP_WND_SCALED pcb, rcv_wnd_max_desired := TCP_WND_SCALED pcb,
            tos := 0, ttl := TCP_TTL, advtsd_mss := initial_mss ev\<rparr>) (initial_mss ev))"

definition pcb_start :: "tcp_env \<Rightarrow> nat \<Rightarrow> nat \<Rightarrow> nat \<Rightarrow> u8 \<Rightarrow> tcp_pcb" where
  "pcb_start ev t1 t2 t3 pr = (let pcb = pcb_start0 ev pr
     in pcb\<lparr>max_unsent_len := ucast (max_tcp_snd_queuelen pcb), minrto := int t1, rto := int t2, sa := int t3, sv := 0, rtime := - 1,
                       cc_algo_of := lwip_cc_algo_module ev\<rparr>)"

definition pcb_finish :: "tcp_env \<Rightarrow> u32 \<Rightarrow> tcp_pcb \<Rightarrow> tcp_pcb" where
  "pcb_finish ev ticks pcb = pcb\<lparr>cwnd := 1, iss := 1, snd_wl2 := 1, snd_nxt := 1, lastack := 1, snd_lbb := 1, tmr := ticks,
                       snd_sml_snt := 0, snd_sml_add := 0, polltmr := 0, tcp_timer := 0,
                       keep_idle := TCP_KEEPIDLE_DEFAULT, keep_cnt_sent := 0, quickack := 0,
                       enable_ts_opt := enable_ts_option ev, seg_alloc := [], pbuf_alloc := [],
                       sack_permitted := 0, rcv_sack_block_cnt := 0, snd_sack_block_cnt := 0\<rparr>"

lemma pcb_init_parts:
  assumes "tcp_pcb_init ev ticks pr = Some pcb"
  obtains t1 t2 t3 p1 where "cc_init (pcb_start ev t1 t2 t3 pr) (ucast ticks) (malloc_ok ev) = Some p1"
    "pcb = dctcp_init (tlt_init (pcb_finish ev ticks p1))"
  using assms unfolding tcp_pcb_init_def pcb_start_def pcb_finish_def Let_def bind_eq_Some_conv by auto

text \<open>C16. A control block that was just initialised satisfies what the components ask of it: the queue
  of unimportant bytes is well formed, the DCTCP estimate is in its range, CUBIC can
  be called, the send queues are well formed, the receive window is open and within its maximum, and
  the segment size is positive.\<close>

theorem tcp_pcb_init_wf:
  assumes "tcp_pcb_init ev ticks pr = Some pcb"
  shows "tlt_ok pcb \<and> alpha_ok pcb \<and> sendq_ok pcb \<and> tail_ok pcb \<and> (cc_algo_of pcb = CC_MOD_CUBIC \<longrightarrow> cubic_ok pcb)
    \<and> rcv_wnd pcb = rcv_wnd_max pcb \<and> rcv_ann_wnd pcb \<le> rcv_wnd pcb \<and> 0 < mss pcb \<and> mss pcb \<le> 536
    \<and> get_tcp_state pcb = CLOSED \<and> ooseq pcb = [] \<and> refused_data pcb = [] \<and> rtime pcb = - 1"
proof -
  have m: "0 < initial_mss ev" "initial_mss ev \<le> 536"
    by (auto simp: initial_mss_def word_gt_0 not_less)
  obtain t1 t2 t3 p1 where
      c: "cc_init (pcb_start ev t1 t2 t3 pr) (ucast ticks) (malloc_ok ev) = Some p1"
    and r: "pcb = dctcp_init (tlt_init (pcb_finish ev ticks p1))"
    using assms by (rule pcb_init_parts)
  have c1: "unsent p1 = []" "unacked p1 = []" "last_unacked p1 = None" "mss p1 = initial_mss ev" "private_state p1 = CLOSED"
      "ooseq p1 = []" "refused_data p1 = []" "rtime p1 = - 1" "rcv_wnd p1 = 0xFFFF" "rcv_wnd_max p1 = 0xFFFF" "rcv_ann_wnd p1 = 0xFFFF"
    "cc_algo_of p1 = CC_MOD_CUBIC \<longrightarrow> (\<exists>c. cc_data p1 = Some c \<and> cu_mean_rtt_ticks c = 1)"
    using c by (auto simp: pcb_start_def UPDATE_PCB_BY_MSS_def pcb_zero_def TCP_WND_SCALED_def TCP_WND_def
      cc_init_def cubic_cb_init_def cubic_zero_def split: cc_algo.splits if_splits)
  define q where "q = pcb_finish ev ticks p1"
  have q: "pcb = dctcp_init (tlt_init q)" "unsent q = []" "unacked q = []" "last_unacked q = None" "mss q = initial_mss ev"
      "private_state q = CLOSED" "ooseq q = []" "refused_data q = []" "rtime q = - 1" "rcv_wnd q = 0xFFFF" "rcv_wnd_max q = 0xFFFF"
      "rcv_ann_wnd q = 0xFFFF" "cc_algo_of q = CC_MOD_CUBIC \<longrightarrow> (\<exists>c. cc_data q = Some c \<and> cu_mean_rtt_ticks c = 1)"
    using r c1 by (simp_all add: q_def pcb_finish_def)
  have "tlt_ok pcb" using tlt_zero_ok [of pcb Idle Idle] by (simp add: q(1) dctcp_init_def tlt_init_def)
  moreover have "alpha_ok pcb" by (simp add: q(1) dctcp_init_def alpha_ok_def DCTCP_SCF_def)
  moreover have "cubic_ok pcb" if "cc_algo_of pcb = CC_MOD_CUBIC"
    using that q m by (auto simp: cubic_ok_def dctcp_init_def tlt_init_def)
  ultimately show ?thesis
    using m q by (auto simp: sendq_ok_def tail_ok_def dctcp_init_def tlt_init_def get_tcp_state_def)
qed

theorem tcp_pcb_init_wf_witness:
  "\<exists>pcb. tcp_pcb_init ex_env 7 1 = Some pcb \<and> tlt_ok pcb \<and> sendq_ok pcb \<and> 0 < mss pcb"
proof -
  have e: "case tcp_pcb_init ex_env 7 1 of None \<Rightarrow> False | Some x \<Rightarrow> True" by code_simp
  obtain pcb where "tcp_pcb_init ex_env 7 1 = Some pcb" using e by (cases "tcp_pcb_init ex_env 7 1") simp_all
  with tcp_pcb_init_wf [OF this] show ?thesis by blast
qed

section \<open>The announced window\<close>

text \<open>Seen from a base b, rcv_nxt, the announced right edge and the real one are in one half of the
  sequence space with room for a segment, and the announced edge is not behind the real one.\<close>

definition edge_ok :: "u32 \<Rightarrow> tcp_pcb \<Rightarrow> bool" where
  "edge_ok b pcb = (seq_off b (rcv_nxt pcb) + unat (rcv_wnd pcb) + 65536 < 2147483648
     \<and> seq_off b (rcv_ann_right_edge pcb) \<le> seq_off b (rcv_nxt pcb) + unat (rcv_wnd pcb))"

lemma seq_off_add:
  "seq_off b x + unat n < 4294967296 \<Longrightarrow> seq_off b (x + n) = seq_off b x + unat n"
  unfolding seq_off_def using unat_plus32 [of "x - b" n] by (simp add: algebra_simps)

lemma seq_off_minus:
  assumes "seq_off b y \<le> seq_off b x" shows "unat (x - y) = seq_off b x - seq_off b y"
proof -
  have "x - y = (x - b) - (y - b)" by simp
  then show ?thesis using assms unat_minus32 [of "y - b" "x - b"] unfolding seq_off_def by (simp add: word_le_nat_alt)
qed

lemma update_ann_edge:
  assumes ok: "edge_ok b pcb" and u: "tcp_update_rcv_ann_wnd pcb = (pcb', n)"
  shows "seq_off b (rcv_ann_right_edge pcb) \<le> seq_off b (rcv_nxt pcb) + unat (rcv_ann_wnd pcb') \<and> rcv_ann_wnd pcb' \<le> rcv_wnd pcb
    \<and> pcb' = pcb\<lparr>rcv_ann_wnd := rcv_ann_wnd pcb'\<rparr>
    \<and> (n \<noteq> 0 \<longrightarrow> rcv_ann_wnd pcb' = rcv_wnd pcb \<and> n = rcv_nxt pcb + rcv_wnd pcb - rcv_ann_right_edge pcb)"
proof -
  define m where "m = min (rcv_wnd_max pcb div 2) (ucast (mss pcb) :: u32)"
  have m: "unat m < 65536"
  proof -
    have "m \<le> ucast (mss pcb)" by (simp add: m_def)
    then have "unat m \<le> unat (mss pcb)" by (simp add: word_le_nat_alt)
    then show ?thesis using unat_lt16 [of "mss pcb"] by linarith
  qed
  have o: "seq_off b (rcv_nxt pcb) + unat (rcv_wnd pcb) + 65536 < 2147483648"
    "seq_off b (rcv_ann_right_edge pcb) \<le> seq_off b (rcv_nxt pcb) + unat (rcv_wnd pcb)"
    using ok by (simp_all add: edge_ok_def)
  have e: "seq_off b (rcv_nxt pcb + rcv_wnd pcb) = seq_off b (rcv_nxt pcb) + unat (rcv_wnd pcb)"
    "seq_off b (rcv_ann_right_edge pcb + m) = seq_off b (rcv_ann_right_edge pcb) + unat m"
    using o m by (intro seq_off_add; linarith)+
  have near: "near b (rcv_nxt pcb + rcv_wnd pcb)" "near b (rcv_ann_right_edge pcb + m)" "near b (rcv_nxt pcb)" "near b (rcv_ann_right_edge pcb)"
    using o m e by simp_all
  have c1: "TCP_SEQ_GEQ (rcv_nxt pcb + rcv_wnd pcb) (rcv_ann_right_edge pcb + m)
      = (seq_off b (rcv_ann_right_edge pcb) + unat m \<le> seq_off b (rcv_nxt pcb) + unat (rcv_wnd pcb))"
    using seq_geq_near [OF near(1,2)] e by simp
  have c2: "TCP_SEQ_GT (rcv_nxt pcb) (rcv_ann_right_edge pcb) = (seq_off b (rcv_ann_right_edge pcb) < seq_off b (rcv_nxt pcb))"
    using seq_gt_near [OF near(3,4)] .
  consider "pcb' = pcb\<lparr>rcv_ann_wnd := rcv_wnd pcb\<rparr>" "n = rcv_nxt pcb + rcv_wnd pcb - rcv_ann_right_edge pcb"
    | "TCP_SEQ_GT (rcv_nxt pcb) (rcv_ann_right_edge pcb)" "pcb' = pcb\<lparr>rcv_ann_wnd := 0\<rparr>" "n = 0"
    | "\<not> TCP_SEQ_GT (rcv_nxt pcb) (rcv_ann_right_edge pcb)" "pcb' = pcb\<lparr>rcv_ann_wnd := rcv_ann_right_edge pcb - rcv_nxt pcb\<rparr>" "n = 0"
    using u unfolding tcp_update_rcv_ann_wnd_def Let_def by (metis prod.inject)
  then show ?thesis
  proof cases
    case 1
    then show ?thesis using o by simp
  next
    case 2
    then show ?thesis using c2 by simp
  next
    case 3
    have "unat (rcv_ann_right_edge pcb - rcv_nxt pcb) = seq_off b (rcv_ann_right_edge pcb) - seq_off b (rcv_nxt pcb)"
      using 3(1) c2 by (intro seq_off_minus) simp
    then show ?thesis using 3 c2 o by (simp add: word_le_nat_alt)
  qed
qed

section \<open>Giving up a connection\<close>

lemma send_empty_ack_frees:
  assumes "tcp_send_empty_ack ev pcb nt = Some (e, pcb', nt')"
  shows "nt_seg_free nt' = nt_seg_free nt"
proof -
  define ol where "ol = (if sack_permitted pcb \<noteq> 0 then LWIP_TCP_OPT_LENGTH pcb 0
     else if pcb_has pcb TF_TIMESTAMP then LWIP_TCP_OPT_LENGTH pcb TF_SEG_OPTS_TS else 0)"
  obtain x p1 n1 where a: "tcp_output_alloc_header ev pcb nt ol 0 (htonl (snd_nxt pcb)) = (x, p1, n1)" by (metis prod_cases3)
  obtain x' p1' n1' where b: "tcp_tx_pbuf_alloc ev pcb nt (of_nat (ol + 0)) PBUF_RAM = (x', p1', n1')" by (metis prod_cases3)
  have "n1 = n1'" using a b by (auto simp: tcp_output_alloc_header_def Let_def split: option.splits)
  then have f: "nt_seg_free n1 = nt_seg_free nt" using tx_pbuf_alloc_frame(3) [OF b] by simp
  note def = assms [unfolded tcp_send_empty_ack_def Let_def, folded ol_def, unfolded a prod.case]
  show ?thesis
  proof (cases x)
    case None
    then show ?thesis using def f by simp
  next
    case (Some ph)
    obtain p h where ph: "ph = (p, h)" by (cases ph)
    define pc where "pc = clear_flag p1 (TF_ACK_DELAY OR TF_ACK_NOW)\<lparr>ts_lastacksent := rcv_nxt (clear_flag p1 (TF_ACK_DELAY OR TF_ACK_NOW))\<rparr>"
    obtain pd hd' where d: "dctcp_send_empty pc h = (pd, hd')" by fastforce
    obtain pt tt where t: "tlt_out_empty_ack pd = (pt, tt)" by fastforce
    show ?thesis using def Some ph f by (auto simp: bind_eq_Some_conv ip_output_def d t simp flip: pc_def)
  qed
qed

lemma rst_frees: "tcp_rst ev pcb nt a b c d = (pcb', nt') \<Longrightarrow> nt_seg_free nt' = nt_seg_free nt"
proof -
  assume r: "tcp_rst ev pcb nt a b c d = (pcb', nt')"
  obtain x p1 n1 where t: "tcp_tx_pbuf_alloc ev pcb nt 0 PBUF_RAM = (x, p1, n1)" by (metis prod_cases3)
  show ?thesis
    using r tx_pbuf_alloc_frame(3) [OF t] by (auto simp: tcp_rst_def t Let_def ip_output_def split: option.splits)
qed

lemma rst_queues: "tcp_rst ev pcb nt a b c d = (pcb', nt') \<Longrightarrow> unsent pcb' = unsent pcb \<and> unacked pcb' = unacked pcb"
proof -
  assume r: "tcp_rst ev pcb nt a b c d = (pcb', nt')"
  obtain x p1 n1 where t: "tcp_tx_pbuf_alloc ev pcb nt 0 PBUF_RAM = (x, p1, n1)" by (metis prod_cases3)
  show ?thesis
    using r same_but_alloc_sel(1,2) [OF tx_pbuf_alloc_frame(1) [OF t]] by (auto simp: tcp_rst_def t Let_def split: option.splits)
qed

text \<open>The states a connection can be in between opening and TIME_WAIT.\<close>

lemma active_cases: "PCB_IN_ACTIVE_STATE pcb = (private_state pcb \<notin> {CLOSED, LISTEN, TIME_WAIT})"
  by (cases "private_state pcb") (simp_all add: PCB_IN_ACTIVE_STATE_def get_tcp_state_def less_tcp_state_def)

lemma purge_active:
  assumes "PCB_IN_ACTIVE_STATE pcb"
  shows "\<exists>c. fst (tcp_pcb_purge pcb nt) = pcb\<lparr>refused_data := [], ooseq := [], rtime := - 1, unsent := [], unacked := [],
      unsent_oversize := 0, cc_data := c\<rparr>"
    "nt_seg_free (snd (tcp_pcb_purge pcb nt)) = nt_seg_free nt @ map sg_addr (ooseq pcb @ unsent pcb @ unacked pcb)"
    "calm nt (snd (tcp_pcb_purge pcb nt))"
proof -
  define q where "q = pcb\<lparr>refused_data := [], ooseq := [], rtime := - 1, unsent := [], unacked := [], unsent_oversize := 0\<rparr>"
  have f: "fst (tcp_pcb_purge pcb nt) = cc_destroy q"
    using assms by (simp add: tcp_pcb_purge_def Let_def active_cases get_tcp_state_def q_def)
  have "cc_destroy q = q\<lparr>cc_data := cc_data q\<rparr> \<or> cc_destroy q = q\<lparr>cc_data := None\<rparr>"
    by (cases "cc_algo_of q") (simp_all add: cc_destroy_def cubic_cb_destroy_def)
  then obtain c where "cc_destroy q = q\<lparr>cc_data := c\<rparr>" by blast
  then show "\<exists>c. fst (tcp_pcb_purge pcb nt) = pcb\<lparr>refused_data := [], ooseq := [], rtime := - 1, unsent := [], unacked := [],
      unsent_oversize := 0, cc_data := c\<rparr>"
    unfolding f q_def by simp blast
  show "nt_seg_free (snd (tcp_pcb_purge pcb nt)) = nt_seg_free nt @ map sg_addr (ooseq pcb @ unsent pcb @ unacked pcb)"
    "calm nt (snd (tcp_pcb_purge pcb nt))"
    using assms by (simp_all add: tcp_pcb_purge_def Let_def active_cases get_tcp_state_def)
qed

lemma output_empty:
  assumes "tcp_output ev pcb nt = Some (e, pcb', nt')" "unsent pcb = []" "pcb_has pcb TF_ACK_NOW"
  shows "unsent pcb' = [] \<and> unacked pcb' = unacked pcb \<and> nt_seg_free nt' = nt_seg_free nt"
proof (cases "input_busy nt")
  case True
  then show ?thesis using assms by (simp add: tcp_output_def)
next
  case False
  then have a: "tcp_send_empty_ack ev pcb nt = Some (e, pcb', nt')" using assms by (simp add: tcp_output_def)
  show ?thesis using send_empty_ack_kept [OF a] send_empty_ack_frees [OF a] assms(2) by (simp add: kept_def)
qed

lemma or_and_absorb: "(x OR f) AND f = (f::'a::len word)"
  by (auto simp: bit_eq_iff bit_simps)

lemma remove_active:
  assumes r: "tcp_pcb_remove ev pcb nt = Some (pcb', nt')" and a: "PCB_IN_ACTIVE_STATE pcb"
  shows "private_state pcb' = CLOSED \<and> unsent pcb' = [] \<and> unacked pcb' = [] \<and> ooseq pcb' = [] \<and> refused_data pcb' = []
    \<and> nt_seg_free nt' = nt_seg_free nt @ map sg_addr (ooseq pcb @ unsent pcb @ unacked pcb)
    \<and> nt_events nt' = nt_events nt @ [Ev_state CLOSED]"
proof -
  obtain p1 n1 where p: "tcp_pcb_purge pcb nt = (p1, n1)" by fastforce
  obtain c where p1: "p1 = pcb\<lparr>refused_data := [], ooseq := [], rtime := - 1, unsent := [], unacked := [], unsent_oversize := 0, cc_data := c\<rparr>"
    using purge_active(1) [OF a, of nt] p by auto
  have n1: "nt_seg_free n1 = nt_seg_free nt @ map sg_addr (ooseq pcb @ unsent pcb @ unacked pcb)" "nt_events n1 = nt_events nt"
    using purge_active(2,3) [OF a, of nt] p by (simp_all add: calm_def)
  obtain p2 n2 where q: "(if get_tcp_state p1 \<noteq> TIME_WAIT \<and> get_tcp_state p1 \<noteq> LISTEN \<and> pcb_has p1 TF_ACK_DELAY
      then map_option snd (tcp_output ev (set_flag p1 TF_ACK_NOW) n1) else Some (p1, n1)) = Some (p2, n2)"
    and e: "(pcb', nt') = set_tcp_state p2 n2 CLOSED"
    using r p by (auto simp: tcp_pcb_remove_def Let_def bind_eq_Some_conv)
  have "unsent p2 = [] \<and> unacked p2 = [] \<and> ooseq p2 = [] \<and> refused_data p2 = [] \<and> nt_seg_free n2 = nt_seg_free n1 \<and> nt_events n2 = nt_events n1"
  proof (cases "get_tcp_state p1 \<noteq> TIME_WAIT \<and> get_tcp_state p1 \<noteq> LISTEN \<and> pcb_has p1 TF_ACK_DELAY")
    case True
    then obtain er where o: "tcp_output ev (set_flag p1 TF_ACK_NOW) n1 = Some (er, p2, n2)" using q by auto
    have f: "pcb_has (set_flag p1 TF_ACK_NOW) TF_ACK_NOW" by (simp add: set_flag_def or_and_absorb) (simp add: TF_ACK_NOW_def)
    have "steady (set_flag p1 TF_ACK_NOW) p2 \<and> calm n1 n2" using output_steady [OF o] .
    then show ?thesis using output_empty [OF o _ f] by (simp add: p1 set_flag_def steady_def calm_def)
  next
    case False
    then show ?thesis using q p1 by auto
  qed
  then show ?thesis using e n1 by (simp add: set_tcp_state_def)
qed

text \<open>C27. Aborting a connection closes it, gives back every segment of its three queues exactly once, and
  tells the socket layer.\<close>

theorem tcp_abort_frees:
  assumes "tcp_abort ev pcb nt = Some (pcb', nt')" "PCB_IN_ACTIVE_STATE pcb"
  shows "get_tcp_state pcb' = CLOSED \<and> unsent pcb' = [] \<and> unacked pcb' = [] \<and> ooseq pcb' = [] \<and> refused_data pcb' = []
    \<and> nt_seg_free nt' = nt_seg_free nt @ map sg_addr (ooseq pcb @ unsent pcb @ unacked pcb)
    \<and> nt_events nt' = nt_events nt @ [Ev_state CLOSED, Ev_err ERR_ABRT]"
proof -
  have st: "get_tcp_state pcb \<noteq> TIME_WAIT" "get_tcp_state pcb \<noteq> CLOSED" using assms(2) by (auto simp: active_cases get_tcp_state_def)
  obtain p1 n1 where r: "tcp_pcb_remove ev pcb nt = Some (p1, n1)"
    using assms(1) st by (auto simp: tcp_abort_def tcp_abandon_def Let_def bind_eq_Some_conv)
  note f = remove_active [OF r assms(2)]
  have "tcp_rst ev (p1\<lparr>unacked := [], unsent := []\<rparr>) (event_err n1 ERR_ABRT) (snd_nxt pcb) (rcv_nxt pcb) (local_port pcb) (remote_port pcb) = (pcb', nt')"
    using assms(1) r st f by (simp add: tcp_abort_def tcp_abandon_def Let_def)
  from rst_steady [OF this] rst_frees [OF this] rst_queues [OF this] f show ?thesis
    by (simp add: steady_def calm_def event_err_def get_tcp_state_def)
qed

theorem tcp_abort_frees_witness:
  "\<exists>pcb' nt'. tcp_abort ex_wenv ex_fpcb net_zero = Some (pcb', nt') \<and> nt_seg_free nt' = [2, 1] \<and> get_tcp_state pcb' = CLOSED"
proof -
  have e: "case tcp_abort ex_wenv ex_fpcb net_zero of None \<Rightarrow> False | Some x \<Rightarrow> True" by code_simp
  have a: "PCB_IN_ACTIVE_STATE ex_fpcb" by code_simp
  have q: "nt_seg_free net_zero = []" "map sg_addr (ooseq ex_fpcb @ unsent ex_fpcb @ unacked ex_fpcb) = [2, 1]" by code_simp+
  obtain x where "tcp_abort ex_wenv ex_fpcb net_zero = Some x" using e by (cases "tcp_abort ex_wenv ex_fpcb net_zero") simp_all
  then obtain pcb' nt' where r: "tcp_abort ex_wenv ex_fpcb net_zero = Some (pcb', nt')" by (cases x) simp
  show ?thesis using tcp_abort_frees [OF r a] r q by auto
qed

end
