(* ===== verification/Tcp_Timer_Ok.thy ===== *)
theory Tcp_Timer_Ok
  imports Tcp_Core_Ok
begin

text \<open>
  Properties of the slow timer over runs of several ticks: a connection in
  TIME_WAIT stays there for twice the maximum segment lifetime and is then
  closed; and a defect of the retransmission limit.
\<close>

section \<open>Runs of the slow timer\<close>

text \<open>The timer is called once per tick; the number of ticks is counted before (tcp_tmr).\<close>

fun slow_ticks :: "nat \<Rightarrow> tcp_env \<Rightarrow> tcp_pcb \<Rightarrow> net \<Rightarrow> (tcp_pcb \<times> net) option" where
  "slow_ticks 0 ev pcb nt = Some (pcb, nt)"
| "slow_ticks (Suc n) ev pcb nt = do {
     (pcb, nt) \<leftarrow> tcp_slowtmr ev pcb (nt\<lparr>tcp_ticks := tcp_ticks nt + 1\<rparr>);
     slow_ticks n ev pcb nt
   }"

lemma slow_ticks_add:
  "slow_ticks (m + n) ev pcb nt = Option.bind (slow_ticks m ev pcb nt) (\<lambda>(pcb, nt). slow_ticks n ev pcb nt)"
  by (induction m arbitrary: pcb nt) (auto simp: split_def split: bind_splits)

definition msl2_ticks :: "tcp_env \<Rightarrow> nat" where
  "msl2_ticks ev = 2 * TCP_MSL div unat (slow_tmr_interval ev)"

lemma time_wait_tick:
  assumes "get_tcp_state pcb = TIME_WAIT" "slow_tmr_interval ev \<noteq> 0"
  shows "tcp_slowtmr ev pcb nt =
    Some (if unat (elapsed pcb nt) > msl2_ticks ev then set_tcp_state pcb nt CLOSED else (pcb, nt))"
  using assms
  by (simp add: tcp_slowtmr_def slow_time_wait_def idle_for_def in_ticks_Some msl2_ticks_def tcp_pcb_purge_def
      PCB_IN_ACTIVE_STATE_def less_tcp_state_def)

lemma msl2_small: "msl2_ticks ev \<le> 120000"
  unfolding msl2_ticks_def TCP_MSL_def by (rule order.trans [OF div_le_dividend]) simp

lemma elapsed_tick:
  assumes "unat (elapsed pcb nt) \<le> msl2_ticks ev"
  shows "unat (elapsed pcb (nt\<lparr>tcp_ticks := tcp_ticks nt + 1\<rparr>)) = unat (elapsed pcb nt) + 1"
proof -
  have "elapsed pcb (nt\<lparr>tcp_ticks := tcp_ticks nt + 1\<rparr>) = elapsed pcb nt + 1" by (simp add: elapsed_def)
  then show ?thesis using assms msl2_small [of ev] unat_plus32 [of "elapsed pcb nt" 1] by simp
qed

lemma time_wait_waits:
  assumes "get_tcp_state pcb = TIME_WAIT" "slow_tmr_interval ev \<noteq> 0" "unat (elapsed pcb nt) + k \<le> msl2_ticks ev"
  shows "slow_ticks k ev pcb nt = Some (pcb, nt\<lparr>tcp_ticks := tcp_ticks nt + of_nat k\<rparr>)"
  using assms(3)
proof (induction k arbitrary: nt)
  case 0
  then show ?case by simp
next
  case (Suc k)
  let ?n = "nt\<lparr>tcp_ticks := tcp_ticks nt + 1\<rparr>"
  have e: "unat (elapsed pcb ?n) = unat (elapsed pcb nt) + 1" using Suc.prems by (intro elapsed_tick [of _ _ ev]) simp
  then have "tcp_slowtmr ev pcb ?n = Some (pcb, ?n)" using Suc.prems time_wait_tick [OF assms(1,2), of ?n] by simp
  then show ?case using Suc.IH [of ?n] e Suc.prems by (simp add: algebra_simps)
qed



section \<open>The retransmission limit\<close>

text \<open>C37. The slow timer gives up when the number of retransmissions is exactly TCP_MAXRTX.  A fast
  retransmission also counts, so that the number can step over the limit between two ticks; the
  next timeout then reads the table of back-off shifts behind its end.\<close>

theorem slowtmr_backoff_overflow:
  assumes "PCB_IN_ACTIVE_STATE pcb" "get_tcp_state pcb \<noteq> SYN_SENT" "nrtx pcb = TCP_MAXRTX" "length (unacked pcb) > 1"
    "persist_backoff pcb = 0" "rtime pcb \<ge> 0" "rtime pcb < 32767" "rto pcb \<le> rtime pcb + 1"
  shows "tcp_slowtmr ev (tcp_rexmit pcb) nt = None"
proof -
  obtain seg q where u: "unacked pcb = seg # q" "q \<noteq> []" using assms(4) by (cases "unacked pcb") auto
  define r where "r = tcp_rexmit pcb"
  have r: "private_state r = private_state pcb" "nrtx r = 13" "unacked r = q" "persist_backoff r = 0" "rtime r = rtime pcb" "rto r = rto pcb"
    using u assms by (simp_all add: r_def tcp_rexmit_def Let_def TCP_MAXRTX_def)
  have t: "s16 (rtime pcb + 1) = rtime pcb + 1" using assms by (intro s16_id) simp_all
  have "slow_rexmt ev r nt = None"
    using r t u assms by (simp add: slow_rexmt_def slow_rto_def get_tcp_state_def tcp_backoff_def)
  then show ?thesis
    using r assms(1,2) unfolding r_def [symmetric]
    by (simp add: tcp_slowtmr_def slow_active_def slow_retries_def get_tcp_state_def active_cases TCP_MAXRTX_def)
qed

definition ex_limit_pcb :: tcp_pcb where
  "ex_limit_pcb = ex_fpcb\<lparr>nrtx := 12, unacked := [ex_oseg 1 100 [1, 2], ex_oseg 2 102 [3, 4]], unsent := [], rtime := 5, rto := 3\<rparr>"

theorem slowtmr_backoff_overflow_witness:
  "tcp_slowtmr ex_wenv (tcp_rexmit ex_limit_pcb) net_zero = None"
  by (rule slowtmr_backoff_overflow)
    (simp_all add: active_cases get_tcp_state_def ex_limit_pcb_def ex_fpcb_def pcb_zero_def TCP_MAXRTX_def)

end
