(* ===== verification/Tcp_Reass.thy ===== *)
theory Tcp_Reass
  imports Tcp_Core_Ok Tcp_In
begin

text \<open>
  Reassembly.  The peer sends a stream of L bytes, followed by a FIN; src is
  the stream, and b the sequence number of its first byte.  A segment carries
  the stream when its bytes are those of the stream at its sequence number.
  Whatever order, overlap or repetition segments arrive in, what
  \<^verbatim>\<open>tcp_receive\<close> hands to the application is the stream between the old and
  the new rcv_nxt, and the queue of out-of-sequence segments carries the
  stream.
\<close>

section \<open>Segments that carry a stream\<close>

abbreviation fin :: "tcp_seg \<Rightarrow> bool" where
  "fin s \<equiv> has_flag (sg_tcphdr s) TCP_FIN"

definition seg_off :: "u32 \<Rightarrow> tcp_seg \<Rightarrow> nat" where
  "seg_off b s = seq_off b (th_seqno (sg_tcphdr s))"

definition seg_end :: "u32 \<Rightarrow> tcp_seg \<Rightarrow> nat" where
  "seg_end b s = seg_off b s + unat (sg_len s)"

definition seg_lim :: "u32 \<Rightarrow> tcp_seg \<Rightarrow> nat" where
  "seg_lim b s = seg_end b s + (if fin s then 1 else 0)"

definition carries :: "u32 \<Rightarrow> (nat \<Rightarrow> u8) \<Rightarrow> nat \<Rightarrow> tcp_seg \<Rightarrow> bool" where
  "carries b src L s = (sg_p s \<noteq> [] \<and> chain_ok (sg_p s) \<and> \<not> has_flag (sg_tcphdr s) TCP_SYN \<and> seg_end b s \<le> L
     \<and> (fin s \<longrightarrow> seg_end b s = L) \<and> chain_data (sg_p s) = map src [seg_off b s ..< seg_end b s])"

text \<open>The queue: in order, without overlap, and nothing behind a FIN.\<close>

fun oos_ok :: "u32 \<Rightarrow> (nat \<Rightarrow> u8) \<Rightarrow> nat \<Rightarrow> nat \<Rightarrow> tcp_seg list \<Rightarrow> bool" where
  "oos_ok b src L lo [] = True"
| "oos_ok b src L lo (s # ss) = (carries b src L s \<and> lo \<le> seg_off b s \<and> seg_off b s < seg_lim b s
     \<and> (fin s \<longrightarrow> ss = []) \<and> oos_ok b src L (seg_end b s) ss)"

definition stream_len :: "nat \<Rightarrow> bool" where
  "stream_len L = (L + 131072 < 2147483648)"

lemma carries_tot: "carries b src L s \<Longrightarrow> tot (sg_p s) = unat (sg_len s)"
  using length_chain_data [of "sg_p s"] by (simp add: carries_def seg_end_def)

lemma carries_le: "carries b src L s \<Longrightarrow> seg_off b s \<le> L \<and> seg_end b s \<le> L \<and> seg_lim b s \<le> L + 1"
  by (auto simp: carries_def seg_end_def seg_lim_def)

lemma flags_fin_syn: "(TCPH_FLAGS h AND (TCP_FIN OR TCP_SYN) \<noteq> 0) = (has_flag h TCP_FIN \<or> has_flag h TCP_SYN)"
  by (auto simp: has_flag_def bit_eq_iff bit_simps)

lemma tcplen_off:
  assumes "\<not> has_flag (sg_tcphdr s) TCP_SYN"
  shows "unat (TCP_TCPLEN s) = seg_lim b s - seg_off b s" "unat (TCP_TCPLEN s) \<le> 65536"
proof -
  have l: "unat (sg_len s) < 65536" using unat_lt16 [of "sg_len s"] .
  then have k: "unat (sg_len s) + 1 < 4294967296" by linarith
  have "unat (ucast (sg_len s) + 1 :: u32) = unat (ucast (sg_len s) :: u32) + unat (1 :: u32)"
    by (rule unat_plus32) (use k in simp)
  then have "unat (TCP_TCPLEN s) = unat (sg_len s) + (if fin s then 1 else 0)"
    using assms by (simp add: TCP_TCPLEN_def flags_fin_syn)
  moreover have "unat (sg_len s) \<le> 65535" using l by linarith
  ultimately show "unat (TCP_TCPLEN s) = seg_lim b s - seg_off b s" "unat (TCP_TCPLEN s) \<le> 65536"
    by (simp_all add: seg_lim_def seg_end_def)
qed

lemma off_end:
  assumes "carries b src L s" "stream_len L"
  shows "seq_off b (th_seqno (sg_tcphdr s) + ucast (sg_len s)) = seg_end b s"
  using assms carries_le [OF assms(1)] seq_off_add [of b "th_seqno (sg_tcphdr s)" "ucast (sg_len s)"]
  by (simp add: seg_end_def seg_off_def stream_len_def)

lemma near_stream: "stream_len L \<Longrightarrow> n \<le> L + 131071 \<Longrightarrow> n < 2147483648"
  by (simp add: stream_len_def)

section \<open>Shortening\<close>

lemma trim_chain_ok:
  assumes "chain_ok ps" "ps \<noteq> []"
  shows "\<exists>k f. trim_chain nt ps len = Some (k, nt\<lparr>nt_pbuf_free := f\<rparr>) \<and> k \<noteq> [] \<and> chain_ok k
    \<and> chain_data k = take (unat len) (chain_data ps)"
proof -
  obtain p qs where ps: "ps = p # qs" using assms(2) by (cases ps) auto
  show ?thesis using realloc_ok [of p qs len] assms(1) by (auto simp: trim_chain_def ps)
qed

lemma take_stream: "n \<le> m \<Longrightarrow> take n (map src [o' ..< o' + m]) = map src [o' ..< o' + n]"
  by (simp add: take_map)

text \<open>A segment shortened to a length that is not longer: it still carries the stream, unless it has a
  FIN.\<close>

lemma carries_short:
  assumes c: "carries b src L s" and "unat len \<le> unat (sg_len s)" "fin s \<longrightarrow> len = sg_len s"
    "k \<noteq> []" "chain_ok k" "chain_data k = take (unat len) (chain_data (sg_p s))"
  shows "carries b src L (s\<lparr>sg_len := len, sg_p := k\<rparr>)"
  using assms take_stream [of "unat len" "unat (sg_len s)" src "seg_off b s"]
  by (auto simp: carries_def seg_end_def seg_off_def)

lemma trim_seg_ok:
  assumes "carries b src L s" "unat len \<le> unat (sg_len s)" "fin s \<longrightarrow> len = sg_len s"
  obtains k f where "trim_seg nt s len = Some (s\<lparr>sg_len := len, sg_p := k\<rparr>, nt\<lparr>nt_pbuf_free := f\<rparr>)"
    "carries b src L (s\<lparr>sg_len := len, sg_p := k\<rparr>)"
proof -
  have "chain_ok (sg_p s)" "sg_p s \<noteq> []" using assms(1) by (simp_all add: carries_def)
  from trim_chain_ok [OF this, of nt len] obtain k f where
    k: "trim_chain nt (sg_p s) len = Some (k, nt\<lparr>nt_pbuf_free := f\<rparr>)" "k \<noteq> []" "chain_ok k"
      "chain_data k = take (unat len) (chain_data (sg_p s))" by blast
  show ?thesis
    by (rule that [of k f]) (use k carries_short [OF assms k(2,3,4)] in \<open>simp_all add: trim_seg_def\<close>)
qed

lemma seg_off_upd [simp]:
  "seg_off b (s\<lparr>sg_len := l\<rparr>) = seg_off b s" "seg_off b (s\<lparr>sg_p := p\<rparr>) = seg_off b s" "seg_off b (s\<lparr>sg_addr := a\<rparr>) = seg_off b s"
  "seg_end b (s\<lparr>sg_p := p\<rparr>) = seg_end b s" "seg_end b (s\<lparr>sg_addr := a\<rparr>) = seg_end b s"
  "seg_lim b (s\<lparr>sg_p := p\<rparr>) = seg_lim b s" "seg_lim b (s\<lparr>sg_addr := a\<rparr>) = seg_lim b s"
  "seg_end b (s\<lparr>sg_len := l\<rparr>) = seg_off b s + unat l"
  by (simp_all add: seg_off_def seg_end_def seg_lim_def)

lemma fin_flags:
  "\<not> has_flag (TCPH_FLAGS_SET h (TCPH_FLAGS h AND NOT TCP_FIN)) TCP_FIN"
  "has_flag (TCPH_FLAGS_SET h (TCPH_FLAGS h AND NOT TCP_FIN)) TCP_SYN = has_flag h TCP_SYN"
  "has_flag (TCPH_SET_FLAG h TCP_FIN) TCP_FIN" "has_flag (TCPH_SET_FLAG h TCP_FIN) TCP_SYN = has_flag h TCP_SYN"
proof -
  have syn: "(x AND NOT TCP_FIN) AND TCP_FLAGS AND TCP_SYN = x AND TCP_SYN" for x :: u16
    by (simp add: TCP_FIN_def TCP_SYN_def TCP_FLAGS_def and.assoc)
  show "\<not> has_flag (TCPH_FLAGS_SET h (TCPH_FLAGS h AND NOT TCP_FIN)) TCP_FIN"
    unfolding has_flag_def TCPH_FLAGS_FLAGS_SET by (simp add: bit_eq_iff bit_simps)
  show "has_flag (TCPH_FLAGS_SET h (TCPH_FLAGS h AND NOT TCP_FIN)) TCP_SYN = has_flag h TCP_SYN"
    unfolding has_flag_def TCPH_FLAGS_FLAGS_SET using syn [of "TCPH_FLAGS h"] by (simp add: and.assoc)
  show "has_flag (TCPH_SET_FLAG h TCP_FIN) TCP_FIN" "has_flag (TCPH_SET_FLAG h TCP_FIN) TCP_SYN = has_flag h TCP_SYN"
    by (simp_all add: has_flag_SET_FLAG TCP_FIN_def TCP_SYN_def TCP_FLAGS_def)
qed

lemma clear_fin_seg:
  assumes "carries b src L s"
  shows "carries b src L (clear_fin s)" "\<not> fin (clear_fin s)" "seg_off b (clear_fin s) = seg_off b s" "sg_len (clear_fin s) = sg_len s"
    "sg_p (clear_fin s) = sg_p s" "sg_addr (clear_fin s) = sg_addr s"
proof -
  have o: "th_seqno (TCPH_FLAGS_SET h f) = th_seqno h" for h f by (simp add: TCPH_FLAGS_SET_def)
  show "carries b src L (clear_fin s)" "\<not> fin (clear_fin s)" "seg_off b (clear_fin s) = seg_off b s" "sg_len (clear_fin s) = sg_len s"
    "sg_p (clear_fin s) = sg_p s" "sg_addr (clear_fin s) = sg_addr s"
    using assms by (auto simp: clear_fin_def carries_def seg_off_def seg_end_def o fin_flags)
qed

text \<open>A FIN that moves to a segment that reaches the end of the stream.\<close>

definition add_fin :: "tcp_seg \<Rightarrow> tcp_seg" where
  "add_fin s = s\<lparr>sg_tcphdr := TCPH_SET_FLAG (sg_tcphdr s) TCP_FIN\<rparr>"

lemma add_fin_seg:
  assumes "carries b src L s" "seg_end b s = L"
  shows "carries b src L (add_fin s)" "fin (add_fin s)" "seg_off b (add_fin s) = seg_off b s" "sg_len (add_fin s) = sg_len s"
    "th_seqno (sg_tcphdr (add_fin s)) = th_seqno (sg_tcphdr s)"
proof -
  have o: "th_seqno (TCPH_SET_FLAG h f) = th_seqno h" for h f by (simp add: TCPH_SET_FLAG_def)
  show "carries b src L (add_fin s)" "fin (add_fin s)" "seg_off b (add_fin s) = seg_off b s" "sg_len (add_fin s) = sg_len s"
    "th_seqno (sg_tcphdr (add_fin s)) = th_seqno (sg_tcphdr s)"
    using assms by (auto simp: add_fin_def carries_def seg_off_def seg_end_def o fin_flags)
qed

section \<open>Cutting off what was received before\<close>

lemma header_hide:
  assumes "chain_ok (p # ps)" "n \<le> unat (pb_len p)" "n \<le> 32768"
  shows "chain_ok (fst (pbuf_header p (s16 (- int n))) # ps)"
    "pb_data (fst (pbuf_header p (s16 (- int n)))) = drop n (pb_data p)"
proof -
  have s: "s16 (- int n) = - int n" using assms(3) by (intro s16_id) simp_all
  have u: "unat (pb_len p - of_nat n) = unat (pb_len p) - n" using unat_of_int_add16(2) [OF assms(2)] .
  have n: "n < 4294967296" using assms(3) by simp
  have t: "unat (pb_tot_len p) = unat (pb_len p) + tot ps" using assms(1) by simp
  then have v: "unat (pb_tot_len p - of_nat n) = unat (pb_tot_len p) - n"
    using assms(2) n by (subst unat_minus32) (simp_all add: word_le_nat_alt unat_of_nat take_bit_nat_eq_self)
  have h: "\<not> uint (pb_len p) < int n" using assms(2) by (simp add: uint_less_int)
  show "chain_ok (fst (pbuf_header p (s16 (- int n))) # ps)"
    using assms h u v t by (auto simp: s pbuf_header_def nat_add_distrib)
  show "pb_data (fst (pbuf_header p (s16 (- int n)))) = drop n (pb_data p)"
    using assms h u by (auto simp: s pbuf_header_def pb_data_def drop_take nat_add_distrib add.commute)
qed

lemma skip_front_ok:
  assumes "chain_ok ps" "0 < n" "n \<le> tot ps" "n \<le> 32768" "unat t = tot ps - n"
  shows "\<exists>qs. skip_front t (int n) ps = Some qs \<and> chain_ok qs \<and> qs \<noteq> [] \<and> tot qs = tot ps - n
    \<and> chain_data qs = drop n (chain_data ps)"
  using assms
proof (induction ps arbitrary: n)
  case Nil
  then show ?case by simp
next
  case (Cons p ps)
  have l: "length (pb_data p) = unat (pb_len p)" using Cons.prems(1) by (simp add: length_pb_data)
  show ?case
  proof (cases "unat (pb_len p) < n")
    case True
    then have m: "chain_ok ps" "0 < n - unat (pb_len p)" "n - unat (pb_len p) \<le> tot ps" "n - unat (pb_len p) \<le> 32768"
        "unat t = tot ps - (n - unat (pb_len p))"
      using Cons.prems by auto
    then obtain qs where q: "skip_front t (int (n - unat (pb_len p))) ps = Some qs" "chain_ok qs" "tot qs = tot ps - (n - unat (pb_len p))"
        "chain_data qs = drop (n - unat (pb_len p)) (chain_data ps)"
      using Cons.IH [of "n - unat (pb_len p)"] m by blast
    have lt: "int (unat (pb_len p)) < int n" using True by (simp only: of_nat_less_iff)
    have "skip_front t (int n) (p # ps) = Some (p\<lparr>pb_tot_len := t, pb_len := 0\<rparr> # qs)"
      using lt q(1) True by (simp only: skip_front.simps if_True option.map of_nat_diff less_imp_le)
    then show ?thesis using q True Cons.prems l by (auto simp: pb_data_def)
  next
    case False
    then have n: "n \<le> unat (pb_len p)" by simp
    note h = header_hide [OF Cons.prems(1) n Cons.prems(4)]
    have e: "skip_front t (int n) (p # ps) = Some (fst (pbuf_header p (s16 (- int n))) # ps)" using False by (simp add: uint_less_int)
    have d: "chain_data (fst (pbuf_header p (s16 (- int n))) # ps) = drop n (chain_data (p # ps))" using h(2) n l by simp
    have "tot (fst (pbuf_header p (s16 (- int n))) # ps) = tot (p # ps) - n"
      using length_chain_data [OF h(1)] length_chain_data [OF Cons.prems(1)] d by (metis length_drop)
    then show ?thesis using e h(1) d by blast
  qed
qed

text \<open>A segment as it arrives: its length fields agree.\<close>

definition arrives :: "u32 \<Rightarrow> (nat \<Rightarrow> u8) \<Rightarrow> nat \<Rightarrow> tcp_in_data \<Rightarrow> bool" where
  "arrives b src L d = (carries b src L (in_inseg d) \<and> th_seqno (sg_tcphdr (in_inseg d)) = in_seqno d
     \<and> ucast (in_tcplen d) = TCP_TCPLEN (in_inseg d))"

lemma seq_off_minus1: "seq_off b x \<noteq> 0 \<Longrightarrow> seq_off b (x - 1) = seq_off b x - 1"
proof -
  assume "seq_off b x \<noteq> 0"
  then have "seq_off b (x - 1) + 1 = seq_off b x"
    unfolding seq_off_def using unat_minus32 [of 1 "x - b"] by (simp add: word_le_nat_alt algebra_simps)
  then show ?thesis by simp
qed

lemma front_cut:
  assumes "chain_ok (p # ps)" "0 < k" "k \<le> tot (p # ps)" "k \<le> 32768" "tot (p # ps) < 65536"
  shows "\<exists>q. (if int (unat (pb_len p)) < int k
              then skip_front (ucast (ucast (pb_tot_len p - of_int (int k)) :: u16)) (int k) (p # ps)
              else Some (fst (pbuf_header p (s16 (- int k))) # ps)) = Some q
    \<and> chain_ok q \<and> q \<noteq> [] \<and> chain_data q = drop k (chain_data (p # ps))"
proof (cases "unat (pb_len p) < k")
  case True
  have t: "unat (pb_tot_len p) = tot (p # ps)" using assms(1) by simp
  have "unat (of_nat k :: u32) = k" using assms(4) by (simp add: unat_of_nat take_bit_nat_eq_self)
  then have "unat (pb_tot_len p - of_nat k) = tot (p # ps) - k"
    using t assms(3) by (subst unat_minus32) (simp_all add: word_le_nat_alt)
  then have "unat (ucast (ucast (pb_tot_len p - of_int (int k)) :: u16) :: u32) = tot (p # ps) - k"
    using assms(5) by (simp add: unsigned_ucast_eq unsigned_take_bit_eq take_bit_nat_eq_self)
  from skip_front_ok [OF assms(1-4) this] show ?thesis using True by auto
next
  case False
  then have n: "k \<le> unat (pb_len p)" by simp
  have "length (pb_data p) = unat (pb_len p)" using assms(1) by (simp add: length_pb_data)
  then show ?thesis using header_hide [OF assms(1) n assms(4)] n False by (simp add: uint_less_int)
qed

lemma trim_front_ok:
  assumes a: "arrives b src L d" and L: "stream_len L" and n: "seq_off b (rcv_nxt pcb) \<le> L + 1" and l: "unat (sg_len (in_inseg d)) \<le> 32768"
    and pos: "in_tcplen d \<noteq> 0"
  obtains f d' where "trim_front pcb d = Some (pcb\<lparr>flags := f\<rparr>, d')" "carries b src L (in_inseg d')"
    "th_seqno (sg_tcphdr (in_inseg d')) = in_seqno d'" "in_recv_data d' = in_recv_data d" "seg_lim b (in_inseg d') = seg_lim b (in_inseg d)"
    "seg_off b (in_inseg d') < seg_lim b (in_inseg d')" "in_seqno d' \<noteq> rcv_nxt pcb \<Longrightarrow> d' = d"
    "unat (sg_len (in_inseg d')) \<le> unat (sg_len (in_inseg d))"
proof -
  let ?s = "in_inseg d"
  have c: "carries b src L ?s" and sq: "th_seqno (sg_tcphdr ?s) = in_seqno d" and tl: "(ucast (in_tcplen d) :: u32) = TCP_TCPLEN ?s"
    using a by (simp_all add: arrives_def)
  have so: "seq_off b (in_seqno d) = seg_off b ?s" using sq by (simp add: seg_off_def)
  have syn: "\<not> has_flag (sg_tcphdr ?s) TCP_SYN" using c by (simp add: carries_def)
  note le = carries_le [OF c]
  have ut: "unat (ucast (in_tcplen d) :: u32) = seg_lim b ?s - seg_off b ?s" using tcplen_off(1) [OF syn, of b] tl by simp
  have up: "0 < unat (in_tcplen d)" using pos by (simp add: unat_gt_0)
  have ol: "seg_off b ?s < seg_lim b ?s" using ut up by (simp only: unat_ucast16_32 zero_less_diff)
  have o1: "seq_off b (in_seqno d + 1) = seg_off b ?s + 1"
    using le L seq_off_add [of b "in_seqno d" 1] by (simp add: so stream_len_def)
  have "seq_off b (in_seqno d + ucast (in_tcplen d)) = seg_lim b ?s"
    using le L ut ol seq_off_add [of b "in_seqno d" "ucast (in_tcplen d)"] by (simp add: so stream_len_def)
  then have o2: "seq_off b (in_seqno d + ucast (in_tcplen d) - 1) = seg_lim b ?s - 1"
    using seq_off_minus1 [of b "in_seqno d + ucast (in_tcplen d)"] ol by simp
  have bt: "TCP_SEQ_BETWEEN (rcv_nxt pcb) (in_seqno d + 1) (in_seqno d + ucast (in_tcplen d) - 1)
      = (seg_off b ?s < seq_off b (rcv_nxt pcb) \<and> seq_off b (rcv_nxt pcb) < seg_lim b ?s)"
    using le L n ol o1 o2 by (auto simp: TCP_SEQ_BETWEEN_def seq_geq_near [of b] seq_leq_near [of b] stream_len_def)
  show ?thesis
  proof (cases "seg_off b ?s < seq_off b (rcv_nxt pcb) \<and> seq_off b (rcv_nxt pcb) < seg_lim b ?s")
    case False
    define f where "f = (if TCP_SEQ_LT (in_seqno d) (rcv_nxt pcb) then flags (tcp_ack_now pcb) else flags pcb)"
    have "(if TCP_SEQ_LT (in_seqno d) (rcv_nxt pcb) then tcp_ack_now pcb else pcb) = pcb\<lparr>flags := f\<rparr>"
      by (simp add: f_def tcp_ack_now_def set_flag_def)
    then have "trim_front pcb d = Some (pcb\<lparr>flags := f\<rparr>, d)" unfolding trim_front_def bt using False by (simp only: if_False)
    then show ?thesis using that [of f d] c sq ol by (blast intro: order_refl)
  next
    case True
    define k where "k = seq_off b (rcv_nxt pcb) - seg_off b ?s"
    have d: "unat (rcv_nxt pcb - in_seqno d) = k" using seq_off_minus [of b "in_seqno d" "rcv_nxt pcb"] True by (simp add: so k_def)
    have k: "0 < k" "k \<le> unat (sg_len ?s)" using True by (auto simp: k_def seg_lim_def seg_end_def split: if_splits)
    have k2: "k \<le> 32768" using k l by simp
    have off: "sint (rcv_nxt pcb - in_seqno d) = int k" using d k2 sint_small [of "rcv_nxt pcb - in_seqno d"] by simp
    obtain p ps where ps: "sg_p ?s = p # ps" using c by (cases "sg_p ?s") (auto simp: carries_def)
    have ok: "chain_ok (p # ps)" and tt: "tot (p # ps) = unat (sg_len ?s)" using c carries_tot [OF c] ps by (simp_all add: carries_def)
    have kt: "k \<le> tot (p # ps)" "tot (p # ps) < 65536" unfolding tt using k(2) unat_lt16 [of "sg_len ?s"] by simp_all
    obtain q where q: "(case sg_p ?s of [] \<Rightarrow> None
         | p # ps \<Rightarrow> if int (unat (pb_len p)) < int k
                     then skip_front (ucast (ucast (pb_tot_len p - of_int (int k)) :: u16)) (int k) (p # ps)
                     else Some (fst (pbuf_header p (s16 (- int k))) # ps)) = Some q"
        "chain_ok q" "q \<noteq> []" "chain_data q = drop k (chain_data (p # ps))"
      using front_cut [OF ok k(1) kt(1) k2 kt(2)] unfolding ps list.case by blast
    define s' where "s' = ?s\<lparr>sg_p := q, sg_len := sg_len ?s - ucast (rcv_nxt pcb - in_seqno d),
                   sg_tcphdr := (sg_tcphdr ?s)\<lparr>th_seqno := rcv_nxt pcb\<rparr>\<rparr>"
    have "ucast (rcv_nxt pcb - in_seqno d) = (of_nat k :: u16)" unfolding d [symmetric] by simp
    then have sl: "unat (sg_len s') = unat (sg_len ?s) - k" using unat_of_int_add16(2) [OF k(2)] by (simp add: s'_def)
    have fl: "has_flag (sg_tcphdr s') f = has_flag (sg_tcphdr ?s) f" for f by (simp add: s'_def has_flag_def TCPH_FLAGS_def)
    have off': "seg_off b s' = seg_off b ?s + k" "seg_end b s' = seg_end b ?s"
      using k True sl by (simp_all add: s'_def seg_off_def seg_end_def k_def so [unfolded seg_off_def])
    have "carries b src L s'" using c q off' fl ps by (simp add: carries_def s'_def drop_map)
    moreover have "trim_front pcb d = Some (pcb, d\<lparr>in_inseg := s', in_seqno := rcv_nxt pcb\<rparr>)"
      unfolding trim_front_def bt Let_def off q(1) using True by (simp add: s'_def)
    moreover have "seg_lim b s' = seg_lim b ?s" using off' fl by (simp add: seg_lim_def)
    moreover have "seg_off b s' < seg_lim b s'" using True off' fl by (simp add: seg_lim_def k_def)
    ultimately show ?thesis using that [of "flags pcb" "d\<lparr>in_inseg := s', in_seqno := rcv_nxt pcb\<rparr>"] sl
      by (simp add: s'_def)
  qed
qed

end
