(* ===== verification/Tcp_Reass_Seq.thy ===== *)
theory Tcp_Reass_Seq
  imports Tcp_Reass
begin

text \<open>
  Reassembly, the segment that is next in sequence: it is cut to the window
  and to the queue, delivered, and followed by the queued segments that are in
  sequence after it.
\<close>

section \<open>The incoming segment is shortened\<close>

lemma set_inseg_len_ok:
  assumes c: "carries b src L (in_inseg d)" and l: "unat len \<le> unat (sg_len (in_inseg d))" "fin (in_inseg d) \<longrightarrow> len = sg_len (in_inseg d)"
  obtains k f where
    "set_inseg_len nt d len = Some (d\<lparr>in_inseg := (in_inseg d)\<lparr>sg_len := len, sg_p := k\<rparr>,
       in_tcplen := ucast (TCP_TCPLEN ((in_inseg d)\<lparr>sg_len := len, sg_p := k\<rparr>))\<rparr>, nt\<lparr>nt_pbuf_free := f\<rparr>)"
    "carries b src L ((in_inseg d)\<lparr>sg_len := len, sg_p := k\<rparr>)"
proof -
  let ?s = "in_inseg d"
  have ok: "chain_ok (sg_p ?s)" "sg_p ?s \<noteq> []" "\<not> has_flag (sg_tcphdr ?s) TCP_SYN" using c by (simp_all add: carries_def)
  from trim_chain_ok [OF ok(1,2), of nt len] obtain k f where
    k: "trim_chain nt (sg_p ?s) len = Some (k, nt\<lparr>nt_pbuf_free := f\<rparr>)" "k \<noteq> []" "chain_ok k"
      "chain_data k = take (unat len) (chain_data (sg_p ?s))" by blast
  show ?thesis
    by (rule that [of k f]) (use k ok carries_short [OF c l k(2,3,4)] in \<open>simp_all add: set_inseg_len_def Let_def\<close>)
qed

lemma tcplen_fits:
  assumes "\<not> has_flag (sg_tcphdr s) TCP_SYN" "unat (sg_len s) < 65535"
  shows "(ucast (ucast (TCP_TCPLEN s) :: u16) :: u32) = TCP_TCPLEN s"
proof -
  have "unat (TCP_TCPLEN s) < 65536"
    using tcplen_off(1) [OF assms(1), of 0] assms(2) by (simp add: seg_lim_def seg_end_def)
  then have "unat (ucast (ucast (TCP_TCPLEN s) :: u16) :: u32) = unat (TCP_TCPLEN s)"
    by (simp add: unsigned_ucast_eq unsigned_take_bit_eq take_bit_nat_eq_self)
  then show ?thesis by (simp add: word_unat_eq_iff)
qed

lemma arrives_upd:
  assumes "carries b src L s" "th_seqno (sg_tcphdr s) = in_seqno d" "unat (sg_len s) < 65535"
  shows "arrives b src L (d\<lparr>in_inseg := s, in_tcplen := ucast (TCP_TCPLEN s)\<rparr>)"
  using assms tcplen_fits [of s] by (simp add: arrives_def carries_def)

text \<open>What a step that shortens the incoming segment keeps.\<close>

definition shorter :: "tcp_in_data \<Rightarrow> tcp_in_data \<Rightarrow> bool" where
  "shorter d d' = (in_seqno d' = in_seqno d \<and> in_recv_data d' = in_recv_data d
     \<and> unat (sg_len (in_inseg d')) \<le> unat (sg_len (in_inseg d)))"

lemma shorter_trans: "shorter d d' \<Longrightarrow> shorter d' d'' \<Longrightarrow> shorter d d''"
  by (auto simp: shorter_def)

lemma arrives_off:
  assumes "arrives b src L d" "stream_len L"
  shows "seq_off b (in_seqno d) = seg_off b (in_inseg d)" "seq_off b (in_seqno d + ucast (in_tcplen d)) = seg_lim b (in_inseg d)"
    "seg_off b (in_inseg d) \<le> seg_end b (in_inseg d)" "seg_end b (in_inseg d) \<le> L" "seg_lim b (in_inseg d) \<le> L + 1"
proof -
  let ?s = "in_inseg d"
  have c: "carries b src L ?s" and tl: "(ucast (in_tcplen d) :: u32) = TCP_TCPLEN ?s" and syn: "\<not> has_flag (sg_tcphdr ?s) TCP_SYN"
    using assms(1) by (simp_all add: arrives_def carries_def)
  note le = carries_le [OF c]
  show o: "seq_off b (in_seqno d) = seg_off b ?s" using assms(1) by (simp add: arrives_def seg_off_def)
  have "unat (TCP_TCPLEN ?s) = seg_lim b ?s - seg_off b ?s" using tcplen_off(1) [OF syn] .
  moreover have "seg_off b ?s \<le> seg_lim b ?s" by (simp add: seg_lim_def seg_end_def)
  ultimately show "seq_off b (in_seqno d + ucast (in_tcplen d)) = seg_lim b ?s"
    unfolding tl using o le assms(2) seq_off_add [of b "in_seqno d" "TCP_TCPLEN ?s"] by (simp add: stream_len_def)
  show "seg_off b ?s \<le> seg_end b ?s" "seg_end b ?s \<le> L" "seg_lim b ?s \<le> L + 1" using le by (simp_all add: seg_end_def)
qed

lemma trim_to_window_ok:
  assumes c: "carries b src L (in_inseg d)" "th_seqno (sg_tcphdr (in_inseg d)) = in_seqno d" and l: "unat (sg_len (in_inseg d)) < 65535"
  obtains d' f where "trim_to_window pcb nt d = Some (d', nt\<lparr>nt_pbuf_free := f\<rparr>)" "arrives b src L d'" "shorter d d'"
proof -
  let ?s = "in_inseg d"
  let ?d = "d\<lparr>in_tcplen := ucast (TCP_TCPLEN ?s)\<rparr>"
  have syn: "\<not> has_flag (sg_tcphdr ?s) TCP_SYN" using c(1) by (simp add: carries_def)
  note t = tcplen_fits [OF syn l]
  show ?thesis
  proof (cases "TCP_TCPLEN ?s > rcv_wnd pcb")
    case False
    then have "trim_to_window pcb nt d = Some (?d, nt\<lparr>nt_pbuf_free := nt_pbuf_free nt\<rparr>)" by (simp add: trim_to_window_def t)
    moreover have "arrives b src L ?d" using c t by (simp add: arrives_def)
    ultimately show ?thesis by (rule that) (simp add: shorter_def)
  next
    case True
    let ?e = "?d\<lparr>in_inseg := clear_fin ?s\<rparr>"
    have w: "unat (rcv_wnd pcb) < unat (TCP_TCPLEN ?s)" using True by (simp add: word_less_nat_alt)
    have "unat (TCP_TCPLEN ?s) \<le> unat (sg_len ?s) + 1" using tcplen_off(1) [OF syn, of 0] by (simp add: seg_lim_def seg_end_def)
    then have wl: "unat (rcv_wnd pcb) \<le> unat (sg_len ?s)" using w by linarith
    then have u: "unat (ucast (rcv_wnd pcb) :: u16) = unat (rcv_wnd pcb)"
      using l by (simp add: unsigned_ucast_eq unsigned_take_bit_eq take_bit_nat_eq_self)
    note cf = clear_fin_seg [OF c(1)]
    have sq: "th_seqno (sg_tcphdr (clear_fin ?s)) = in_seqno d" using c(2) by (simp add: clear_fin_def TCPH_FLAGS_SET_def)
    obtain k f where k: "set_inseg_len nt ?e (ucast (rcv_wnd pcb)) = Some (?e\<lparr>in_inseg := (clear_fin ?s)\<lparr>sg_len := ucast (rcv_wnd pcb), sg_p := k\<rparr>,
       in_tcplen := ucast (TCP_TCPLEN ((clear_fin ?s)\<lparr>sg_len := ucast (rcv_wnd pcb), sg_p := k\<rparr>))\<rparr>, nt\<lparr>nt_pbuf_free := f\<rparr>)"
       "carries b src L ((clear_fin ?s)\<lparr>sg_len := ucast (rcv_wnd pcb), sg_p := k\<rparr>)"
      using set_inseg_len_ok [of b src L ?e "ucast (rcv_wnd pcb)" nt] cf wl u by auto
    show ?thesis
    proof (rule that)
      show "trim_to_window pcb nt d = Some (?e\<lparr>in_inseg := (clear_fin ?s)\<lparr>sg_len := ucast (rcv_wnd pcb), sg_p := k\<rparr>,
       in_tcplen := ucast (TCP_TCPLEN ((clear_fin ?s)\<lparr>sg_len := ucast (rcv_wnd pcb), sg_p := k\<rparr>))\<rparr>, nt\<lparr>nt_pbuf_free := f\<rparr>)"
        unfolding trim_to_window_def Let_def using True k(1) by (simp add: t)
      show "arrives b src L (?e\<lparr>in_inseg := (clear_fin ?s)\<lparr>sg_len := ucast (rcv_wnd pcb), sg_p := k\<rparr>,
       in_tcplen := ucast (TCP_TCPLEN ((clear_fin ?s)\<lparr>sg_len := ucast (rcv_wnd pcb), sg_p := k\<rparr>))\<rparr>)"
        using arrives_upd [OF k(2), of ?e] sq wl u l by simp
      show "shorter d (?e\<lparr>in_inseg := (clear_fin ?s)\<lparr>sg_len := ucast (rcv_wnd pcb), sg_p := k\<rparr>,
       in_tcplen := ucast (TCP_TCPLEN ((clear_fin ?s)\<lparr>sg_len := ucast (rcv_wnd pcb), sg_p := k\<rparr>))\<rparr>)"
        using wl u by (simp add: shorter_def)
    qed
  qed
qed

section \<open>The queue gives way\<close>

lemma oos_ok_mono: "oos_ok b src L lo q \<Longrightarrow> lo' \<le> lo \<Longrightarrow> oos_ok b src L lo' q"
  by (cases q) auto

lemma oos_ok_tail: "oos_ok b src L lo (s # q) \<Longrightarrow> oos_ok b src L lo q"
  by (auto simp: seg_end_def intro: oos_ok_mono)

lemma drop_covered_ok:
  assumes "drop_covered d nt q = (d', nt', q')" "arrives b src L d" "stream_len L" "oos_ok b src L lo q"
    "fin (in_inseg d) \<longrightarrow> q = []" "unat (sg_len (in_inseg d)) < 65535"
  shows "arrives b src L d' \<and> shorter d d' \<and> sg_len (in_inseg d') = sg_len (in_inseg d) \<and> oos_ok b src L lo q'
    \<and> (q' \<noteq> [] \<longrightarrow> \<not> fin (in_inseg d') \<and> seg_lim b (in_inseg d') < seg_end b (hd q'))"
  using assms
proof (induction d nt q arbitrary: lo rule: drop_covered.induct)
  case (1 d nt)
  then show ?case by (simp add: shorter_def)
next
  case (2 d nt n ns)
  let ?s = "in_inseg d"
  have n: "carries b src L n" "lo \<le> seg_off b n" "fin n \<longrightarrow> ns = []" "oos_ok b src L (seg_end b n) ns" using "2.prems"(4) by simp_all
  have f: "\<not> fin ?s" using "2.prems"(5) by auto
  note o = arrives_off [OF "2.prems"(2,3)]
  have c: "carries b src L ?s" and sq: "th_seqno (sg_tcphdr ?s) = in_seqno d" using "2.prems"(2) by (simp_all add: arrives_def)
  have syn: "\<not> has_flag (sg_tcphdr ?s) TCP_SYN" using c by (simp add: carries_def)
  have g: "TCP_SEQ_GEQ (in_seqno d + ucast (in_tcplen d)) (th_seqno (sg_tcphdr n) + ucast (sg_len n)) = (seg_end b n \<le> seg_lim b ?s)"
    using o(2,5) off_end [OF n(1) "2.prems"(3)] carries_le [OF n(1)] "2.prems"(3) by (simp add: seq_geq_near [of b] stream_len_def)
  show ?case
  proof (cases "seg_end b n \<le> seg_lim b ?s")
    case False
    then show ?thesis using "2.prems"(1) g f "2.prems"(2,4) by (auto simp: shorter_def)
  next
    case True
    define e where "e = (if fin n then d\<lparr>in_inseg := add_fin ?s, in_tcplen := ucast (TCP_TCPLEN (add_fin ?s))\<rparr> else d)"
    have e: "arrives b src L e" "shorter d e" "sg_len (in_inseg e) = sg_len ?s" "fin (in_inseg e) \<longrightarrow> ns = []"
    proof -
      have "fin n \<Longrightarrow> seg_end b ?s = L" using True n(1) f o(4) by (simp add: carries_def seg_lim_def)
      note af = add_fin_seg [OF c this]
      show "arrives b src L e"
        using "2.prems"(2,6) af sq arrives_upd [of b src L "add_fin ?s" d] by (simp add: e_def)
      show "shorter d e" "sg_len (in_inseg e) = sg_len ?s" "fin (in_inseg e) \<longrightarrow> ns = []"
        using n(3) f by (auto simp: e_def shorter_def add_fin_def)
    qed
    have r: "drop_covered e (tcp_seg_free nt n) ns = (d', nt', q')"
      using "2.prems"(1) g True syn by (cases "fin n") (simp_all add: e_def add_fin_def Let_def)
    have g1: "TCP_SEQ_GEQ (in_seqno d + ucast (in_tcplen d)) (th_seqno (sg_tcphdr n) + ucast (sg_len n))" using g True by simp
    have ee: "e = (if fin n \<and> \<not> has_flag (sg_tcphdr ?s) TCP_SYN
        then let s = ?s\<lparr>sg_tcphdr := TCPH_SET_FLAG (sg_tcphdr ?s) TCP_FIN\<rparr> in d\<lparr>in_inseg := s, in_tcplen := ucast (TCP_TCPLEN s)\<rparr>
        else d)" using syn by (simp add: e_def add_fin_def Let_def)
    have IH: "arrives b src L d' \<and> shorter e d' \<and> sg_len (in_inseg d') = sg_len (in_inseg e) \<and> oos_ok b src L lo q'
      \<and> (q' \<noteq> [] \<longrightarrow> \<not> fin (in_inseg d') \<and> seg_lim b (in_inseg d') < seg_end b (hd q'))"
      using "2.IH" [OF g1 ee r e(1) "2.prems"(3) oos_ok_tail [OF "2.prems"(4)] e(4)] "2.prems"(6) e(3) by simp
    then show ?thesis using shorter_trans [OF e(2)] e(3) by simp
  qed
qed

lemma adjust_ooseq_ok:
  assumes a: "arrives b src L d" and L: "stream_len L" and q: "oos_ok b src L (seg_off b (in_inseg d)) (ooseq pcb)"
    and l: "unat (sg_len (in_inseg d)) < 65535"
  obtains d' nt' q' where "adjust_ooseq pcb nt d = Some (pcb\<lparr>ooseq := q'\<rparr>, nt', d')" "arrives b src L d'" "shorter d d'"
    "oos_ok b src L (seg_lim b (in_inseg d')) q'"
proof (cases "ooseq pcb = [] \<or> fin (in_inseg d)")
  case True
  then have "\<exists>nt'. adjust_ooseq pcb nt d = Some (pcb\<lparr>ooseq := []\<rparr>, nt', d)" by (auto simp: adjust_ooseq_def)
  then show ?thesis using that [of "[]" _ d] a by (auto simp: shorter_def)
next
  case False
  obtain d1 n1 q1 where r: "drop_covered d nt (ooseq pcb) = (d1, n1, q1)" by (metis prod_cases3)
  have dc: "arrives b src L d1 \<and> shorter d d1 \<and> sg_len (in_inseg d1) = sg_len (in_inseg d) \<and> oos_ok b src L (seg_off b (in_inseg d)) q1
    \<and> (q1 \<noteq> [] \<longrightarrow> \<not> fin (in_inseg d1) \<and> seg_lim b (in_inseg d1) < seg_end b (hd q1))"
    using drop_covered_ok [OF r a L q _ l] False by blast
  have d1: "arrives b src L d1" "shorter d d1" "unat (sg_len (in_inseg d1)) < 65535" using dc l by auto
  have same: "seg_off b (in_inseg d1) = seg_off b (in_inseg d)"
    using d1(2) arrives_off(1) [OF a L] arrives_off(1) [OF d1(1) L] by (simp add: shorter_def)
  have ad: "adjust_ooseq pcb nt d = (case q1 of [] \<Rightarrow> Some (pcb\<lparr>ooseq := []\<rparr>, n1, d1)
      | n # _ \<Rightarrow> if TCP_SEQ_GT (in_seqno d1 + ucast (in_tcplen d1)) (th_seqno (sg_tcphdr n))
                 then do { (d, nt) \<leftarrow> set_inseg_len n1 d1 (ucast (th_seqno (sg_tcphdr n) - in_seqno d1)); Some (pcb\<lparr>ooseq := q1\<rparr>, nt, d) }
                 else Some (pcb\<lparr>ooseq := q1\<rparr>, n1, d1))"
    using False by (simp add: adjust_ooseq_def r)
  show ?thesis
  proof (cases q1)
    case Nil
    then show ?thesis using that [of "[]" n1 d1] ad d1 by simp
  next
    case (Cons n ns)
    have nf: "\<not> fin (in_inseg d1)" using dc Cons by simp
    have n: "carries b src L n" "seg_off b (in_inseg d1) \<le> seg_off b n" "seg_off b n \<le> L"
      using dc Cons same carries_le [of b src L n] by auto
    note o = arrives_off [OF d1(1) L]
    have g: "TCP_SEQ_GT (in_seqno d1 + ucast (in_tcplen d1)) (th_seqno (sg_tcphdr n)) = (seg_off b n < seg_lim b (in_inseg d1))"
      using o(2,5) n(3) L by (simp add: seg_off_def seq_gt_near [of b] stream_len_def)
    show ?thesis
    proof (cases "seg_off b n < seg_lim b (in_inseg d1)")
      case False
      then have "oos_ok b src L (seg_lim b (in_inseg d1)) q1" using dc Cons by simp
      then show ?thesis using that [of q1 n1 d1] ad g False d1 Cons by simp
    next
      case True
      let ?l = "ucast (th_seqno (sg_tcphdr n) - in_seqno d1) :: u16"
      have "unat (th_seqno (sg_tcphdr n) - in_seqno d1) = seg_off b n - seg_off b (in_inseg d1)"
        using seq_off_minus [of b "in_seqno d1" "th_seqno (sg_tcphdr n)"] n(2) o(1) by (simp add: seg_off_def)
      moreover have le: "seg_off b n - seg_off b (in_inseg d1) \<le> unat (sg_len (in_inseg d1))" using True nf by (simp add: seg_lim_def seg_end_def)
      ultimately have ul: "unat ?l = seg_off b n - seg_off b (in_inseg d1)"
        using d1(3) by (simp add: unsigned_ucast_eq unsigned_take_bit_eq take_bit_nat_eq_self)
      have c1: "carries b src L (in_inseg d1)" "th_seqno (sg_tcphdr (in_inseg d1)) = in_seqno d1" using d1(1) by (simp_all add: arrives_def)
      obtain k f where k: "set_inseg_len n1 d1 ?l = Some (d1\<lparr>in_inseg := (in_inseg d1)\<lparr>sg_len := ?l, sg_p := k\<rparr>,
          in_tcplen := ucast (TCP_TCPLEN ((in_inseg d1)\<lparr>sg_len := ?l, sg_p := k\<rparr>))\<rparr>, n1\<lparr>nt_pbuf_free := f\<rparr>)"
          "carries b src L ((in_inseg d1)\<lparr>sg_len := ?l, sg_p := k\<rparr>)"
        using set_inseg_len_ok [OF c1(1), of ?l n1] le ul nf by auto
      define s where "s = (in_inseg d1)\<lparr>sg_len := ?l, sg_p := k\<rparr>"
      define e where "e = d1\<lparr>in_inseg := s, in_tcplen := ucast (TCP_TCPLEN s)\<rparr>"
      have sl: "unat (sg_len s) = seg_off b n - seg_off b (in_inseg d1)" "th_seqno (sg_tcphdr s) = in_seqno d1" "seg_off b s = seg_off b (in_inseg d1)" "\<not> fin s"
        using ul c1(2) nf by (simp_all add: s_def)
      have lim: "seg_lim b s = seg_off b n" using sl n(2) by (simp add: seg_lim_def seg_end_def)
      have "adjust_ooseq pcb nt d = Some (pcb\<lparr>ooseq := q1\<rparr>, n1\<lparr>nt_pbuf_free := f\<rparr>, e)"
        using ad Cons g True k(1) by (simp add: e_def s_def)
      moreover have "arrives b src L e"
        using arrives_upd [of b src L s d1] k(2) sl le d1(3) by (simp add: e_def flip: s_def)
      moreover have "shorter d e" using d1(2) sl(1) le by (simp add: shorter_def e_def)
      moreover have "oos_ok b src L (seg_lim b (in_inseg e)) q1" using dc Cons lim by (simp add: e_def)
      ultimately show ?thesis by (rule that)
    qed
  qed
qed

section \<open>Delivery\<close>

text \<open>What the application has been given so far: the stream from o to the next expected number, less
  the FIN.\<close>

definition given :: "(nat \<Rightarrow> u8) \<Rightarrow> nat \<Rightarrow> nat \<Rightarrow> nat \<Rightarrow> pbuf list \<Rightarrow> bool" where
  "given src L o' m ps = (chain_ok ps \<and> chain_data ps = map src [o' ..< min L m])"

lemma stream_append: "o' \<le> m \<Longrightarrow> m \<le> e \<Longrightarrow> map src [o' ..< m] @ map src [m ..< e] = map src [o' ..< e]"
  by (metis le_add_diff_inverse map_append upt_add_eq_append)

lemma advance_frame:
  "rcv_nxt (advance pcb x n) = x" "ooseq (advance pcb x n) = ooseq pcb" "private_state (advance pcb x n) = private_state pcb"
  "sack_permitted (advance pcb x n) = sack_permitted pcb" "rcv_sack_block (advance pcb x n) = rcv_sack_block pcb"
  "rcv_sack_block_cnt (advance pcb x n) = rcv_sack_block_cnt pcb"
  by (simp_all add: advance_def tcp_update_rcv_ann_wnd_def Let_def)

lemma given_cat:
  assumes g: "given src L o' m ps" and c: "carries b src L s" and m: "seg_off b s = m" "o' \<le> m" and L: "stream_len L" and p: "sg_p s = p # qs"
  shows "given src L o' (seg_lim b s) (if pb_tot_len p > 0 then (if ps \<noteq> [] then pbuf_cat ps (sg_p s) else sg_p s) else ps)"
proof -
  have le: "m \<le> seg_end b s" "seg_end b s \<le> L" "min L (seg_lim b s) = seg_end b s" "min L m = m"
    using carries_le [OF c] m c by (auto simp: seg_end_def seg_lim_def carries_def)
  have cd: "chain_data (sg_p s) = map src [m ..< seg_end b s]" and ok: "chain_ok (sg_p s)" using c m by (simp_all add: carries_def)
  have gd: "chain_data ps = map src [o' ..< m]" "chain_ok ps" using g le by (simp_all add: given_def)
  have ap: "map src [o' ..< m] @ map src [m ..< seg_end b s] = map src [o' ..< seg_end b s]" using stream_append m(2) le(1) .
  have t: "unat (pb_tot_len p) = seg_end b s - m" using ok cd length_chain_data [OF ok] p by simp
  show ?thesis
  proof (cases "pb_tot_len p > 0")
    case False
    then have "seg_end b s = m" using t le(1) by (simp add: word_gt_0 unat_eq_0)
    then show ?thesis using False gd le by (simp add: given_def)
  next
    case True
    have "tot ps + tot (sg_p s) = seg_end b s - o'"
      using length_chain_data [OF ok] length_chain_data [OF gd(2)] gd cd m(2) le(1) by simp
    then have "tot ps + tot (sg_p s) < 4294967296" using le(2) L by (simp add: stream_len_def)
    then have "ps \<noteq> [] \<Longrightarrow> chain_ok (pbuf_cat ps (sg_p s)) \<and> chain_data (pbuf_cat ps (sg_p s)) = chain_data ps @ chain_data (sg_p s)"
      using pbuf_cat_correct [OF gd(2) ok] p by simp
    then show ?thesis using True gd ok cd ap le(3) by (auto simp: given_def)
  qed
qed

text \<open>One queued segment, and the loop over them.\<close>

lemma take_queued_ok:
  assumes g: "given src L o' (seq_off b (rcv_nxt pcb)) (in_recv_data d)" and c: "carries b src L c" and L: "stream_len L"
    and m: "th_seqno (sg_tcphdr c) = rcv_nxt pcb" "o' \<le> seq_off b (rcv_nxt pcb)"
  obtains pcb' nt' d' where "take_queued pcb nt d c = Some (pcb', nt', d')" "seq_off b (rcv_nxt pcb') = seg_lim b c"
    "given src L o' (seg_lim b c) (in_recv_data d')" "sack_permitted pcb' = sack_permitted pcb" "rcv_sack_block pcb' = rcv_sack_block pcb"
    "rcv_sack_block_cnt pcb' = rcv_sack_block_cnt pcb"
proof -
  have mo: "seg_off b c = seq_off b (rcv_nxt pcb)" using m(1) by (simp add: seg_off_def)
  have syn: "\<not> has_flag (sg_tcphdr c) TCP_SYN" using c by (simp add: carries_def)
  obtain p qs where p: "sg_p c = p # qs" using c by (cases "sg_p c") (auto simp: carries_def)
  have nx: "seq_off b (rcv_nxt pcb + TCP_TCPLEN c) = seg_lim b c"
    using tcplen_off(1) [OF syn, of b] carries_le [OF c] L mo seq_off_add [of b "rcv_nxt pcb" "TCP_TCPLEN c"]
    by (simp add: stream_len_def seg_lim_def seg_end_def)
  define p1 where "p1 = advance pcb (rcv_nxt pcb + TCP_TCPLEN c) (TCP_TCPLEN c)"
  define R where "R = (if pb_tot_len p > 0 then (if in_recv_data d \<noteq> [] then pbuf_cat (in_recv_data d) (sg_p c) else sg_p c) else in_recv_data d)"
  have gr: "given src L o' (seg_lim b c) R" unfolding R_def by (rule given_cat [OF g c mo m(2) L p])
  define p2 where "p2 = (if fin c \<and> get_tcp_state p1 = ESTABLISHED then set_tcp_state p1 nt CLOSE_WAIT else (p1, nt))"
  have f2: "rcv_nxt (fst p2) = rcv_nxt p1" "sack_permitted (fst p2) = sack_permitted p1" "rcv_sack_block (fst p2) = rcv_sack_block p1"
      "rcv_sack_block_cnt (fst p2) = rcv_sack_block_cnt p1"
    by (simp_all add: p2_def set_tcp_state_def)
  obtain nt' d' where r: "take_queued pcb nt d c = Some (fst p2, nt', d')" "in_recv_data d' = R"
    unfolding take_queued_def p by (simp add: Let_def split_def got_fin_def R_def p flip: p1_def p2_def)
  show ?thesis using that [OF r(1)] r(2) gr nx f2 by (simp add: p1_def advance_frame)
qed

lemma drain_ok:
  assumes "given src L o' (seq_off b (rcv_nxt pcb)) (in_recv_data d)" "oos_ok b src L (seq_off b (rcv_nxt pcb)) q" "stream_len L"
    "o' \<le> seq_off b (rcv_nxt pcb)" "seq_off b (rcv_nxt pcb) \<le> L + 1"
  shows "\<exists>pcb' nt' d'. drain pcb nt d q = Some (pcb', nt', d') \<and> given src L o' (seq_off b (rcv_nxt pcb')) (in_recv_data d')
    \<and> oos_ok b src L (seq_off b (rcv_nxt pcb')) (ooseq pcb') \<and> seq_off b (rcv_nxt pcb) \<le> seq_off b (rcv_nxt pcb')
    \<and> seq_off b (rcv_nxt pcb') \<le> L + 1 \<and> sack_permitted pcb' = sack_permitted pcb
    \<and> rcv_sack_block pcb' = rcv_sack_block pcb \<and> rcv_sack_block_cnt pcb' = rcv_sack_block_cnt pcb"
  using assms
proof (induction q arbitrary: pcb nt d)
  case Nil
  then show ?case by simp
next
  case (Cons c cs)
  have c: "carries b src L c" "seq_off b (rcv_nxt pcb) \<le> seg_off b c" "fin c \<longrightarrow> cs = []" "oos_ok b src L (seg_end b c) cs"
    using Cons.prems(2) by simp_all
  show ?case
  proof (cases "th_seqno (sg_tcphdr c) = rcv_nxt pcb")
    case False
    then show ?thesis using Cons.prems by simp
  next
    case True
    obtain p1 n1 d1 where t: "take_queued pcb nt d c = Some (p1, n1, d1)" "seq_off b (rcv_nxt p1) = seg_lim b c"
      "given src L o' (seg_lim b c) (in_recv_data d1)" "sack_permitted p1 = sack_permitted pcb" "rcv_sack_block p1 = rcv_sack_block pcb"
      "rcv_sack_block_cnt p1 = rcv_sack_block_cnt pcb"
      using take_queued_ok [OF Cons.prems(1) c(1) Cons.prems(3) True Cons.prems(4)] by metis
    have mo: "seg_off b c = seq_off b (rcv_nxt pcb)" using True by (simp add: seg_off_def)
    have le: "seq_off b (rcv_nxt pcb) \<le> seg_lim b c" "seg_lim b c \<le> L + 1"
      using mo carries_le [OF c(1)] by (simp_all add: seg_lim_def seg_end_def)
    have "oos_ok b src L (seg_lim b c) cs" using c(3,4) by (cases "fin c") (simp_all add: seg_lim_def)
    then have "\<exists>pcb' nt' d'. drain p1 n1 d1 cs = Some (pcb', nt', d') \<and> given src L o' (seq_off b (rcv_nxt pcb')) (in_recv_data d')
      \<and> oos_ok b src L (seq_off b (rcv_nxt pcb')) (ooseq pcb') \<and> seq_off b (rcv_nxt p1) \<le> seq_off b (rcv_nxt pcb')
      \<and> seq_off b (rcv_nxt pcb') \<le> L + 1 \<and> sack_permitted pcb' = sack_permitted p1
      \<and> rcv_sack_block pcb' = rcv_sack_block p1 \<and> rcv_sack_block_cnt pcb' = rcv_sack_block_cnt p1"
      using t le Cons.prems(3,4) by (intro Cons.IH) simp_all
    moreover have "drain pcb nt d (c # cs) = drain p1 n1 d1 cs" using True t(1) by simp
    ultimately show ?thesis using t le by auto
  qed
qed

text \<open>The incoming segment itself.\<close>

lemma deliver_ok:
  assumes "arrives b src L d" "in_recv_data d = []" "stream_len L"
  obtains d' where "deliver d = Some d'" "given src L (seg_off b (in_inseg d)) (seg_lim b (in_inseg d)) (in_recv_data d')"
proof -
  let ?s = "in_inseg d"
  have c: "carries b src L ?s" using assms(1) by (simp add: arrives_def)
  obtain p qs where p: "sg_p ?s = p # qs" using c by (cases "sg_p ?s") (auto simp: carries_def)
  have "given src L (seg_off b ?s) (seg_off b ?s) (in_recv_data d)" using assms(2) carries_le [OF c] by (simp add: given_def)
  from given_cat [OF this c refl order_refl assms(3) p] assms(2)
  have g: "given src L (seg_off b ?s) (seg_lim b ?s) (if pb_tot_len p > 0 then sg_p ?s else [])" by (simp split: if_splits)
  have "\<exists>d'. deliver d = Some d' \<and> in_recv_data d' = (if pb_tot_len p > 0 then sg_p ?s else [])"
    using p assms(2) by (simp add: deliver_def Let_def got_fin_def)
  then show ?thesis using that g by auto
qed

text \<open>The blocks of the receiver fit into their array.\<close>

definition sack_fits :: "tcp_pcb \<Rightarrow> bool" where
  "sack_fits pcb = (length (rcv_sack_block pcb) = LWIP_TCP_SACK_BLOCK_LEN \<and> unat (rcv_sack_block_cnt pcb) \<le> LWIP_TCP_SACK_BLOCK_LEN)"

lemma trim_blocks_len: "length (trim_blocks x bs) \<le> length bs"
  by (induction bs) auto

lemma trim_sack_ok:
  assumes "sack_fits pcb"
  obtains pcb' where "trim_sack pcb = Some pcb'" "sack_fits pcb'" "rcv_nxt pcb' = rcv_nxt pcb" "ooseq pcb' = ooseq pcb"
    "private_state pcb' = private_state pcb"
proof -
  define bs where "bs = trim_blocks (rcv_nxt pcb) (take (unat (rcv_sack_block_cnt pcb)) (rcv_sack_block pcb))"
  have "length bs \<le> 16"
    using assms trim_blocks_len [of "rcv_nxt pcb" "take (unat (rcv_sack_block_cnt pcb)) (rcv_sack_block pcb)"]
    by (simp add: bs_def sack_fits_def LWIP_TCP_SACK_BLOCK_LEN_def)
  moreover from this have "unat (of_nat (length bs) :: u8) = length bs" by (simp add: unat_of_nat take_bit_nat_eq_self)
  ultimately have r: "sack_fits (pcb\<lparr>rcv_sack_block := bs @ replicate (LWIP_TCP_SACK_BLOCK_LEN - length bs) no_block,
      rcv_sack_block_cnt := of_nat (length bs)\<rparr>)" by (simp add: sack_fits_def LWIP_TCP_SACK_BLOCK_LEN_def)
  show ?thesis
  proof (cases "sack_permitted pcb \<noteq> 0 \<and> rcv_sack_block_cnt pcb \<noteq> 0")
    case True
    then have "trim_sack pcb = Some (pcb\<lparr>rcv_sack_block := bs @ replicate (LWIP_TCP_SACK_BLOCK_LEN - length bs) no_block,
      rcv_sack_block_cnt := of_nat (length bs)\<rparr>)" using assms by (simp add: trim_sack_def sack_fits_def bs_def Let_def)
    then show ?thesis using that r by simp
  next
    case False
    then have "trim_sack pcb = Some pcb" unfolding trim_sack_def by (simp only: if_False)
    then show ?thesis using that assms by simp
  qed
qed

section \<open>The whole step\<close>

text \<open>The invariant of the receiver.\<close>

definition reass_ok :: "u32 \<Rightarrow> (nat \<Rightarrow> u8) \<Rightarrow> nat \<Rightarrow> tcp_pcb \<Rightarrow> bool" where
  "reass_ok b src L pcb = (seq_off b (rcv_nxt pcb) \<le> L + 1 \<and> oos_ok b src L (seq_off b (rcv_nxt pcb)) (ooseq pcb) \<and> sack_fits pcb)"

lemma in_sequence_ok:
  assumes r: "reass_ok b src L pcb" and L: "stream_len L" and d: "carries b src L (in_inseg d)" "th_seqno (sg_tcphdr (in_inseg d)) = in_seqno d"
    "in_seqno d = rcv_nxt pcb" "in_recv_data d = []" "unat (sg_len (in_inseg d)) < 65535"
  shows "\<exists>pcb' nt' d'. in_sequence pcb nt d = Some (pcb', nt', d') \<and> reass_ok b src L pcb'
    \<and> given src L (seq_off b (rcv_nxt pcb)) (seq_off b (rcv_nxt pcb')) (in_recv_data d')
    \<and> seq_off b (rcv_nxt pcb) \<le> seq_off b (rcv_nxt pcb')"
proof -
  define m where "m = seq_off b (rcv_nxt pcb)"
  have m: "seg_off b (in_inseg d) = m" "m \<le> L" using d carries_le [OF d(1)] by (simp_all add: m_def seg_off_def)
  obtain d1 f where t: "trim_to_window pcb nt d = Some (d1, nt\<lparr>nt_pbuf_free := f\<rparr>)" "arrives b src L d1" "shorter d d1"
    using trim_to_window_ok [OF d(1,2,5)] by blast
  have o1: "seg_off b (in_inseg d1) = m" using arrives_off(1) [OF t(2) L] t(3) d(3) by (simp add: shorter_def m_def)
  have l1: "unat (sg_len (in_inseg d1)) < 65535" using t(3) d(5) by (simp add: shorter_def)
  have q1: "oos_ok b src L (seg_off b (in_inseg d1)) (ooseq pcb)" using r o1 by (simp add: reass_ok_def m_def)
  obtain d2 n2 q2 where a: "adjust_ooseq pcb (nt\<lparr>nt_pbuf_free := f\<rparr>) d1 = Some (pcb\<lparr>ooseq := q2\<rparr>, n2, d2)" "arrives b src L d2" "shorter d1 d2"
      "oos_ok b src L (seg_lim b (in_inseg d2)) q2"
    using adjust_ooseq_ok [OF t(2) L q1 l1] by metis
  have o2: "seg_off b (in_inseg d2) = m" using arrives_off(1) [OF t(2) L] arrives_off(1) [OF a(2) L] a(3) o1 by (simp add: shorter_def)
  have rd: "in_recv_data d2 = []" using a(3) t(3) d(4) by (simp add: shorter_def)
  define p3 where "p3 = advance (pcb\<lparr>ooseq := q2\<rparr>) (in_seqno d2 + ucast (in_tcplen d2)) (ucast (in_tcplen d2))"
  have n3: "seq_off b (rcv_nxt p3) = seg_lim b (in_inseg d2)" and q3: "ooseq p3 = q2"
    using arrives_off(2) [OF a(2) L] by (simp_all add: p3_def advance_frame)
  obtain d3 where v: "deliver d2 = Some d3" "given src L m (seg_lim b (in_inseg d2)) (in_recv_data d3)"
    using deliver_ok [OF a(2) rd L] o2 by metis
  have ml: "m \<le> seg_lim b (in_inseg d2)" using o2 by (simp add: seg_lim_def seg_end_def)
  obtain p4 n4 d4 where w: "drain p3 n2 d3 q2 = Some (p4, n4, d4)" "given src L m (seq_off b (rcv_nxt p4)) (in_recv_data d4)"
      "oos_ok b src L (seq_off b (rcv_nxt p4)) (ooseq p4)" "seq_off b (rcv_nxt p3) \<le> seq_off b (rcv_nxt p4)" "seq_off b (rcv_nxt p4) \<le> L + 1"
      "rcv_sack_block p4 = rcv_sack_block p3" "rcv_sack_block_cnt p4 = rcv_sack_block_cnt p3"
    using drain_ok [of src L m b p3 d3 q2 n2] v(2) a(4) n3 L ml arrives_off(5) [OF a(2) L] by auto
  have "sack_fits p4" using r w(6,7) by (simp add: p3_def advance_frame reass_ok_def sack_fits_def)
  then obtain p5 where z: "trim_sack p4 = Some p5" "sack_fits p5" "rcv_nxt p5 = rcv_nxt p4" "ooseq p5 = ooseq p4"
    using trim_sack_ok by metis
  have "in_sequence pcb nt d = Some (tcp_ack_now p5, n4, d4)"
    unfolding in_sequence_def using t(1) a(1) v(1) w(1) z(1) q3 by (simp add: Let_def flip: p3_def)
  moreover have "reass_ok b src L (tcp_ack_now p5)" using z w by (simp add: reass_ok_def tcp_ack_now_def set_flag_def sack_fits_def)
  moreover have "rcv_nxt (tcp_ack_now p5) = rcv_nxt p4" using z by (simp add: tcp_ack_now_def set_flag_def)
  ultimately show ?thesis using w ml n3 by (simp add: m_def)
qed

end
