(* ===== verification/Tcp_Reass_Oos.thy ===== *)
theory Tcp_Reass_Oos
  imports Tcp_Reass_Seq
begin

text \<open>
  Reassembly, a segment out of sequence: a copy of it goes into the queue, which
  stays in order, without overlap, and carries the stream.
\<close>

section \<open>Copies\<close>

lemma copy_carries:
  assumes "carries b src L s"
  shows "carries b src L (s\<lparr>sg_addr := a, sg_p := pbuf_ref (sg_p s)\<rparr>)"
proof -
  obtain p ps where p: "sg_p s = p # ps" using assms by (cases "sg_p s") (auto simp: carries_def)
  have "pb_data (p\<lparr>pb_ref := r\<rparr>) = pb_data p" for r by (simp add: pb_data_def)
  then show ?thesis using assms p by (simp add: carries_def seg_off_def seg_end_def)
qed

text \<open>The copy that tcp_seg_copy makes, when there is memory.\<close>

definition is_copy :: "tcp_seg \<Rightarrow> tcp_seg \<Rightarrow> bool" where
  "is_copy s c = (\<exists>a. c = s\<lparr>sg_addr := a, sg_p := pbuf_ref (sg_p s)\<rparr>)"

lemma seg_copy: "tcp_seg_copy ev nt s = (Some c, nt') \<Longrightarrow> is_copy s c"
  by (auto simp: tcp_seg_copy_def is_copy_def Let_def split: option.splits)

lemma is_copy:
  assumes "is_copy s c"
  shows "carries b src L s \<Longrightarrow> carries b src L c" "sg_len c = sg_len s" "sg_tcphdr c = sg_tcphdr s" "seg_off b c = seg_off b s"
    "seg_end b c = seg_end b s" "seg_lim b c = seg_lim b s" "TCP_TCPLEN c = TCP_TCPLEN s"
  using assms copy_carries by (auto simp: is_copy_def TCP_TCPLEN_def)

section \<open>Inserting\<close>

lemma oos_drop_ok:
  assumes "oos_drop sq nt c ns = (nt', c', ns')" "carries b src L c" "stream_len L" "oos_ok b src L lo ns"
    "fin c \<longrightarrow> ns = []" "seg_off b c \<le> lo" "sq = th_seqno (sg_tcphdr c)"
  shows "carries b src L c' \<and> seg_off b c' = seg_off b c \<and> sg_len c' = sg_len c \<and> th_seqno (sg_tcphdr c') = th_seqno (sg_tcphdr c)
    \<and> oos_ok b src L lo ns' \<and> (fin c' \<longrightarrow> ns' = []) \<and> (fin c \<longrightarrow> fin c')
    \<and> (ns' \<noteq> [] \<longrightarrow> seg_end b c < seg_end b (hd ns') \<and> (ns' = ns \<or> seg_off b c < seg_off b (hd ns')))"
  using assms
proof (induction sq nt c ns arbitrary: lo rule: oos_drop.induct)
  case (1 sq nt c)
  then show ?case by simp
next
  case (2 sq nt c n ns)
  have n: "carries b src L n" "lo \<le> seg_off b n" "seg_off b n < seg_lim b n" "fin n \<longrightarrow> ns = []" "oos_ok b src L (seg_end b n) ns"
    using "2.prems"(4) by simp_all
  have f: "\<not> fin c" using "2.prems"(5) by auto
  have g: "TCP_SEQ_GEQ (sq + ucast (sg_len c)) (th_seqno (sg_tcphdr n) + ucast (sg_len n)) = (seg_end b n \<le> seg_end b c)"
    using off_end [OF n(1) "2.prems"(3)] off_end [OF "2.prems"(2,3)] carries_le [OF n(1)] carries_le [OF "2.prems"(2)] "2.prems"(3,7)
    by (simp add: seq_geq_near [of b] stream_len_def)
  show ?case
  proof (cases "seg_end b n \<le> seg_end b c")
    case False
    then show ?thesis using "2.prems" g f by auto
  next
    case True
    define e where "e = (if fin n then add_fin c else c)"
    have fe: "fin n \<Longrightarrow> seg_end b c = L" using True n(1) carries_le [OF "2.prems"(2)] by (simp add: carries_def)
    have e: "carries b src L e" "sg_len e = sg_len c" "th_seqno (sg_tcphdr e) = th_seqno (sg_tcphdr c)" "seg_off b e = seg_off b c" "fin e \<longrightarrow> ns = []"
      using "2.prems"(2) add_fin_seg [OF "2.prems"(2) fe] n(4) f by (auto simp: e_def)
    have r: "oos_drop sq (tcp_seg_free nt n) e ns = (nt', c', ns')"
      using "2.prems"(1) g True e(3) by (cases "fin n") (simp_all add: e_def add_fin_def)
    have g1: "TCP_SEQ_GEQ (sq + ucast (sg_len c)) (th_seqno (sg_tcphdr n) + ucast (sg_len n))" using g True by simp
    have lo: "lo \<le> seg_end b n" "ns \<noteq> [] \<Longrightarrow> seg_off b n < seg_end b n" using n by (auto simp: seg_end_def seg_lim_def)
    have IH: "carries b src L c' \<and> seg_off b c' = seg_off b e \<and> sg_len c' = sg_len e \<and> th_seqno (sg_tcphdr c') = th_seqno (sg_tcphdr e)
      \<and> oos_ok b src L (seg_end b n) ns' \<and> (fin c' \<longrightarrow> ns' = []) \<and> (fin e \<longrightarrow> fin c')
      \<and> (ns' \<noteq> [] \<longrightarrow> seg_end b e < seg_end b (hd ns') \<and> (ns' = ns \<or> seg_off b e < seg_off b (hd ns')))"
      using "2.IH" [of "seg_end b n"] g1 r [unfolded e_def add_fin_def] e [unfolded e_def add_fin_def] n(5) "2.prems"(3,6,7) lo(1)
      unfolding e_def add_fin_def by simp
    have "seg_off b c < seg_off b (hd ns')" if "ns' \<noteq> []"
    proof (cases "ns' = ns")
      case True
      then have "seg_end b n \<le> seg_off b (hd ns')" using n(5) that by (cases ns) auto
      then show ?thesis using lo(2) True that n(2) "2.prems"(6) by simp
    next
      case False
      then show ?thesis using IH that e(4) by simp
    qed
    moreover have "seg_end b e = seg_end b c" using e by (simp add: seg_end_def)
    ultimately show ?thesis using IH e f oos_ok_mono [OF _ lo(1)] by auto
  qed
qed

text \<open>Cutting a segment where another one starts.\<close>

lemma cut_len:
  assumes "seg_off b s \<le> x" "x - seg_off b s \<le> unat (sg_len s)" "seq_off b y = x"
  shows "unat (ucast (y - th_seqno (sg_tcphdr s)) :: u16) = x - seg_off b s"
proof -
  have "unat (y - th_seqno (sg_tcphdr s)) = x - seg_off b s"
    using seq_off_minus [of b "th_seqno (sg_tcphdr s)" y] assms(1,3) by (simp add: seg_off_def)
  moreover have "x - seg_off b s < 65536" using assms(2) unat_lt16 [of "sg_len s"] by linarith
  ultimately show ?thesis by (simp add: unsigned_ucast_eq unsigned_take_bit_eq take_bit_nat_eq_self)
qed

lemma insert_segment_ok:
  assumes c: "carries b src L c" "seg_off b c < seg_lim b c" and L: "stream_len L" and q: "oos_ok b src L (seg_off b c) ns"
    and n: "ns \<noteq> [] \<Longrightarrow> seg_off b c < seg_off b (hd ns) \<or> seg_end b (hd ns) < seg_end b c"
  obtains r nt' where "tcp_oos_insert_segment (th_seqno (sg_tcphdr c)) nt c ns = Some (r, nt')" "oos_ok b src L (seg_off b c) r"
proof (cases "fin c")
  case True
  then show ?thesis using that c by (simp add: tcp_oos_insert_segment_def)
next
  case False
  obtain n1 c1 ns1 where r: "oos_drop (th_seqno (sg_tcphdr c)) nt c ns = (n1, c1, ns1)" by (metis prod_cases3)
  have d: "carries b src L c1" "seg_off b c1 = seg_off b c" "sg_len c1 = sg_len c" "th_seqno (sg_tcphdr c1) = th_seqno (sg_tcphdr c)"
      "oos_ok b src L (seg_off b c) ns1" "fin c1 \<longrightarrow> ns1 = []"
      "ns1 \<noteq> [] \<longrightarrow> seg_end b c < seg_end b (hd ns1) \<and> (ns1 = ns \<or> seg_off b c < seg_off b (hd ns1))"
    using oos_drop_ok [OF r c(1) L q _ order_refl refl] False by auto
  have e: "seg_end b c1 = seg_end b c" using d by (simp add: seg_end_def)
  have lim: "seg_off b c1 < seg_lim b c1" using c(2) False d(2) e by (simp add: seg_lim_def)
  show ?thesis
  proof (cases ns1)
    case Nil
    then show ?thesis using that [of "[c1]" n1] False r d lim by (simp add: tcp_oos_insert_segment_def)
  next
    case (Cons m ms)
    have m: "carries b src L m" "seg_off b c < seg_off b m" "\<not> fin c1" using d(5,6,7) n Cons by auto
    have g: "TCP_SEQ_GT (th_seqno (sg_tcphdr c) + ucast (sg_len c1)) (th_seqno (sg_tcphdr m)) = (seg_off b m < seg_end b c1)"
      using off_end [OF d(1) L] carries_le [OF d(1)] carries_le [OF m(1)] L d(4)
      by (simp add: seg_off_def seq_gt_near [of b] stream_len_def)
    show ?thesis
    proof (cases "seg_off b m < seg_end b c1")
      case False
      then have "tcp_oos_insert_segment (th_seqno (sg_tcphdr c)) nt c ns = Some (c1 # ns1, n1)"
        using \<open>\<not> fin c\<close> r g Cons by (simp add: tcp_oos_insert_segment_def)
      moreover have "oos_ok b src L (seg_end b c1) ns1" using d(5) False Cons by simp
      then have "oos_ok b src L (seg_off b c) (c1 # ns1)" using d(1,2,6) lim by simp
      ultimately show ?thesis by (rule that)
    next
      case True
      let ?l = "ucast (th_seqno (sg_tcphdr m) - th_seqno (sg_tcphdr c)) :: u16"
      have ul: "unat ?l = seg_off b m - seg_off b c"
      proof (rule cut_len)
        show "seg_off b c \<le> seg_off b m" using m(2) by simp
        show "seg_off b m - seg_off b c \<le> unat (sg_len c)" using True e by (simp add: seg_end_def)
        show "seq_off b (th_seqno (sg_tcphdr m)) = seg_off b m" by (simp add: seg_off_def)
      qed
      have le: "unat ?l \<le> unat (sg_len c1)" unfolding ul using True d(2) by (simp add: seg_end_def)
      obtain k f where k: "trim_seg n1 c1 ?l = Some (c1\<lparr>sg_len := ?l, sg_p := k\<rparr>, n1\<lparr>nt_pbuf_free := f\<rparr>)"
          "carries b src L (c1\<lparr>sg_len := ?l, sg_p := k\<rparr>)"
        using trim_seg_ok [OF d(1) le, of n1] m(3) by metis
      have e1: "seg_off b c + unat ?l = seg_off b m" unfolding ul using m(2) by simp
      have "oos_ok b src L (seg_off b m) ns1" using d(5) Cons by simp
      then have "oos_ok b src L (seg_off b c) (c1\<lparr>sg_len := ?l, sg_p := k\<rparr> # ns1)"
        using k(2) d(2) e1 m(2,3) by (simp add: seg_lim_def)
      moreover have "tcp_oos_insert_segment (th_seqno (sg_tcphdr c)) nt c ns = Some (c1\<lparr>sg_len := ?l, sg_p := k\<rparr> # ns1, n1\<lparr>nt_pbuf_free := f\<rparr>)"
        using \<open>\<not> fin c\<close> r g True k(1) Cons by (simp add: tcp_oos_insert_segment_def)
      ultimately show ?thesis using that by blast
    qed
  qed
qed

lemma cut_at_ok:
  assumes c: "carries b src L s" and L: "stream_len L" and o: "seg_off b s < seq_off b y" "seq_off b y \<le> L" and f: "\<not> fin s"
  obtains s' nt' where "cut_at nt s y = Some (s', nt')" "carries b src L s'" "seg_off b s' = seg_off b s" "seg_end b s' \<le> seq_off b y"
    "seg_off b s < seg_lim b s \<Longrightarrow> seg_off b s' < seg_lim b s'" "\<not> fin s'"
proof -
  have g: "TCP_SEQ_GT (th_seqno (sg_tcphdr s) + ucast (sg_len s)) y = (seq_off b y < seg_end b s)"
    using off_end [OF c L] carries_le [OF c] L o(2) by (simp add: seq_gt_near [of b] stream_len_def)
  show ?thesis
  proof (cases "seq_off b y < seg_end b s")
    case False
    then show ?thesis using that c f g by (simp add: cut_at_def)
  next
    case True
    let ?l = "ucast (y - th_seqno (sg_tcphdr s)) :: u16"
    have ul: "unat ?l = seq_off b y - seg_off b s" using cut_len [of b s "seq_off b y" y] o(1) True by (simp add: seg_end_def)
    have le: "unat ?l \<le> unat (sg_len s)" unfolding ul using True by (simp add: seg_end_def)
    obtain k fr where k: "trim_seg nt s ?l = Some (s\<lparr>sg_len := ?l, sg_p := k\<rparr>, nt\<lparr>nt_pbuf_free := fr\<rparr>)"
        "carries b src L (s\<lparr>sg_len := ?l, sg_p := k\<rparr>)"
      using trim_seg_ok [OF c le, of nt] f by metis
    show ?thesis
      by (rule that [of "s\<lparr>sg_len := ?l, sg_p := k\<rparr>" "nt\<lparr>nt_pbuf_free := fr\<rparr>"]) (use k g True ul o(1) f in \<open>simp_all add: cut_at_def seg_lim_def\<close>)
  qed
qed

section \<open>Appending\<close>

text \<open>The test of the right edge when a segment is appended compares plain numbers: it is right as long
  as the window does not reach the end of the number range.\<close>

definition win_fits :: "tcp_pcb \<Rightarrow> tcp_in_data \<Rightarrow> bool" where
  "win_fits pcb d = (unat (in_seqno d - rcv_nxt pcb) < unat (rcv_wnd pcb)
     \<and> unat (rcv_nxt pcb) + unat (rcv_wnd pcb) + 65536 \<le> 4294967296)"

lemma win_words:
  assumes "win_fits pcb d"
  shows "((ucast (in_tcplen d) :: u32) + in_seqno d > rcv_nxt pcb + rcv_wnd pcb)
      = (unat (rcv_wnd pcb) < unat (in_seqno d - rcv_nxt pcb) + unat (in_tcplen d))" (is ?A)
    "unat (rcv_wnd pcb) < unat (in_seqno d - rcv_nxt pcb) + unat (in_tcplen d) \<Longrightarrow>
      unat (ucast (rcv_nxt pcb + rcv_wnd pcb - in_seqno d) :: u16) = unat (rcv_wnd pcb) - unat (in_seqno d - rcv_nxt pcb)" (is "?B \<Longrightarrow> ?C")
proof -
  define k where "k = unat (in_seqno d - rcv_nxt pcb)"
  have k: "k < unat (rcv_wnd pcb)" "unat (rcv_nxt pcb) + unat (rcv_wnd pcb) + 65536 \<le> 4294967296"
    using assms by (simp_all add: win_fits_def k_def)
  have "unat (rcv_nxt pcb + (in_seqno d - rcv_nxt pcb)) = unat (rcv_nxt pcb) + unat (in_seqno d - rcv_nxt pcb)"
    using k unfolding k_def by (intro unat_plus32) linarith
  then have s: "unat (in_seqno d) = unat (rcv_nxt pcb) + k" by (simp add: k_def)
  have t: "unat (in_tcplen d) < 65536" using unat_lt16 .
  have e: "unat (rcv_nxt pcb + rcv_wnd pcb) = unat (rcv_nxt pcb) + unat (rcv_wnd pcb)" using k by (intro unat_plus32) linarith
  have "unat ((ucast (in_tcplen d) :: u32) + in_seqno d) = unat (ucast (in_tcplen d) :: u32) + unat (in_seqno d)"
    using k s t unat_ucast16_32 [of "in_tcplen d"] by (intro unat_plus32) linarith
  then show ?A using e s by (simp add: word_less_nat_alt k_def) linarith
  have "unat (rcv_nxt pcb + rcv_wnd pcb - in_seqno d) = unat (rcv_nxt pcb + rcv_wnd pcb) - unat (in_seqno d)"
    using e s k(1) by (intro unat_minus32) (simp add: word_le_nat_alt)
  then have v: "unat (rcv_nxt pcb + rcv_wnd pcb - in_seqno d) = unat (rcv_wnd pcb) - k" using e s by linarith
  show ?C if ?B
  proof -
    have "unat (rcv_wnd pcb) - k < 65536" using that t unfolding k_def by linarith
    then show ?thesis unfolding k_def [symmetric] unsigned_ucast_eq unsigned_take_bit_eq v by (simp add: take_bit_nat_eq_self)
  qed
qed

lemma append_oos_ok:
  assumes a: "arrives b src L d" "seg_off b (in_inseg d) < seg_lim b (in_inseg d)" and L: "stream_len L" and w: "win_fits pcb d"
    and n: "carries b src L n" "seg_off b n < seg_lim b n" "seg_off b n < seg_off b (in_inseg d)"
  shows "\<exists>q x nt' d'. append_oos ev pcb nt d n = Some (q, x, nt', d') \<and> oos_ok b src L (seg_off b n) q \<and> in_recv_data d' = in_recv_data d"
proof (cases "fin n")
  case True
  then show ?thesis using n by (simp add: append_oos_def)
next
  case False
  obtain c1 n1 where cp: "tcp_seg_copy ev nt (in_inseg d) = (c1, n1)" by fastforce
  show ?thesis
  proof (cases c1)
    case None
    then show ?thesis using False n cp by (simp add: append_oos_def)
  next
    case (Some c)
    let ?s = "in_inseg d"
    have ic: "is_copy ?s c" using seg_copy cp Some by metis
    have cs: "carries b src L ?s" "th_seqno (sg_tcphdr ?s) = in_seqno d" using a(1) by (simp_all add: arrives_def)
    note ics = is_copy [OF ic]
    have cc: "carries b src L c" using ics(1) cs(1) .
    have so: "seq_off b (in_seqno d) = seg_off b ?s" using cs(2) by (simp add: seg_off_def)
    have sl: "seg_off b ?s \<le> L" using carries_le [OF cs(1)] by simp
    obtain m n2 where m: "cut_at n1 n (in_seqno d) = Some (m, n2)" "carries b src L m" "seg_off b m = seg_off b n" "seg_end b m \<le> seg_off b ?s"
        "seg_off b m < seg_lim b m" "\<not> fin m"
      using cut_at_ok [OF n(1) L, of "in_seqno d" n1] n(2,3) so sl False by metis
    show ?thesis
    proof (cases "(ucast (in_tcplen d) :: u32) + in_seqno d > rcv_nxt pcb + rcv_wnd pcb")
      case no: False
      have "append_oos ev pcb nt d n = Some ([m, c], Some (sg_addr c), n2, d)"
        using False cp Some m(1) no by (simp add: append_oos_def)
      moreover have "oos_ok b src L (seg_off b n) [m, c]" using m cc ics a(2) by simp
      ultimately show ?thesis by blast
    next
      case over: True
      let ?l = "ucast (rcv_nxt pcb + rcv_wnd pcb - in_seqno d) :: u16"
      have t: "unat (in_tcplen d) = seg_lim b ?s - seg_off b ?s"
        using tcplen_off(1) [of ?s b] a(1) cs(1) unat_ucast16_32 [of "in_tcplen d"] by (simp add: arrives_def carries_def)
      note win = win_words [OF w]
      have ul: "unat ?l = unat (rcv_wnd pcb) - unat (in_seqno d - rcv_nxt pcb)" "unat (rcv_wnd pcb) < unat (in_seqno d - rcv_nxt pcb) + unat (in_tcplen d)"
        using win over by simp_all
      have pos: "0 < unat ?l" using ul w by (simp add: win_fits_def)
      have "unat (in_tcplen d) \<le> unat (sg_len ?s) + 1" using t by (simp add: seg_lim_def seg_end_def)
      then have le: "unat ?l \<le> unat (sg_len (clear_fin c))" using ul clear_fin_seg(4) [OF cc] ics(2) by simp
      note cf = clear_fin_seg [OF cc]
      obtain k f where k: "trim_seg n2 (clear_fin c) ?l = Some ((clear_fin c)\<lparr>sg_len := ?l, sg_p := k\<rparr>, n2\<lparr>nt_pbuf_free := f\<rparr>)"
          "carries b src L ((clear_fin c)\<lparr>sg_len := ?l, sg_p := k\<rparr>)"
        using trim_seg_ok [OF cf(1) le, of n2] cf(2) by metis
      define c' where "c' = (clear_fin c)\<lparr>sg_len := ?l, sg_p := k\<rparr>"
      have "append_oos ev pcb nt d n = Some ([m, c'], Some (sg_addr c'), n2\<lparr>nt_pbuf_free := f\<rparr>, d\<lparr>in_tcplen := ucast (TCP_TCPLEN c')\<rparr>)"
        using False cp Some m(1) over k(1) by (simp add: append_oos_def c'_def)
      moreover have "carries b src L c'" "seg_off b c' = seg_off b ?s" "seg_off b c' < seg_lim b c'"
        using k(2) cf(3) ics(4) pos by (simp_all add: c'_def seg_lim_def)
      then have "oos_ok b src L (seg_off b n) [m, c']" using m by simp
      ultimately show ?thesis by auto
    qed
  qed
qed

section \<open>The walk over the queue\<close>

lemma insert_copy_ok:
  assumes a: "arrives b src L d" "seg_off b (in_inseg d) < seg_lim b (in_inseg d)" and L: "stream_len L"
    and q: "oos_ok b src L (seg_off b (in_inseg d)) q" "q \<noteq> [] \<Longrightarrow> seg_off b (in_inseg d) < seg_off b (hd q) \<or> seg_end b (hd q) < seg_end b (in_inseg d)"
  shows "\<exists>r x nt' d'. insert_copy ev nt d q = Some (r, x, nt', d') \<and> oos_ok b src L (seg_off b (in_inseg d)) r \<and> in_recv_data d' = in_recv_data d"
proof -
  obtain c1 n1 where cp: "tcp_seg_copy ev nt (in_inseg d) = (c1, n1)" by fastforce
  show ?thesis
  proof (cases c1)
    case None
    then show ?thesis using q cp by (simp add: insert_copy_def)
  next
    case (Some c)
    have ic: "is_copy (in_inseg d) c" using seg_copy cp Some by metis
    note ics = is_copy [OF ic]
    have sq: "th_seqno (sg_tcphdr c) = in_seqno d" using ics(3) a(1) by (simp add: arrives_def)
    obtain r n2 where r: "tcp_oos_insert_segment (th_seqno (sg_tcphdr c)) n1 c q = Some (r, n2)" "oos_ok b src L (seg_off b c) r"
      using insert_segment_ok [of b src L c q n1] ics a q L by (simp add: arrives_def) metis
    then show ?thesis using cp Some ics sq by (simp add: insert_copy_def)
  qed
qed

text \<open>The queue that the walk has before it, with the previous segment.\<close>

definition before :: "tcp_seg option \<Rightarrow> tcp_seg list" where
  "before prev = (case prev of None \<Rightarrow> [] | Some p \<Rightarrow> [p])"

lemma oos_ok_replace:
  assumes "oos_ok b src L lo (before prev @ q)" "q \<noteq> []" "oos_ok b src L (seg_off b (hd q)) r"
  shows "oos_ok b src L lo (before prev @ r)"
proof (cases prev)
  case None
  then show ?thesis using assms by (cases q) (auto simp: before_def intro: oos_ok_mono)
next
  case (Some p)
  then show ?thesis using assms by (cases q) (auto simp: before_def intro: oos_ok_mono)
qed

lemma not_between:
  assumes L: "stream_len L" and x: "seq_off b x \<le> L" "seg_off b n < seq_off b x"
  shows "\<not> TCP_SEQ_BETWEEN x y (th_seqno (sg_tcphdr n) - 1)"
proof -
  have "unat (x - th_seqno (sg_tcphdr n)) = seq_off b x - seg_off b n" using x by (simp add: seg_off_def seq_off_minus)
  then have "unat (x - th_seqno (sg_tcphdr n) + 1) = seq_off b x - seg_off b n + 1"
    using x L unat_plus32 [of "x - th_seqno (sg_tcphdr n)" 1] by (simp add: stream_len_def)
  moreover have "x - (th_seqno (sg_tcphdr n) - 1) = x - th_seqno (sg_tcphdr n) + 1" by simp
  ultimately have "unat (x - (th_seqno (sg_tcphdr n) - 1)) = seq_off b x - seg_off b n + 1" by (simp only:)
  then have u: "0 < unat (x - (th_seqno (sg_tcphdr n) - 1))" "unat (x - (th_seqno (sg_tcphdr n) - 1)) < 2147483648"
    using x L by (simp_all add: stream_len_def)
  have "x \<noteq> th_seqno (sg_tcphdr n) - 1" using u(1) by auto
  then show ?thesis using u(2) by (simp add: TCP_SEQ_BETWEEN_def seq_leq_iff seq_lt_unat)
qed

lemma walk_between:
  assumes a: "arrives b src L d" "seg_off b (in_inseg d) < seg_lim b (in_inseg d)" and L: "stream_len L"
    and q: "oos_ok b src L lo (p # n # ns)" "seg_off b p < seg_off b (in_inseg d)" "seg_off b (in_inseg d) < seg_off b n"
  shows "TCP_SEQ_BETWEEN (in_seqno d) (th_seqno (sg_tcphdr p) + 1) (th_seqno (sg_tcphdr n) - 1)"
    "\<exists>r x nt' d'. (case tcp_seg_copy ev nt (in_inseg d) of
         (None, nt) \<Rightarrow> Some (p # n # ns, None, nt, d)
       | (Some c, nt) \<Rightarrow> do {
           (p, nt) \<leftarrow> cut_at nt p (in_seqno d);
           (q, nt) \<leftarrow> tcp_oos_insert_segment (in_seqno d) nt c (n # ns);
           Some (p # q, Some (sg_addr c), nt, d)
         }) = Some (r, x, nt', d') \<and> oos_ok b src L lo r \<and> in_recv_data d' = in_recv_data d"
proof -
  let ?s = "in_inseg d"
  have cs: "carries b src L ?s" "th_seqno (sg_tcphdr ?s) = in_seqno d" using a(1) by (simp_all add: arrives_def)
  have so: "seq_off b (in_seqno d) = seg_off b ?s" "seg_off b ?s \<le> L" using cs(2) carries_le [OF cs(1)] by (simp_all add: seg_off_def)
  have p: "carries b src L p" "seg_off b p < seg_lim b p" "\<not> fin p" "lo \<le> seg_off b p" "oos_ok b src L (seg_off b n) (n # ns)"
      "seg_off b n \<le> L"
    using q(1) carries_le [of b src L n] by auto
  have o1: "seq_off b (th_seqno (sg_tcphdr p) + 1) = seg_off b p + 1"
    using seq_off_add [of b "th_seqno (sg_tcphdr p)" 1] q(2,3) p(6) L by (simp add: seg_off_def stream_len_def)
  have o2: "seq_off b (th_seqno (sg_tcphdr n) - 1) = seg_off b n - 1"
    using seq_off_minus1 [of b "th_seqno (sg_tcphdr n)"] q(3) by (simp add: seg_off_def)
  show "TCP_SEQ_BETWEEN (in_seqno d) (th_seqno (sg_tcphdr p) + 1) (th_seqno (sg_tcphdr n) - 1)"
    using o1 o2 so q(2,3) p(6) L by (simp add: TCP_SEQ_BETWEEN_def seq_geq_near [of b] seq_leq_near [of b] stream_len_def)
  obtain c1 n1 where cp: "tcp_seg_copy ev nt ?s = (c1, n1)" by fastforce
  show "\<exists>r x nt' d'. (case tcp_seg_copy ev nt ?s of
         (None, nt) \<Rightarrow> Some (p # n # ns, None, nt, d)
       | (Some c, nt) \<Rightarrow> do {
           (p, nt) \<leftarrow> cut_at nt p (in_seqno d);
           (q, nt) \<leftarrow> tcp_oos_insert_segment (in_seqno d) nt c (n # ns);
           Some (p # q, Some (sg_addr c), nt, d)
         }) = Some (r, x, nt', d') \<and> oos_ok b src L lo r \<and> in_recv_data d' = in_recv_data d"
  proof (cases c1)
    case None
    then show ?thesis using cp q(1) by simp
  next
    case (Some c)
    have ic: "is_copy ?s c" using seg_copy cp Some by metis
    note ics = is_copy [OF ic]
    have sq: "th_seqno (sg_tcphdr c) = in_seqno d" using ics(3) cs(2) by simp
    obtain p' n2 where c: "cut_at n1 p (in_seqno d) = Some (p', n2)" "carries b src L p'" "seg_off b p' = seg_off b p" "seg_end b p' \<le> seg_off b ?s"
        "seg_off b p' < seg_lim b p'" "\<not> fin p'"
      using cut_at_ok [OF p(1) L, of "in_seqno d" n1] p(2,3) so q(2) by metis
    have "oos_ok b src L (seg_off b c) (n # ns)" using oos_ok_mono [OF p(5), of "seg_off b c"] ics(4) q(3) by simp
    then obtain r n3 where r: "tcp_oos_insert_segment (th_seqno (sg_tcphdr c)) n2 c (n # ns) = Some (r, n3)" "oos_ok b src L (seg_off b c) r"
      using insert_segment_ok [of b src L c "n # ns" n2] ics a cs L q(3) by auto
    have "oos_ok b src L lo (p' # r)" using c p(4) oos_ok_mono [OF r(2)] ics(4) by simp
    then show ?thesis using cp Some c(1) r(1) sq by simp
  qed
qed

lemma oos_walk_ok:
  assumes a: "arrives b src L d" "seg_off b (in_inseg d) < seg_lim b (in_inseg d)" and L: "stream_len L" and w: "win_fits pcb d"
    and "oos_ok b src L lo (before prev @ q)" "q \<noteq> []" "lo \<le> seg_off b (in_inseg d)" "\<And>p. prev = Some p \<Longrightarrow> seg_off b p < seg_off b (in_inseg d)"
  shows "\<exists>r x nt' d'. oos_walk ev pcb nt d prev q = Some (r, x, nt', d') \<and> oos_ok b src L lo r \<and> in_recv_data d' = in_recv_data d"
  using assms(5-8)
  supply oos_walk.simps [simp del]
proof (induction q arbitrary: prev lo)
  case Nil
  then show ?case by simp
next
  case (Cons n ns)
  let ?s = "in_inseg d"
  let ?front = "\<lambda>(q, a, nt, d). (before prev @ q, a, nt, d)"
  have n: "carries b src L n" "seg_off b n < seg_lim b n" "fin n \<longrightarrow> ns = []" "oos_ok b src L (seg_end b n) ns" "lo \<le> seg_off b n"
    using Cons.prems(1) by (auto simp: before_def seg_end_def split: option.splits)
  have cs: "carries b src L ?s" "th_seqno (sg_tcphdr ?s) = in_seqno d" using a(1) by (simp_all add: arrives_def)
  have so: "seq_off b (in_seqno d) = seg_off b ?s" using cs(2) by (simp add: seg_off_def)
  have nr: "near b (in_seqno d)" "near b (th_seqno (sg_tcphdr n))" using carries_le [OF cs(1)] carries_le [OF n(1)] so L
    by (simp_all add: seg_off_def stream_len_def)
  have sl: "seg_off b ?s \<le> L" using carries_le [OF cs(1)] by simp
  have lt: "TCP_SEQ_LT (in_seqno d) (th_seqno (sg_tcphdr n)) = (seg_off b ?s < seg_off b n)"
    "TCP_SEQ_GT (in_seqno d) (th_seqno (sg_tcphdr n)) = (seg_off b n < seg_off b ?s)"
    "(in_seqno d = th_seqno (sg_tcphdr n)) = (seg_off b ?s = seg_off b n)"
    using nr so by (simp_all add: seq_lt_near [of b] seq_gt_near [of b] seg_off_def flip: seq_off_inject [of b])
  have walk: "oos_walk ev pcb nt d prev (n # ns) =
      (if seg_off b ?s = seg_off b n then
         (if sg_len ?s > sg_len n then map_option ?front (insert_copy ev nt d (n # ns)) else Some (?front (n # ns, None, nt, d)))
       else if prev = None \<and> seg_off b ?s < seg_off b n then insert_copy ev nt d (n # ns)
       else case prev of
         Some p \<Rightarrow>
           if TCP_SEQ_BETWEEN (in_seqno d) (th_seqno (sg_tcphdr p) + 1) (th_seqno (sg_tcphdr n) - 1) then (
             case tcp_seg_copy ev nt (in_inseg d) of
               (None, nt) \<Rightarrow> Some (p # n # ns, None, nt, d)
             | (Some c, nt) \<Rightarrow> do {
                 (p, nt) \<leftarrow> cut_at nt p (in_seqno d);
                 (q, nt) \<leftarrow> tcp_oos_insert_segment (in_seqno d) nt c (n # ns);
                 Some (p # q, Some (sg_addr c), nt, d)
               })
           else if ns = [] \<and> seg_off b n < seg_off b ?s then map_option ?front (append_oos ev pcb nt d n)
           else map_option ?front (oos_walk ev pcb nt d (Some n) ns)
       | None \<Rightarrow>
           if ns = [] \<and> seg_off b n < seg_off b ?s then append_oos ev pcb nt d n
           else oos_walk ev pcb nt d (Some n) ns)"
    by (simp only: oos_walk.simps Let_def lt before_def)
  have nq: "oos_ok b src L (seg_off b n) (n # ns)" using n by simp
  consider (same) "seg_off b ?s = seg_off b n" | (first) "prev = None" "seg_off b ?s < seg_off b n"
    | (between) p where "prev = Some p" "seg_off b ?s < seg_off b n" | (behind) "seg_off b n < seg_off b ?s" by (cases prev) force+
  then show ?case
  proof cases
    case same
    show ?thesis
    proof (cases "sg_len ?s > sg_len n")
      case True
      then have "seg_end b n < seg_end b ?s" using same by (simp add: seg_end_def word_less_nat_alt)
      then obtain r x nt' d' where r: "insert_copy ev nt d (n # ns) = Some (r, x, nt', d')" "oos_ok b src L (seg_off b ?s) r" "in_recv_data d' = in_recv_data d"
        using insert_copy_ok [OF a L, of "n # ns" ev nt] nq same by auto
      then show ?thesis using walk same True oos_ok_replace [OF Cons.prems(1), of r] by simp
    next
      case False
      then show ?thesis using walk same Cons.prems(1) by simp
    qed
  next
    case first
    then obtain r x nt' d' where r: "insert_copy ev nt d (n # ns) = Some (r, x, nt', d')" "oos_ok b src L (seg_off b ?s) r" "in_recv_data d' = in_recv_data d"
      using insert_copy_ok [OF a L, of "n # ns" ev nt] n by auto
    then show ?thesis using walk first oos_ok_mono [OF r(2) Cons.prems(3)] by simp
  next
    case (between p)
    have q0: "oos_ok b src L lo (p # n # ns)" using Cons.prems(1) between(1) by (simp add: before_def)
    note wb = walk_between [OF a L q0 Cons.prems(4) [OF between(1)] between(2)]
    have e: "(if seg_off b ?s = seg_off b n then A else if prev = None \<and> seg_off b ?s < seg_off b n then B
        else case prev of Some p \<Rightarrow> C p | None \<Rightarrow> D) = C p" for A B D and C :: "tcp_seg \<Rightarrow> 'c" using between by simp
    show ?thesis unfolding walk e if_P [OF wb(1)] by (rule wb(2))
  next
    case behind
    show ?thesis
    proof (cases "ns = []")
      case True
      obtain r x nt' d' where r: "append_oos ev pcb nt d n = Some (r, x, nt', d')" "oos_ok b src L (seg_off b n) r" "in_recv_data d' = in_recv_data d"
        using append_oos_ok [OF a L w n(1,2) behind] by blast
      then show ?thesis
        using walk behind True oos_ok_replace [OF Cons.prems(1), of r] not_between [OF L, of b "in_seqno d" n] so sl by (cases prev) (simp_all add: before_def)
    next
      case False
      have "oos_ok b src L (seg_off b n) (before (Some n) @ ns)" using nq by (simp add: before_def)
      then obtain r x nt' d' where r: "oos_walk ev pcb nt d (Some n) ns = Some (r, x, nt', d')" "oos_ok b src L (seg_off b n) r" "in_recv_data d' = in_recv_data d"
        using Cons.IH [of "seg_off b n" "Some n"] False behind by auto
      then show ?thesis
        using walk behind False oos_ok_replace [OF Cons.prems(1), of r] not_between [OF L, of b "in_seqno d" n] so sl by (cases prev) (simp_all add: before_def)
    qed
  qed
qed

end
