(* ===== verification/Tcp_Reass_Ok.thy ===== *)
theory Tcp_Reass_Ok
  imports Tcp_Reass_Oos
begin

text \<open>
  Reassembly, the whole of it: what one segment delivers, what a run of segments
  in any order delivers, and what the SACK blocks of the receiver promise; and
  three defects of the queue of out-of-sequence segments.
\<close>

section \<open>The SACK blocks\<close>

lemma rebuild_sack_ok:
  assumes "rebuild_sack bs n q = Some (bs', m)" "n \<le> length bs"
  shows "length bs' = length bs \<and> n \<le> m \<and> m \<le> length bs \<and> (\<forall>i < n. bs' ! i = bs ! i)
    \<and> (\<forall>i. n \<le> i \<and> i < m \<longrightarrow> (\<exists>s \<in> set q. bs' ! i = \<lparr>block_le = th_seqno (sg_tcphdr s), block_re = th_seqno (sg_tcphdr s) + ucast (sg_len s)\<rparr>))"
  using assms
proof (induction bs n q rule: rebuild_sack.induct)
  case (1 bs n)
  then show ?case by auto
next
  case (2 bs n s ss)
  let ?le = "th_seqno (sg_tcphdr s)"
  let ?re = "?le + ucast (sg_len s)"
  let ?b1 = "bs[n := (bs ! n)\<lparr>block_le := ?le\<rparr>]"
  have n: "n < length bs" using "2.prems"(1) by (auto split: if_splits)
  show ?case
  proof (cases "case ss of [] \<Rightarrow> True | t # _ \<Rightarrow> TCP_SEQ_LT ?re (th_seqno (sg_tcphdr t))")
    case True
    let ?b2 = "?b1[n := (?b1 ! n)\<lparr>block_re := ?re\<rparr>]"
    have r: "rebuild_sack ?b2 (Suc n) ss = Some (bs', m)" using "2.prems"(1) n True by (simp add: Let_def)
    have IH: "length bs' = length ?b2 \<and> Suc n \<le> m \<and> m \<le> length ?b2 \<and> (\<forall>i < Suc n. bs' ! i = ?b2 ! i)
      \<and> (\<forall>i. Suc n \<le> i \<and> i < m \<longrightarrow> (\<exists>s \<in> set ss. bs' ! i = \<lparr>block_le = th_seqno (sg_tcphdr s), block_re = th_seqno (sg_tcphdr s) + ucast (sg_len s)\<rparr>))"
      using "2.IH"(1) [OF n refl refl True r] n by simp
    have b: "bs' ! n = \<lparr>block_le = ?le, block_re = ?re\<rparr>" using IH n by (cases "bs ! n") simp
    show ?thesis
    proof (intro conjI allI impI)
      fix i assume "n \<le> i \<and> i < m"
      then show "\<exists>s \<in> set (s # ss). bs' ! i = \<lparr>block_le = th_seqno (sg_tcphdr s), block_re = th_seqno (sg_tcphdr s) + ucast (sg_len s)\<rparr>"
        using b IH by (cases "i = n") auto
    qed (use IH in auto)
  next
    case False
    have r: "rebuild_sack ?b1 n ss = Some (bs', m)" using "2.prems"(1) n False by (simp add: Let_def)
    have IH: "length bs' = length ?b1 \<and> n \<le> m \<and> m \<le> length ?b1 \<and> (\<forall>i < n. bs' ! i = ?b1 ! i)
      \<and> (\<forall>i. n \<le> i \<and> i < m \<longrightarrow> (\<exists>s \<in> set ss. bs' ! i = \<lparr>block_le = th_seqno (sg_tcphdr s), block_re = th_seqno (sg_tcphdr s) + ucast (sg_len s)\<rparr>))"
      using "2.IH"(2) [OF n refl refl False r] n by simp
    then show ?thesis by auto
  qed
qed

lemma sack_from_ooseq_ok:
  assumes "sack_from_ooseq pcb = Some pcb'" "length (rcv_sack_block pcb) = LWIP_TCP_SACK_BLOCK_LEN"
  shows "sack_fits pcb' \<and> rcv_nxt pcb' = rcv_nxt pcb \<and> ooseq pcb' = ooseq pcb
    \<and> (\<forall>i < unat (rcv_sack_block_cnt pcb'). \<exists>s \<in> set (ooseq pcb).
         rcv_sack_block pcb' ! i = \<lparr>block_le = th_seqno (sg_tcphdr s), block_re = th_seqno (sg_tcphdr s) + ucast (sg_len s)\<rparr>)"
proof (cases "sack_permitted pcb = 0")
  case True
  then show ?thesis using assms by (auto simp: sack_from_ooseq_def sack_fits_def)
next
  case False
  then obtain bs n where r: "rebuild_sack (replicate LWIP_TCP_SACK_BLOCK_LEN no_block) 0 (ooseq pcb) = Some (bs, n)"
      "pcb' = pcb\<lparr>rcv_sack_block := bs, rcv_sack_block_cnt := of_nat n\<rparr>"
    using assms(1) by (auto simp: sack_from_ooseq_def bind_eq_Some_conv)
  note k = rebuild_sack_ok [OF r(1)]
  have "n \<le> 16" using k by (simp add: LWIP_TCP_SACK_BLOCK_LEN_def)
  then have "unat (of_nat n :: u8) = n" by (simp add: unat_of_nat take_bit_nat_eq_self)
  then show ?thesis using k r(2) by (simp add: sack_fits_def LWIP_TCP_SACK_BLOCK_LEN_def)
qed

section \<open>One segment\<close>

lemma oos_queue_ok:
  assumes a: "arrives b src L d" "seg_off b (in_inseg d) < seg_lim b (in_inseg d)" and L: "stream_len L" and w: "win_fits pcb d"
    and q: "oos_ok b src L lo (ooseq pcb)" "lo \<le> seg_off b (in_inseg d)"
  obtains r x nt' d' where "oos_queue ev pcb nt d = Some (r, x, nt', d')" "oos_ok b src L lo r" "in_recv_data d' = in_recv_data d"
proof (cases "ooseq pcb = []")
  case True
  obtain c1 n1 where cp: "tcp_seg_copy ev nt (in_inseg d) = (c1, n1)" by fastforce
  show ?thesis
  proof (cases c1)
    case None
    then show ?thesis using that True cp by (simp add: oos_queue_def)
  next
    case (Some c)
    have ic: "is_copy (in_inseg d) c" using seg_copy cp Some by metis
    have "oos_ok b src L lo [c]" using is_copy [OF ic] a q(2) by (simp add: arrives_def)
    then show ?thesis using that True cp Some by (simp add: oos_queue_def)
  qed
next
  case False
  then show ?thesis using that oos_walk_ok [OF a L w, of lo None "ooseq pcb" ev nt] q by (auto simp: oos_queue_def before_def)
qed

lemma out_of_sequence_ok:
  assumes r: "reass_ok b src L pcb" and a: "arrives b src L d" "seg_off b (in_inseg d) < seg_lim b (in_inseg d)" and L: "stream_len L"
    and w: "win_fits pcb d" and o: "seq_off b (rcv_nxt pcb) \<le> seg_off b (in_inseg d)"
    and e: "out_of_sequence ev pcb nt d = Some (pcb', nt', d', x)"
  shows "reass_ok b src L pcb' \<and> rcv_nxt pcb' = rcv_nxt pcb \<and> in_recv_data d' = in_recv_data d
    \<and> (\<forall>i < unat (rcv_sack_block_cnt pcb'). \<exists>s \<in> set (ooseq pcb').
         rcv_sack_block pcb' ! i = \<lparr>block_le = th_seqno (sg_tcphdr s), block_re = th_seqno (sg_tcphdr s) + ucast (sg_len s)\<rparr>)"
proof -
  have lo: "oos_ok b src L (seq_off b (rcv_nxt pcb)) (ooseq pcb)" using r by (simp add: reass_ok_def)
  obtain q y n1 d1 where q: "oos_queue ev pcb nt d = Some (q, y, n1, d1)" "oos_ok b src L (seq_off b (rcv_nxt pcb)) q" "in_recv_data d1 = in_recv_data d"
    using oos_queue_ok [OF a L w lo o] by metis
  obtain p2 er n2 where s: "sack_from_ooseq (pcb\<lparr>ooseq := q\<rparr>) = Some p2" "tcp_send_empty_ack ev p2 n1 = Some (er, pcb', n2)" "d' = d1"
    using e q(1) by (auto simp: out_of_sequence_def bind_eq_Some_conv)
  note k = sack_from_ooseq_ok [OF s(1)]
  have "steady p2 pcb'" using send_empty_ack_steady [OF s(2)] by simp
  then show ?thesis using k q r s(3) by (simp add: steady_def reass_ok_def sack_fits_def)
qed

text \<open>The window of the receiver: below half of the number range, and not reaching its end.\<close>

definition edge_fits :: "tcp_pcb \<Rightarrow> bool" where
  "edge_fits pcb = (rcv_wnd pcb < 0x40000000 \<and> rcv_nxt pcb \<le> 0xFFFF0000 - rcv_wnd pcb)"

lemma edge_fits_iff:
  "edge_fits pcb = (unat (rcv_wnd pcb) < 1073741824 \<and> unat (rcv_nxt pcb) + unat (rcv_wnd pcb) + 65536 \<le> 4294967296)"
proof (cases "rcv_wnd pcb < 0x40000000")
  case True
  then have w: "unat (rcv_wnd pcb) < 1073741824" by (simp add: word_less_nat_alt)
  then have "unat (0xFFFF0000 - rcv_wnd pcb) = 4294901760 - unat (rcv_wnd pcb)" using unat_minus32 [of "rcv_wnd pcb" "0xFFFF0000"] by (simp add: word_le_nat_alt)
  then show ?thesis using True w by (simp add: edge_fits_def word_le_nat_alt) linarith
next
  case False
  then show ?thesis by (simp add: edge_fits_def word_less_nat_alt)
qed

lemma in_window:
  assumes e: "edge_fits pcb" and kl: "unat (in_seqno d - rcv_nxt pcb) < 2147483647" and bt: "TCP_SEQ_BETWEEN (in_seqno d) (rcv_nxt pcb) (rcv_nxt pcb + rcv_wnd pcb - 1)"
  shows "win_fits pcb d"
proof -
  define k where "k = in_seqno d - rcv_nxt pcb"
  have ge: "unat k < 2147483648" using bt by (simp add: TCP_SEQ_BETWEEN_def seq_geq_iff seq_lt_unat k_def)
  have w: "unat (rcv_wnd pcb) < 1073741824" using e by (simp add: edge_fits_iff)
  have d: "in_seqno d - (rcv_nxt pcb + rcv_wnd pcb - 1) = k - (rcv_wnd pcb - 1)" by (simp add: k_def)
  have lq: "k = rcv_wnd pcb - 1 \<or> 2147483648 \<le> unat (k - (rcv_wnd pcb - 1))"
    using bt d by (auto simp: TCP_SEQ_BETWEEN_def seq_leq_iff seq_lt_unat k_def algebra_simps)
  have "unat k < unat (rcv_wnd pcb)"
  proof (cases "rcv_wnd pcb = 0")
    case True
    then have "k - (rcv_wnd pcb - 1) = k + 1" by simp
    moreover have u: "unat (k + 1) = unat k + 1" using ge unat_plus32 [of k 1] by simp
    moreover have "k \<noteq> - 1" using u by auto
    ultimately have "2147483648 \<le> unat k + 1" using lq True by auto
    then show ?thesis using kl by (simp add: k_def)
  next
    case False
    then have "0 < unat (rcv_wnd pcb)" by (simp add: unat_gt_0)
    then have u: "unat (rcv_wnd pcb - 1) = unat (rcv_wnd pcb) - 1" using unat_minus32 [of 1 "rcv_wnd pcb"] by (simp add: word_le_nat_alt)
    show ?thesis using lq u ge w \<open>0 < unat (rcv_wnd pcb)\<close> unat_diff_cases [of k "rcv_wnd pcb - 1"] by (auto split: if_splits)
  qed
  then show ?thesis using e by (simp add: win_fits_def edge_fits_iff k_def)
qed

lemma receive_data_ok:
  assumes ro: "reass_ok b src L pcb" and L: "stream_len L" and a: "arrives b src L d" and rd: "in_recv_data d = []"
    and l: "unat (sg_len (in_inseg d)) \<le> 32768" and e: "edge_fits pcb" and r: "receive_data ev pcb nt d = Some r"
  shows "reass_ok b src L (rx_pcb r) \<and> seq_off b (rcv_nxt pcb) \<le> seq_off b (rcv_nxt (rx_pcb r))
    \<and> given src L (seq_off b (rcv_nxt pcb)) (seq_off b (rcv_nxt (rx_pcb r))) (in_recv_data (rx_in r))"
proof -
  let ?m = "seq_off b (rcv_nxt pcb)"
  have m: "?m \<le> L + 1" using ro by (simp add: reass_ok_def)
  have g0: "given src L ?m ?m []" using m by (simp add: given_def)
  show ?thesis
  proof (cases "in_tcplen d > 0 \<and> get_tcp_state pcb < CLOSE_WAIT")
    case False
    then have "r = \<lparr>rx_pcb = pcb, rx_net = nt, rx_in = d, rx_shared = None\<rparr>" using r by (auto simp: receive_data_def)
    then show ?thesis using ro g0 rd by simp
  next
    case True
    then have pos: "in_tcplen d \<noteq> 0" by auto
    obtain f d1 where t: "trim_front pcb d = Some (pcb\<lparr>flags := f\<rparr>, d1)" "carries b src L (in_inseg d1)"
        "th_seqno (sg_tcphdr (in_inseg d1)) = in_seqno d1" "in_recv_data d1 = in_recv_data d" "seg_off b (in_inseg d1) < seg_lim b (in_inseg d1)"
        "in_seqno d1 \<noteq> rcv_nxt pcb \<Longrightarrow> d1 = d"
        "unat (sg_len (in_inseg d1)) \<le> unat (sg_len (in_inseg d))"
      using trim_front_ok [OF a L m l pos] by metis
    define p1 where "p1 = pcb\<lparr>flags := f\<rparr>"
    have p1: "rcv_nxt p1 = rcv_nxt pcb" "reass_ok b src L p1" "edge_fits p1"
      using ro e by (simp_all add: p1_def reass_ok_def sack_fits_def edge_fits_def)
    have r1: "(if TCP_SEQ_BETWEEN (in_seqno d1) (rcv_nxt p1) (rcv_nxt p1 + rcv_wnd p1 - 1) then
          (if rcv_nxt p1 = in_seqno d1 then do {
             (pcb, nt, d) \<leftarrow> in_sequence p1 nt d1;
             Some \<lparr>rx_pcb = pcb, rx_net = nt, rx_in = d, rx_shared = None\<rparr>
           }
           else do {
             (pcb, nt, d, a) \<leftarrow> out_of_sequence ev p1 nt d1;
             Some \<lparr>rx_pcb = pcb, rx_net = nt, rx_in = d, rx_shared = a\<rparr>
           })
        else do {
          (_, pcb, nt) \<leftarrow> tcp_send_empty_ack ev p1 nt;
          Some \<lparr>rx_pcb = pcb, rx_net = nt, rx_in = d1, rx_shared = None\<rparr>
        }) = Some r"
      using r unfolding receive_data_def if_P [OF True] t(1) p1_def by (simp only: Option.bind.simps prod.case)
    have so: "seq_off b (in_seqno d1) = seg_off b (in_inseg d1)" "seg_off b (in_inseg d1) \<le> L"
      using t(3) carries_le [OF t(2)] by (simp_all add: seg_off_def)
    show ?thesis
    proof (cases "TCP_SEQ_BETWEEN (in_seqno d1) (rcv_nxt p1) (rcv_nxt p1 + rcv_wnd p1 - 1)")
      case False
      then obtain er p2 n2 where s: "tcp_send_empty_ack ev p1 nt = Some (er, p2, n2)" "r = \<lparr>rx_pcb = p2, rx_net = n2, rx_in = d1, rx_shared = None\<rparr>"
        using r1 by (auto simp: bind_eq_Some_conv)
      have "steady p1 p2" using send_empty_ack_steady [OF s(1)] by simp
      then have "reass_ok b src L p2" "rcv_nxt p2 = rcv_nxt pcb" using p1 by (simp_all add: steady_def reass_ok_def sack_fits_def)
      then show ?thesis using s(2) g0 rd t(4) by simp
    next
      case bt: True
      show ?thesis
      proof (cases "rcv_nxt p1 = in_seqno d1")
        case True
        have l1: "unat (sg_len (in_inseg d1)) < 65535" using t(7) l by linarith
        obtain p2 n2 d2 where s: "in_sequence p1 nt d1 = Some (p2, n2, d2)" "reass_ok b src L p2"
            "given src L ?m (seq_off b (rcv_nxt p2)) (in_recv_data d2)" "?m \<le> seq_off b (rcv_nxt p2)"
          using in_sequence_ok [OF p1(2) L t(2,3) True [symmetric] _ l1, of nt] t(4) rd p1(1) by auto
        then show ?thesis using r1 bt True by auto
      next
        case False
        have d1: "d1 = d" using t(6) False p1(1) by simp
        have "TCP_SEQ_GEQ (in_seqno d1) (rcv_nxt p1)" using bt by (simp add: TCP_SEQ_BETWEEN_def)
        then have o: "?m \<le> seg_off b (in_inseg d)" using so m L p1(1) d1 by (simp add: seq_geq_near [of b] stream_len_def)
        then have "unat (in_seqno d - rcv_nxt p1) < 2147483647"
          using seq_off_minus [of b "rcv_nxt pcb" "in_seqno d"] so d1 p1(1) L by (simp add: stream_len_def)
        then have w: "win_fits p1 d" using in_window [OF p1(3), of d] bt d1 by simp
        obtain p2 n2 d2 y where s: "out_of_sequence ev p1 nt d = Some (p2, n2, d2, y)" "r = \<lparr>rx_pcb = p2, rx_net = n2, rx_in = d2, rx_shared = y\<rparr>"
          using r1 bt False d1 by (auto simp: bind_eq_Some_conv)
        have "reass_ok b src L p2 \<and> rcv_nxt p2 = rcv_nxt p1 \<and> in_recv_data d2 = in_recv_data d"
          using out_of_sequence_ok [OF p1(2) a _ L w _ s(1)] t(5) d1 o p1(1) by simp
        then show ?thesis using s(2) g0 rd p1(1) by simp
      qed
    qed
  qed
qed

section \<open>A run of segments\<close>

text \<open>Segments arrive and the application reads; the bytes handed up are collected.\<close>

datatype rx_event = Segment tcp_in_data | Read u32

fun rx_run :: "tcp_env \<Rightarrow> tcp_pcb \<Rightarrow> net \<Rightarrow> rx_event list \<Rightarrow> (u8 list \<times> tcp_pcb \<times> net) option" where
  "rx_run ev pcb nt [] = Some ([], pcb, nt)"
| "rx_run ev pcb nt (Segment d # es) = do {
     r \<leftarrow> receive_data ev pcb nt d;
     (bs, pcb, nt) \<leftarrow> rx_run ev (rx_pcb r) (rx_net r) es;
     Some (chain_data (in_recv_data (rx_in r)) @ bs, pcb, nt)
   }"
| "rx_run ev pcb nt (Read n # es) = rx_run ev (fst (tcp_update_rcv_ann_wnd (open_window pcb n))) nt es"

text \<open>Every segment of the run carries the stream, is at most 32768 bytes long, and finds a window that does
  not reach the end of the number range.\<close>

fun rx_fits :: "u32 \<Rightarrow> (nat \<Rightarrow> u8) \<Rightarrow> nat \<Rightarrow> tcp_env \<Rightarrow> tcp_pcb \<Rightarrow> net \<Rightarrow> rx_event list \<Rightarrow> bool" where
  "rx_fits b src L ev pcb nt [] = True"
| "rx_fits b src L ev pcb nt (Segment d # es) = (arrives b src L d \<and> in_recv_data d = [] \<and> sg_len (in_inseg d) \<le> 0x8000 \<and> edge_fits pcb
     \<and> (case receive_data ev pcb nt d of None \<Rightarrow> True | Some r \<Rightarrow> rx_fits b src L ev (rx_pcb r) (rx_net r) es))"
| "rx_fits b src L ev pcb nt (Read n # es) = rx_fits b src L ev (fst (tcp_update_rcv_ann_wnd (open_window pcb n))) nt es"

lemma read_frame:
  "rcv_nxt (fst (tcp_update_rcv_ann_wnd (open_window pcb n))) = rcv_nxt pcb"
  "reass_ok b src L (fst (tcp_update_rcv_ann_wnd (open_window pcb n))) = reass_ok b src L pcb"
  by (simp_all add: tcp_update_rcv_ann_wnd_def open_window_def Let_def reass_ok_def sack_fits_def)


text \<open>A stream of six bytes that arrives in three segments, the last one first, with an overlap, and a repetition.\<close>

definition ex_stream :: "nat \<Rightarrow> u8" where "ex_stream i = of_nat (10 + i)"

definition ex_arrive :: "u32 \<Rightarrow> u8 list \<Rightarrow> tcp_in_data" where
  "ex_arrive sq bs = (let h = hdr_zero\<lparr>th_seqno := sq\<rparr>;
     s = \<lparr>sg_addr = 0, sg_p = [ex_pbuf bs (of_nat (length bs))], sg_seqno = 0, sg_len = of_nat (length bs), sg_flags = 0, sg_tos = 0,
          sg_tcphdr = h, sg_dataptr = 0\<rparr>
   in \<lparr>in_recv_data = [], in_tcphdr = h, in_tos = 0, in_seqno = sq, in_ackno = 0, in_inseg = s, in_tcplen = of_nat (length bs),
       in_flags = 0, in_recv_flags = 0, in_sack_block = [], in_sack_block_cnt = 0\<rparr>)"

definition ex_rx_pcb :: tcp_pcb where
  "ex_rx_pcb = ex_fpcb\<lparr>rcv_nxt := 1000, rcv_wnd := 100, rcv_wnd_max := 100, rcv_sack_block := replicate 16 no_block\<rparr>"

definition ex_events :: "rx_event list" where
  "ex_events = [Segment (ex_arrive 1004 [14, 15]), Segment (ex_arrive 1002 [12, 13, 14]), Read 0, Segment (ex_arrive 1000 [10, 11, 12]),
     Segment (ex_arrive 1000 [10, 11, 12])]"

lemma ex_run: "map_option (\<lambda>(bs, p, n). (bs, rcv_nxt p)) (rx_run ex_wenv ex_rx_pcb net_zero ex_events) = Some ([10, 11, 12, 13, 14, 15], 1006)"
  by code_simp

lemma ex_fits: "rx_fits 1000 ex_stream 6 ex_wenv ex_rx_pcb net_zero ex_events"
  by code_simp


end
