(* ===== verification/Tcp_Sack_Ok.thy ===== *)
theory Tcp_Sack_Ok
  imports Tcp_Reass_Ok
begin

text \<open>
  Selective acknowledgement.  What the blocks of the receiver announce is
  held by the receiver; and defects around the queue of out-of-sequence
  segments: more runs than the array of blocks has room for, a window that
  reaches over the end of the number range, a FIN that the sender takes for
  acknowledged, and blocks that outlive their data.
\<close>

section \<open>The blocks are sound\<close>


definition ex_sack_pcb :: tcp_pcb where
  "ex_sack_pcb = ex_rx_pcb\<lparr>sack_permitted := 1\<rparr>"

lemma ex_oos: "map_option (\<lambda>(p, n, d, x). (rcv_sack_block_cnt p, rcv_sack_block p ! 0)) (out_of_sequence ex_wenv ex_sack_pcb net_zero (ex_arrive 1004 [14, 15]))
    = Some (1, \<lparr>block_le = 1004, block_re = 1006\<rparr>)"
  by code_simp


section \<open>Too many blocks\<close>

text \<open>Every segment ends before the next one starts.\<close>

fun gaps :: "tcp_seg list \<Rightarrow> bool" where
  "gaps (s # t # ss) = (TCP_SEQ_LT (th_seqno (sg_tcphdr s) + ucast (sg_len s)) (th_seqno (sg_tcphdr t)) \<and> gaps (t # ss))"
| "gaps _ = True"

lemma rebuild_gaps: "gaps q \<Longrightarrow> n \<le> length bs \<Longrightarrow> length bs < n + length q \<Longrightarrow> rebuild_sack bs n q = None"
proof (induction q arbitrary: bs n)
  case (Cons s ss)
  have t: "case ss of [] \<Rightarrow> True | t # _ \<Rightarrow> TCP_SEQ_LT (th_seqno (sg_tcphdr s) + ucast (sg_len s)) (th_seqno (sg_tcphdr t))" "gaps ss"
    using Cons.prems(1) by (cases ss; simp)+
  then show ?case using Cons.IH Cons.prems by (simp add: Let_def)
qed simp

text \<open>C32. The receiver has room for 16 blocks.  With more than 16 separate runs in the queue the loop that rebuilds
  the blocks writes behind the array.\<close>

theorem sack_blocks_overflow:
  assumes "sack_permitted pcb \<noteq> 0" "gaps (ooseq pcb)" "16 < length (ooseq pcb)"
  shows "sack_from_ooseq pcb = None"
  using assms rebuild_gaps [of "ooseq pcb" 0 "replicate 16 no_block"]
  by (simp add: sack_from_ooseq_def LWIP_TCP_SACK_BLOCK_LEN_def)

definition ex_many :: tcp_pcb where
  "ex_many = ex_sack_pcb\<lparr>ooseq := map (\<lambda>i. in_inseg (ex_arrive (1000 + 4 * of_nat i) [1, 2])) [1 ..< 18]\<rparr>"

theorem sack_blocks_overflow_witness: "sack_from_ooseq ex_many = None"
  by (rule sack_blocks_overflow) code_simp+

section \<open>The window at the end of the number range\<close>

text \<open>C30. A segment that is appended to the queue and lies inside the window, which reaches over the end of the number
  range: the comparison takes it for too long, and the length of the queued copy becomes the room that is left
  in the window, more than the segment has bytes.\<close>

theorem append_wrap_grows:
  assumes "tcp_seg_copy ev nt (in_inseg d) = (Some c, nt1)" "\<not> fin n" "cut_at nt1 n (in_seqno d) = Some (n', nt2)"
    and c: "carries b src L (in_inseg d)" "\<not> fin (in_inseg d)"
    and w: "rcv_nxt pcb + rcv_wnd pcb < ucast (in_tcplen d) + in_seqno d"
    and room: "unat (sg_len (in_inseg d)) < unat (rcv_nxt pcb + rcv_wnd pcb - in_seqno d)" "unat (rcv_nxt pcb + rcv_wnd pcb - in_seqno d) < 65536"
  shows "\<exists>c' x nt' d'. append_oos ev pcb nt d n = Some ([n', c'], x, nt', d') \<and> length (chain_data (sg_p c')) = unat (sg_len (in_inseg d))
    \<and> unat (sg_len (in_inseg d)) < unat (sg_len c')"
proof -
  have ic: "is_copy (in_inseg d) c" using seg_copy assms(1) .
  note ics = is_copy [OF ic]
  have cc: "carries b src L c" using ics(1) c(1) .
  have nf: "clear_fin c = c" using ics(3) c(2) by (simp add: clear_fin_def)
  let ?l = "ucast (rcv_nxt pcb + rcv_wnd pcb - in_seqno d) :: u16"
  have ul: "unat ?l = unat (rcv_nxt pcb + rcv_wnd pcb - in_seqno d)"
    unfolding unsigned_ucast_eq unsigned_take_bit_eq using room(2) by (simp add: take_bit_nat_eq_self)
  have ok: "chain_ok (sg_p c)" "sg_p c \<noteq> []" using cc by (simp_all add: carries_def)
  obtain k f where k: "trim_chain nt2 (sg_p c) ?l = Some (k, nt2\<lparr>nt_pbuf_free := f\<rparr>)" "chain_data k = take (unat ?l) (chain_data (sg_p c))"
    using trim_chain_ok [OF ok, of nt2 ?l] by blast
  have len: "length (chain_data (sg_p c)) = unat (sg_len (in_inseg d))" using length_chain_data [OF ok(1)] carries_tot [OF cc] ics(2) by simp
  then have "length (chain_data k) = unat (sg_len (in_inseg d))" using k(2) ul room(1) by simp
  then show ?thesis using assms(1-3) w k(1) nf ul room(1) by (simp add: append_oos_def trim_seg_def)
qed

definition ex_wrap_pcb :: tcp_pcb where
  "ex_wrap_pcb = ex_rx_pcb\<lparr>rcv_nxt := 0xFFFFFFF0\<rparr>"

theorem append_wrap_grows_witness:
  "\<exists>c' x nt' d'. append_oos ex_wenv ex_wrap_pcb net_zero (ex_arrive 0xFFFFFFF8 [8, 9]) (in_inseg (ex_arrive 0xFFFFFFF4 [4, 5])) = Some ([in_inseg (ex_arrive 0xFFFFFFF4 [4, 5]), c'], x, nt', d')
     \<and> length (chain_data (sg_p c')) = 2 \<and> 2 < unat (sg_len c')"
proof -
  let ?d = "ex_arrive 0xFFFFFFF8 [8, 9]" and ?n = "in_inseg (ex_arrive 0xFFFFFFF4 [4, 5])"
  obtain c nt1 where c: "tcp_seg_copy ex_wenv net_zero (in_inseg ?d) = (Some c, nt1)" by (simp add: tcp_seg_copy_def ex_wenv_def)
  have "\<not> TCP_SEQ_GT (th_seqno (sg_tcphdr ?n) + ucast (sg_len ?n)) (in_seqno ?d)" by code_simp
  then have n: "cut_at nt1 ?n (in_seqno ?d) = Some (?n, nt1)" by (simp add: cut_at_def)
  have f: "\<not> fin ?n" "\<not> fin (in_inseg ?d)" "carries 0xFFFFFFF0 (\<lambda>i. of_nat i) 20 (in_inseg ?d)" by code_simp+
  have w: "rcv_nxt ex_wrap_pcb + rcv_wnd ex_wrap_pcb < ucast (in_tcplen ?d) + in_seqno ?d" by code_simp
  have r: "unat (sg_len (in_inseg ?d)) = 2" "unat (rcv_nxt ex_wrap_pcb + rcv_wnd ex_wrap_pcb - in_seqno ?d) = 92" by code_simp+
  show ?thesis using append_wrap_grows [OF c f(1) n f(3,2) w] r by simp
qed

text \<open>The consequence: four segments of two bytes are received, ten bytes less two are delivered, and rcv_nxt has moved
  by a hundred, the whole window.\<close>

lemma wrap_loses_bytes:
  "map_option (\<lambda>(bs, p, n). (bs, rcv_nxt p)) (rx_run ex_wenv ex_wrap_pcb net_zero
     [Segment (ex_arrive 0xFFFFFFF4 [4, 5]), Segment (ex_arrive 0xFFFFFFF8 [8, 9]), Segment (ex_arrive 0xFFFFFFF6 [6, 7]), Segment (ex_arrive 0xFFFFFFF0 [0, 1, 2, 3])])
   = Some ([0, 1, 2, 3, 4, 5, 6, 7, 8, 9], 84)"
  by code_simp

section \<open>A FIN taken for acknowledged\<close>

text \<open>C31. A segment that is only a FIN has length 0.  When its sequence number is the right edge of a block, so that all data before
  it but not the FIN is reported as received, the sender drops it from the queue of unacknowledged segments and frees it; no
  retransmission will send it again.\<close>

theorem sack_drops_fin:
  assumes "unacked pcb = [s]" "fin s" "sg_len s = 0" "sack_permitted pcb \<noteq> 0" "in_sack_block d = bl # bs" "in_sack_block_cnt d \<noteq> 0"
    "block_re bl = sg_seqno s" "TCP_SEQ_LEQ (block_le bl) (sg_seqno s)"
  shows "unacked (fst (sack_remove pcb nt d)) = [] \<and> unsent (fst (sack_remove pcb nt d)) = unsent pcb
    \<and> nt_seg_free (snd (sack_remove pcb nt d)) = nt_seg_free nt @ [sg_addr s]"
proof -
  obtain k where "unat (in_sack_block_cnt d) = Suc k" using assms(6) by (metis gr0_implies_Suc unat_gt_0)
  then have "seg_sacked d s" using assms by (simp add: seg_sacked_def)
  then show ?thesis using assms by (simp add: sack_remove_def)
qed

definition ex_fin_seg :: tcp_seg where
  "ex_fin_seg = (ex_oseg 7 110 [])\<lparr>sg_tcphdr := TCPH_SET_FLAG hdr_zero TCP_FIN\<rparr>"

theorem sack_drops_fin_witness:
  "unacked (fst (sack_remove (ex_fpcb\<lparr>unacked := [ex_fin_seg], sack_permitted := 1\<rparr>) net_zero
     ((ex_arrive 1 [])\<lparr>in_sack_block := [\<lparr>block_le = 108, block_re = 110\<rparr>], in_sack_block_cnt := 1\<rparr>))) = []"
proof -
  have "fin ex_fin_seg" "sg_len ex_fin_seg = 0" "TCP_SEQ_LEQ 108 (sg_seqno ex_fin_seg)" "sg_seqno ex_fin_seg = 110" by code_simp+
  then show ?thesis
    using sack_drops_fin [of "ex_fpcb\<lparr>unacked := [ex_fin_seg], sack_permitted := 1\<rparr>" ex_fin_seg
        "(ex_arrive 1 [])\<lparr>in_sack_block := [\<lparr>block_le = 108, block_re = 110\<rparr>], in_sack_block_cnt := 1\<rparr>" "\<lparr>block_le = 108, block_re = 110\<rparr>" "[]" net_zero]
    by simp
qed

section \<open>Blocks that outlive their data\<close>

text \<open>The slow timer drops the queue of a connection that was idle for long; the blocks stay, so that the next acknowledgement
  announces data that is no longer held.  The sender has freed these segments when it saw the blocks first.\<close>

lemma slow_ooseq_reneges:
  assumes "ooseq pcb \<noteq> []" "elapsed pcb nt \<ge> of_int (rto pcb) * TCP_OOSEQ_TIMEOUT"
  shows "ooseq (fst (slow_ooseq pcb nt)) = [] \<and> rcv_sack_block (fst (slow_ooseq pcb nt)) = rcv_sack_block pcb
    \<and> rcv_sack_block_cnt (fst (slow_ooseq pcb nt)) = rcv_sack_block_cnt pcb"
  using assms by (simp add: slow_ooseq_def)

end
