(* ===== verification/Tcp_Window.thy ===== *)
theory Tcp_Window
  imports Tcp_Core_Ok Tcp_In
begin

text \<open>
  The receive window over runs: data arrives and closes the window, the application reads
  and opens it, acknowledgements announce it.  The right edge that the peer was
  promised never moves back, and there is always room behind the promise.
\<close>

section \<open>Steps\<close>

text \<open>Arrival of n bytes in sequence (\<open>advance\<close>), a read of n bytes (the window part of \<open>tcp_recved\<close>), and
  the header of an outgoing segment (tcp_out.c lines 156-158 and 1861-1863).\<close>

datatype wnd_event = Arrive u32 | Consume u32 | Announce

fun wnd_step :: "tcp_pcb \<Rightarrow> wnd_event \<Rightarrow> tcp_pcb" where
  "wnd_step pcb (Arrive n) = advance pcb (rcv_nxt pcb + n) n"
| "wnd_step pcb (Consume n) = fst (tcp_update_rcv_ann_wnd (open_window pcb n))"
| "wnd_step pcb Announce = pcb\<lparr>rcv_ann_right_edge := rcv_nxt pcb + rcv_ann_wnd pcb\<rparr>"

fun wnd_run :: "tcp_pcb \<Rightarrow> wnd_event list \<Rightarrow> tcp_pcb" where
  "wnd_run pcb [] = pcb"
| "wnd_run pcb (e # es) = wnd_run (wnd_step pcb e) es"

text \<open>A segment is accepted only as far as the window goes, and the number of bytes read does not overflow.\<close>

fun wnd_allowed :: "tcp_pcb \<Rightarrow> wnd_event list \<Rightarrow> bool" where
  "wnd_allowed pcb [] = True"
| "wnd_allowed pcb (e # es) = ((case e of Arrive n \<Rightarrow> n \<le> rcv_wnd pcb | Consume n \<Rightarrow> rcv_wnd pcb \<le> rcv_wnd pcb + n | Announce \<Rightarrow> True) \<and> wnd_allowed (wnd_step pcb e) es)"

definition arrived :: "wnd_event list \<Rightarrow> nat" where
  "arrived es = (\<Sum>e \<leftarrow> es. case e of Arrive n \<Rightarrow> unat n | _ \<Rightarrow> 0)"

section \<open>The invariant\<close>

definition wnd_ok :: "u32 \<Rightarrow> tcp_pcb \<Rightarrow> bool" where
  "wnd_ok b pcb = (rcv_wnd pcb \<le> rcv_wnd_max pcb \<and> rcv_ann_wnd pcb \<le> rcv_wnd pcb
     \<and> seq_off b (rcv_ann_right_edge pcb) \<le> seq_off b (rcv_nxt pcb) + unat (rcv_ann_wnd pcb))"

lemma update_wnd_ok:
  assumes "edge_ok b pcb" "rcv_wnd pcb \<le> rcv_wnd_max pcb"
  shows "wnd_ok b (fst (tcp_update_rcv_ann_wnd pcb))" "rcv_nxt (fst (tcp_update_rcv_ann_wnd pcb)) = rcv_nxt pcb"
    "rcv_wnd_max (fst (tcp_update_rcv_ann_wnd pcb)) = rcv_wnd_max pcb" "rcv_ann_right_edge (fst (tcp_update_rcv_ann_wnd pcb)) = rcv_ann_right_edge pcb"
proof -
  obtain p n where u: "tcp_update_rcv_ann_wnd pcb = (p, n)" by fastforce
  note k = update_ann_edge [OF assms(1) u]
  obtain x where "p = pcb\<lparr>rcv_ann_wnd := x\<rparr>" using k by blast
  then have f: "rcv_nxt p = rcv_nxt pcb" "rcv_wnd p = rcv_wnd pcb" "rcv_wnd_max p = rcv_wnd_max pcb" "rcv_ann_right_edge p = rcv_ann_right_edge pcb"
    by simp_all
  then show "wnd_ok b (fst (tcp_update_rcv_ann_wnd pcb))" "rcv_nxt (fst (tcp_update_rcv_ann_wnd pcb)) = rcv_nxt pcb"
    "rcv_wnd_max (fst (tcp_update_rcv_ann_wnd pcb)) = rcv_wnd_max pcb" "rcv_ann_right_edge (fst (tcp_update_rcv_ann_wnd pcb)) = rcv_ann_right_edge pcb"
    using k u assms(2) by (simp_all add: wnd_ok_def)
qed

lemma open_window_wnd:
  assumes "rcv_wnd pcb \<le> rcv_wnd_max pcb" "rcv_wnd pcb \<le> rcv_wnd pcb + n"
  shows "rcv_wnd pcb \<le> rcv_wnd (open_window pcb n)" "rcv_wnd (open_window pcb n) \<le> rcv_wnd_max pcb"
    "rcv_nxt (open_window pcb n) = rcv_nxt pcb" "rcv_wnd_max (open_window pcb n) = rcv_wnd_max pcb"
    "rcv_ann_right_edge (open_window pcb n) = rcv_ann_right_edge pcb"
  using assms by (auto simp: open_window_def Let_def not_less)

lemma wnd_step_ok:
  assumes ok: "wnd_ok b pcb" and bd: "seq_off b (rcv_nxt pcb) + unat (rcv_wnd_max pcb) + arrived (e # es) + 65536 < 2147483648"
    and al: "wnd_allowed pcb (e # es)"
  shows "wnd_ok b (wnd_step pcb e) \<and> seq_off b (rcv_nxt (wnd_step pcb e)) + unat (rcv_wnd_max (wnd_step pcb e)) + arrived es + 65536 < 2147483648
    \<and> seq_off b (rcv_ann_right_edge pcb) \<le> seq_off b (rcv_ann_right_edge (wnd_step pcb e))"
proof -
  have w: "unat (rcv_wnd pcb) \<le> unat (rcv_wnd_max pcb)" "unat (rcv_ann_wnd pcb) \<le> unat (rcv_wnd pcb)"
      "seq_off b (rcv_ann_right_edge pcb) \<le> seq_off b (rcv_nxt pcb) + unat (rcv_ann_wnd pcb)"
    using ok by (simp_all add: wnd_ok_def word_le_nat_alt)
  show ?thesis
  proof (cases e)
    case (Arrive n)
    have n: "n \<le> rcv_wnd pcb" using al Arrive by simp
    have ar: "arrived (e # es) = unat n + arrived es" using Arrive by (simp add: arrived_def)
    define p where "p = pcb\<lparr>rcv_nxt := rcv_nxt pcb + n, rcv_wnd := rcv_wnd pcb - n\<rparr>"
    have nx: "seq_off b (rcv_nxt pcb + n) = seq_off b (rcv_nxt pcb) + unat n" using bd ar by (intro seq_off_add) simp
    have wn: "unat (rcv_wnd pcb - n) = unat (rcv_wnd pcb) - unat n" using n by (simp add: unat_minus32 word_le_nat_alt)
    have un: "unat n \<le> unat (rcv_wnd pcb)" using n by (simp add: word_le_nat_alt)
    have "edge_ok b p" using bd ar nx wn un w by (simp add: edge_ok_def p_def)
    moreover have "rcv_wnd p \<le> rcv_wnd_max p" using wn w(1) by (simp add: p_def word_le_nat_alt)
    ultimately have u: "wnd_ok b (fst (tcp_update_rcv_ann_wnd p))" "rcv_nxt (fst (tcp_update_rcv_ann_wnd p)) = rcv_nxt p"
        "rcv_wnd_max (fst (tcp_update_rcv_ann_wnd p)) = rcv_wnd_max p" "rcv_ann_right_edge (fst (tcp_update_rcv_ann_wnd p)) = rcv_ann_right_edge p"
      using update_wnd_ok [of b p] by blast+
    have s: "wnd_step pcb e = fst (tcp_update_rcv_ann_wnd p)" by (simp add: Arrive advance_def p_def)
    have "seq_off b (rcv_nxt p) = seq_off b (rcv_nxt pcb) + unat n" "rcv_wnd_max p = rcv_wnd_max pcb" "rcv_ann_right_edge p = rcv_ann_right_edge pcb"
      using nx by (simp_all add: p_def)
    then show ?thesis unfolding s using u bd ar by simp
  next
    case (Consume n)
    define p where "p = open_window pcb n"
    have p: "rcv_wnd pcb \<le> rcv_wnd p" "rcv_wnd p \<le> rcv_wnd_max pcb" "rcv_nxt p = rcv_nxt pcb" "rcv_wnd_max p = rcv_wnd_max pcb"
        "rcv_ann_right_edge p = rcv_ann_right_edge pcb"
      unfolding p_def using open_window_wnd [of pcb n] ok al Consume by (simp_all add: wnd_ok_def)
    have ar: "arrived (e # es) = arrived es" using Consume by (simp add: arrived_def)
    have "unat (rcv_wnd pcb) \<le> unat (rcv_wnd p)" "unat (rcv_wnd p) \<le> unat (rcv_wnd_max pcb)" using p(1,2) by (simp_all add: word_le_nat_alt)
    then have "edge_ok b p" using bd ar w p(3,5) by (simp add: edge_ok_def)
    from update_wnd_ok [OF this] p have u: "wnd_ok b (fst (tcp_update_rcv_ann_wnd p))" "rcv_nxt (fst (tcp_update_rcv_ann_wnd p)) = rcv_nxt pcb"
        "rcv_wnd_max (fst (tcp_update_rcv_ann_wnd p)) = rcv_wnd_max pcb" "rcv_ann_right_edge (fst (tcp_update_rcv_ann_wnd p)) = rcv_ann_right_edge pcb"
      by simp_all
    have s: "wnd_step pcb e = fst (tcp_update_rcv_ann_wnd p)" by (simp add: Consume p_def)
    show ?thesis unfolding s using u bd ar by simp
  next
    case Announce
    have "seq_off b (rcv_nxt pcb + rcv_ann_wnd pcb) = seq_off b (rcv_nxt pcb) + unat (rcv_ann_wnd pcb)" using bd w by (intro seq_off_add) simp
    moreover have "arrived (e # es) = arrived es" using Announce by (simp add: arrived_def)
    ultimately show ?thesis using Announce ok w bd by (simp add: wnd_ok_def)
  qed
qed

section \<open>Properties\<close>

text \<open>C8. Over any sequence of arrivals within the window, reads and announcements: the announced right edge
  never moves back, and what is announced never exceeds the space that there is.\<close>

theorem window_never_shrinks:
  assumes "wnd_ok b pcb" "wnd_allowed pcb es" "seq_off b (rcv_nxt pcb) + unat (rcv_wnd_max pcb) + arrived es + 65536 < 2147483648"
  shows "seq_off b (rcv_ann_right_edge pcb) \<le> seq_off b (rcv_ann_right_edge (wnd_run pcb es)) \<and> rcv_ann_wnd (wnd_run pcb es) \<le> rcv_wnd (wnd_run pcb es)
    \<and> seq_off b (rcv_ann_right_edge (wnd_run pcb es)) \<le> seq_off b (rcv_nxt (wnd_run pcb es)) + unat (rcv_ann_wnd (wnd_run pcb es))"
  using assms
proof (induction es arbitrary: pcb)
  case Nil
  then show ?case by (simp add: wnd_ok_def)
next
  case (Cons e es)
  have k: "wnd_ok b (wnd_step pcb e)" "seq_off b (rcv_nxt (wnd_step pcb e)) + unat (rcv_wnd_max (wnd_step pcb e)) + arrived es + 65536 < 2147483648"
      "seq_off b (rcv_ann_right_edge pcb) \<le> seq_off b (rcv_ann_right_edge (wnd_step pcb e))"
    using wnd_step_ok [OF Cons.prems(1,3,2)] by simp_all
  show ?case using Cons.IH [OF k(1) _ k(2)] Cons.prems(2) k(3) by (simp del: wnd_step.simps)
qed

definition ex_wnd_pcb :: tcp_pcb where
  "ex_wnd_pcb = ex_fpcb\<lparr>rcv_nxt := 1000, rcv_wnd := 500, rcv_wnd_max := 500, rcv_ann_wnd := 500, rcv_ann_right_edge := 1500\<rparr>"

theorem window_never_shrinks_witness:
  "seq_off 1000 1500 \<le> seq_off 1000 (rcv_ann_right_edge (wnd_run ex_wnd_pcb [Arrive 300, Announce, Consume 200, Announce, Arrive 100]))"
proof -
  have "wnd_allowed ex_wnd_pcb [Arrive 300, Announce, Consume 200, Announce, Arrive 100]" by code_simp
  moreover have "wnd_ok 1000 ex_wnd_pcb" "rcv_ann_right_edge ex_wnd_pcb = 1500"
      "seq_off 1000 (rcv_nxt ex_wnd_pcb) + unat (rcv_wnd_max ex_wnd_pcb) + arrived [Arrive 300, Announce, Consume 200, Announce, Arrive 100] + 65536 < 2147483648"
    by (simp_all add: wnd_ok_def ex_wnd_pcb_def seq_off_def arrived_def)
  ultimately show ?thesis using window_never_shrinks [of 1000 ex_wnd_pcb "[Arrive 300, Announce, Consume 200, Announce, Arrive 100]"] by simp
qed

end
