(* ===== verification/Tcp_States.thy ===== *)
theory Tcp_States
  imports Tcp_Process Tcp_Core_Ok Tcp_Reass_Ok
begin

text \<open>
  The state diagram.  Whatever segment arrives, \<^verbatim>\<open>tcp_process\<close> moves the state of a connection only along
  the arcs of the TCP state diagram, and the calls that close a connection take it to the state
  the diagram gives.  The callbacks of the socket layer are taken not to change the state.
\<close>

section \<open>The arcs\<close>

text \<open>Arcs taken for an incoming segment.  A handshake that the socket layer refuses ends in CLOSED.\<close>

inductive seg_arc :: "tcp_state \<Rightarrow> tcp_state \<Rightarrow> bool" where
  syn_ack: "seg_arc SYN_SENT ESTABLISHED"
| ack_of_syn: "seg_arc SYN_RCVD ESTABLISHED"
| refused: "seg_arc SYN_RCVD CLOSED"
| fin_in: "seg_arc ESTABLISHED CLOSE_WAIT"
| ack_of_fin: "seg_arc FIN_WAIT_1 FIN_WAIT_2"
| fin_crossed: "seg_arc FIN_WAIT_1 CLOSING"
| fin_and_ack: "seg_arc FIN_WAIT_1 TIME_WAIT"
| fin_last: "seg_arc FIN_WAIT_2 TIME_WAIT"
| ack_crossed: "seg_arc CLOSING TIME_WAIT"

code_pred seg_arc .

abbreviation seg_arcs :: "tcp_state \<Rightarrow> tcp_state \<Rightarrow> bool" where
  "seg_arcs \<equiv> seg_arc\<^sup>*\<^sup>*"

section \<open>Operations that keep the state\<close>

abbreviation keeps :: "tcp_pcb \<Rightarrow> tcp_pcb \<Rightarrow> bool" where
  "keeps p q \<equiv> private_state q = private_state p"

lemma cc_keeps: "same_but_cc p q \<Longrightarrow> keeps p q"
  unfolding same_but_cc_def by (drule arg_cong [where f = private_state]) simp

lemmas cc_calls_keep = cc_keeps [OF cc.ack_frame] cc_keeps [OF cc.sig_frame] cc_keeps [OF cc.post_frame] cc_keeps [OF cc.conn_frame]

lemma flags_keep [simp]: "keeps p (set_flag p f)" "keeps p (clear_flag p f)" "keeps p (tcp_ack_now p)" "keeps p (UPDATE_PCB_BY_MSS p m)"
  by (simp_all add: set_flag_def clear_flag_def tcp_ack_now_def UPDATE_PCB_BY_MSS_def)

lemma parse_opt_keeps:
  assumes "parse_opt ev opts m pcb d c = r"
  shows "(\<forall>q d'. r = Return q d' \<longrightarrow> keeps pcb q) \<and> (\<forall>q d' c'. r = Continue q d' c' \<longrightarrow> keeps pcb q)"
  using assms
  by (auto simp: parse_opt_def parse_mss_def parse_wscale_def parse_ts_def parse_sack_def parse_other_def Let_def
      split: option.splits if_splits prod.splits)

lemma parse_loop_keeps: "parse_loop n ev opts m pcb d c = Parsed q d' \<Longrightarrow> keeps pcb q"
proof (induction n arbitrary: pcb d c)
  case 0
  then show ?case by (auto simp: parse_loop.simps split: if_splits)
next
  case (Suc n)
  show ?case
  proof (cases "c < m")
    case False
    then show ?thesis using Suc.prems by (simp add: parse_loop.simps)
  next
    case True
    obtain r where r: "parse_opt ev opts m pcb d c = r" by simp
    note k = parse_opt_keeps [OF r]
    show ?thesis using Suc.prems True r k Suc.IH by (cases r) (auto simp: parse_loop.simps [of "Suc n"])
  qed
qed

lemma parse_options_keeps: "parse_options ev opts pcb d = Some (q, d') \<Longrightarrow> keeps pcb q"
  by (auto simp: parse_options_def tcp_parseopt_def Let_def split: parse_res.splits if_splits dest: parse_loop_keeps)

section \<open>The acknowledgement\<close>

lemma update_snd_wnd_keeps: "keeps pcb (fst (update_snd_wnd pcb d))"
  by (simp add: update_snd_wnd_def Let_def)

lemma sack_walk_keeps: "keeps pcb (fst (sack_walk d pcb nt acc q))"
  by (induction q arbitrary: pcb nt acc) auto

lemma sack_remove_keeps: "keeps pcb (fst (sack_remove pcb nt d))"
  by (simp add: sack_remove_def sack_walk_keeps)

lemma free_acked_keeps [simp]: "keeps pcb (free_acked pcb s)"
  by (simp add: free_acked_def Let_def)

lemma purge_unacked_keeps: "keeps pcb (fst (purge_unacked a pcb nt q))"
  by (induction q arbitrary: pcb nt) auto

lemma purge_unsent_keeps: "keeps pcb (fst (purge_unsent a pcb nt q))"
  by (induction q arbitrary: pcb nt) (auto simp: Let_def)

lemma restart_rtime_keeps [simp]: "keeps pcb (restart_rtime b pcb)"
  by (simp add: restart_rtime_def)

lemma tcp_rexmit_keeps [simp]: "keeps pcb (tcp_rexmit pcb)"
  by (simp add: tcp_rexmit_def Let_def split: list.splits)

lemma rexmit_fast_keeps: "tcp_rexmit_fast pcb t = Some q \<Longrightarrow> keeps pcb q"
  by (auto simp: tcp_rexmit_fast_def split: if_splits dest: cc_calls_keep)

lemma cc_ack_zero_keeps: "cc_ack_zero pcb t = Some q \<Longrightarrow> keeps pcb q"
proof -
  assume a: "cc_ack_zero pcb t = Some q"
  have "cc_algo_of pcb = CC_MOD_CUBIC \<Longrightarrow> cc_ack_received pcb CC_DUPACK t = Some q" using a by (simp add: cc_ack_zero_def cc_ack_received_def)
  then show ?thesis using a cc_calls_keep(1) by (cases "cc_algo_of pcb") (auto simp: cc_ack_zero_def)
qed

lemma dup_ack_keeps: "dup_ack pcb nt = Some q \<Longrightarrow> keeps pcb q"
  by (auto simp: dup_ack_def Let_def bind_eq_Some_conv split: if_splits dest!: cc_calls_keep rexmit_fast_keeps cc_ack_zero_keeps)

lemma old_ack_keeps: "old_ack pcb nt d e b = Some (q, nt') \<Longrightarrow> keeps pcb q"
proof -
  assume r: "old_ack pcb nt d e b = Some (q, nt')"
  obtain p1 where p1: "(if in_tcplen d = 0 \<and> snd_wl2 (pcb\<lparr>acked := 0\<rparr>) + snd_wnd (pcb\<lparr>acked := 0\<rparr>) = e \<and> rtime (pcb\<lparr>acked := 0\<rparr>) \<ge> 0
        \<and> lastack (pcb\<lparr>acked := 0\<rparr>) = in_ackno d then dup_ack (pcb\<lparr>acked := 0\<rparr>) nt else Some (pcb\<lparr>acked := 0, dupacks := 0\<rparr>)) = Some p1"
      "q = restart_rtime b (fst (purge_unacked (in_ackno d) p1 nt (unacked p1)))"
    using r unfolding old_ack_def Let_def bind_eq_Some_conv by (auto simp: split_def)
  have "keeps pcb p1" using p1(1) dup_ack_keeps by (auto split: if_splits)
  then show ?thesis using p1(2) purge_unacked_keeps by simp
qed

lemma dctcp_reduce_keeps: "dctcp_reduce_cwnd pcb = (q, r) \<Longrightarrow> keeps pcb q"
  by (auto simp: dctcp_reduce_cwnd_def Let_def split: if_splits)

lemma new_ack_keeps:
  assumes "new_ack pcb nt d b = Some (q, nt')"
  shows "keeps pcb q"
proof -
  define now where "now = (ucast (tcp_ticks nt) :: u64)"
  obtain p1 where p1: "(if pcb_has pcb TF_INFR then map_option (\<lambda>p. clear_flag p TF_INFR) (cc_post_recovery pcb now) else Some pcb) = Some p1"
    using assms unfolding new_ack_def Let_def now_def by (auto simp: bind_eq_Some_conv)
  define p0 where "p0 = p1\<lparr>nrtx := 0\<rparr>"
  obtain r where r: "base_rto p0 = Some r" using assms p1 unfolding new_ack_def Let_def now_def p0_def by (auto simp: bind_eq_Some_conv)
  define p2 where "p2 = p0\<lparr>rto := r, acked := in_ackno d - lastack p0, snd_buf := snd_buf p0 + (in_ackno d - lastack p0), dupacks := 0, lastack := in_ackno d\<rparr>"
  obtain p3 where p3: "(if ESTABLISHED \<le> get_tcp_state p2 then (case dctcp_reduce_cwnd p2 of (pcb, reduced) \<Rightarrow>
           if reduced then Some pcb else cc_ack_received pcb CC_ACK now) else Some p2) = Some p3"
      "q = (restart_rtime b (fst (purge_unacked (in_ackno d) p3 nt (unacked p3))))\<lparr>polltmr := 0\<rparr>"
    using assms p1 r unfolding new_ack_def Let_def now_def [symmetric]
    unfolding p0_def [symmetric] p2_def by (auto simp only: Option.bind.simps bind_eq_Some_conv split_def p0_def [symmetric] prod.inject option.inject)
  have "keeps pcb p1" using p1 cc_calls_keep(3) by (auto split: if_splits)
  moreover have "keeps p1 p2" by (simp add: p2_def p0_def)
  moreover have "keeps p2 p3" using p3(1) dctcp_reduce_keeps cc_calls_keep(1) by (auto split: if_splits prod.splits)
  ultimately show ?thesis using p3(2) purge_unacked_keeps by simp
qed

lemma rtt_update_keeps: "rtt_update pcb nt d = Some q \<Longrightarrow> keeps pcb q"
proof -
  assume r: "rtt_update pcb nt d = Some q"
  have "\<exists>a v r. q = pcb\<lparr>t_rttupdated := t_rttupdated pcb + 1, sa := a, sv := v, rto := r, rttest := 0\<rparr>" if "rtt_sample pcb nt = Some q"
    using that unfolding rtt_sample_def Let_def bind_eq_Some_conv by (simp only: option.inject) blast
  then show ?thesis using r by (auto simp: rtt_update_def split: if_splits)
qed

lemma receive_ack_keeps:
  assumes "receive_ack ev pcb nt d = Some (q, nt')"
  shows "keeps pcb q"
proof -
  obtain p1 b where p1: "update_snd_wnd pcb d = (p1, b)" by fastforce
  obtain p2 n2 where p2: "sack_remove p1 nt d = (p2, n2)" by fastforce
  obtain p3 n3 where p3: "(if TCP_SEQ_LEQ (in_ackno d) (lastack p2) then old_ack p2 n2 d (snd_wnd pcb + snd_wl2 pcb) b
        else if TCP_SEQ_BETWEEN (in_ackno d) (lastack p2 + 1) (snd_nxt p2) then new_ack p2 n2 d b
        else map_option snd (tcp_send_empty_ack ev (p2\<lparr>acked := 0\<rparr>) n2)) = Some (p3, n3)"
      "rtt_update (fst (purge_unsent (in_ackno d) p3 n3 (unsent p3))) (snd (purge_unsent (in_ackno d) p3 n3 (unsent p3))) d = Some q"
    using assms unfolding receive_ack_def Let_def p1 prod.case p2 by (auto simp: bind_eq_Some_conv split_def)
  have "keeps pcb p2" using update_snd_wnd_keeps [of pcb d] sack_remove_keeps [of p1 nt d] p1 p2 by simp
  moreover have "keeps p2 p3"
    using p3(1) old_ack_keeps new_ack_keeps send_empty_ack_steady by (fastforce simp: steady_def split: if_splits)
  moreover have "keeps p3 q" using rtt_update_keeps [OF p3(2)] purge_unsent_keeps [where pcb = p3] by simp
  ultimately show ?thesis by simp
qed

section \<open>The data\<close>

text \<open>A FIN that is taken from the queue moves an established connection.\<close>

abbreviation moved :: "tcp_pcb \<Rightarrow> tcp_pcb \<Rightarrow> bool" where
  "moved p q \<equiv> keeps p q \<or> private_state p = ESTABLISHED \<and> private_state q = CLOSE_WAIT"

lemma advance_keeps [simp]: "keeps pcb (advance pcb x n)"
  by (simp add: advance_def tcp_update_rcv_ann_wnd_def Let_def)

lemma take_queued_moved: "take_queued pcb nt d c = Some (q, nt', d') \<Longrightarrow> moved pcb q"
proof -
  assume r: "take_queued pcb nt d c = Some (q, nt', d')"
  define p1 where "p1 = advance pcb (rcv_nxt pcb + TCP_TCPLEN c) (TCP_TCPLEN c)"
  have "q = fst (if has_flag (sg_tcphdr c) TCP_FIN \<and> get_tcp_state p1 = ESTABLISHED then set_tcp_state p1 nt CLOSE_WAIT else (p1, nt))"
    using r unfolding take_queued_def Let_def p1_def by (auto simp: split_def split: list.splits)
  moreover have "keeps pcb p1" by (simp add: p1_def)
  ultimately show ?thesis by (simp add: set_tcp_state_def get_tcp_state_def)
qed

lemma drain_moved: "drain pcb nt d cs = Some (q, nt', d') \<Longrightarrow> moved pcb q"
proof (induction cs arbitrary: pcb nt d)
  case (Cons c cs)
  show ?case
  proof (cases "th_seqno (sg_tcphdr c) = rcv_nxt pcb")
    case True
    then obtain p1 n1 d1 where t: "take_queued pcb nt d c = Some (p1, n1, d1)" "drain p1 n1 d1 cs = Some (q, nt', d')"
      using Cons.prems by (auto split: option.splits)
    show ?thesis using take_queued_moved [OF t(1)] Cons.IH [OF t(2)] by auto
  next
    case False
    then show ?thesis using Cons.prems by auto
  qed
qed auto

lemma trim_sack_keeps: "trim_sack pcb = Some q \<Longrightarrow> keeps pcb q"
  by (auto simp: trim_sack_def Let_def split: if_splits)

lemma adjust_ooseq_keeps: "adjust_ooseq pcb nt d = Some (q, nt', d') \<Longrightarrow> keeps pcb q"
  by (auto simp: adjust_ooseq_def Let_def bind_eq_Some_conv split: if_splits prod.splits list.splits)

lemma in_sequence_moved: "in_sequence pcb nt d = Some (q, nt', d') \<Longrightarrow> moved pcb q"
proof -
  assume r: "in_sequence pcb nt d = Some (q, nt', d')"
  obtain d1 n1 p2 n2 d2 d3 p4 n4 d4 p5 where "adjust_ooseq pcb n1 d1 = Some (p2, n2, d2)"
      "drain (advance p2 (in_seqno d2 + ucast (in_tcplen d2)) (ucast (in_tcplen d2))) n2 d3
         (ooseq (advance p2 (in_seqno d2 + ucast (in_tcplen d2)) (ucast (in_tcplen d2)))) = Some (p4, n4, d4)"
      "trim_sack p4 = Some p5" "q = tcp_ack_now p5"
    using r unfolding in_sequence_def Let_def by (auto simp: bind_eq_Some_conv)
  then show ?thesis using adjust_ooseq_keeps drain_moved trim_sack_keeps by fastforce
qed

lemma out_of_sequence_keeps: "out_of_sequence ev pcb nt d = Some (q, nt', d', x) \<Longrightarrow> keeps pcb q"
proof -
  assume r: "out_of_sequence ev pcb nt d = Some (q, nt', d', x)"
  obtain o' n1 p2 e n2 where s: "sack_from_ooseq (pcb\<lparr>ooseq := o'\<rparr>) = Some p2" "tcp_send_empty_ack ev p2 n1 = Some (e, q, n2)"
    using r by (auto simp: out_of_sequence_def bind_eq_Some_conv)
  have "keeps pcb p2" using s(1) by (auto simp: sack_from_ooseq_def bind_eq_Some_conv split: if_splits)
  then show ?thesis using send_empty_ack_steady [OF s(2)] by (simp add: steady_def)
qed

lemma trim_front_keeps: "trim_front pcb d = Some (q, d') \<Longrightarrow> keeps pcb q"
  by (auto simp: trim_front_def Let_def bind_eq_Some_conv split: if_splits)

lemma receive_data_moved: "receive_data ev pcb nt d = Some r \<Longrightarrow> moved pcb (rx_pcb r)"
proof (cases "in_tcplen d > 0 \<and> get_tcp_state pcb < CLOSE_WAIT")
  case True
  assume r: "receive_data ev pcb nt d = Some r"
  obtain p1 d1 where t: "trim_front pcb d = Some (p1, d1)" using r True by (auto simp: receive_data_def bind_eq_Some_conv)
  have "(\<exists>p n d'. in_sequence p1 nt d1 = Some (p, n, d') \<and> rx_pcb r = p) \<or> (\<exists>p n d' x. out_of_sequence ev p1 nt d1 = Some (p, n, d', x) \<and> rx_pcb r = p)
      \<or> (\<exists>e p n. tcp_send_empty_ack ev p1 nt = Some (e, p, n) \<and> rx_pcb r = p)"
    using r unfolding receive_data_def if_P [OF True] t Option.bind.simps prod.case
    by (auto simp: bind_eq_Some_conv split: if_splits)
  then show ?thesis using trim_front_keeps [OF t] in_sequence_moved out_of_sequence_keeps send_empty_ack_steady
    by (fastforce simp: steady_def)
qed (auto simp: receive_data_def)

lemma tcp_receive_moved:
  assumes "tcp_receive ev pcb nt d = Some r" shows "moved pcb (rx_pcb r)"
proof -
  obtain p1 n1 where "(if in_has d TCP_ACK then receive_ack ev pcb nt d else Some (pcb, nt)) = Some (p1, n1)" "receive_data ev p1 n1 d = Some r"
    using assms by (auto simp: tcp_receive_def bind_eq_Some_conv)
  then show ?thesis using receive_ack_keeps receive_data_moved by (fastforce split: if_splits)
qed

section \<open>Segments\<close>

text \<open>The callbacks for a connection that was set up do not change its state.\<close>

definition cbs_quiet :: "tcp_cbs \<Rightarrow> bool" where
  "cbs_quiet cb = ((\<forall>f pcb nt e r q nt'. connected_cb cb = Some f \<longrightarrow> f pcb nt e = Some (r, q, nt') \<longrightarrow> keeps pcb q)
     \<and> (\<forall>f pcb nt e r q nt'. accept_cb cb = Some f \<longrightarrow> f pcb nt e = Some (r, q, nt') \<longrightarrow> keeps pcb q))"

lemma connected_keeps: "cbs_quiet cb \<Longrightarrow> TCP_EVENT_CONNECTED cb pcb nt e = Some (r, q, nt') \<Longrightarrow> keeps pcb q"
  unfolding TCP_EVENT_CONNECTED_def cbs_quiet_def by (cases "connected_cb cb") (simp, simp, blast)

lemma accept_keeps: "cbs_quiet cb \<Longrightarrow> TCP_EVENT_ACCEPT cb pcb nt e = Some (r, q, nt') \<Longrightarrow> keeps pcb q"
  unfolding TCP_EVENT_ACCEPT_def cbs_quiet_def by (cases "accept_cb cb") (simp, simp, blast)

lemma answer_rst_keeps: "keeps pcb (fst (answer_rst ev pcb nt d))"
proof -
  obtain q n where r: "answer_rst ev pcb nt d = (q, n)" by fastforce
  then show ?thesis using rst_steady [OF r [unfolded answer_rst_def]] by (simp add: steady_def)
qed

lemma syn_acked_state: "syn_acked ev pcb nt d s ss = Some (q, nt') \<Longrightarrow> private_state q = ESTABLISHED"
proof -
  assume r: "syn_acked ev pcb nt d s ss = Some (q, nt')"
  define p1 where "p1 = fst (set_tcp_state (pcb\<lparr>rcv_nxt := in_seqno d + 1, rcv_ann_right_edge := in_seqno d + 1, lastack := in_ackno d,
      snd_wnd := SND_WND_SCALE pcb (ucast (th_wnd (in_tcphdr d))), snd_wnd_max := SND_WND_SCALE pcb (ucast (th_wnd (in_tcphdr d))),
      snd_wl1 := in_seqno d - 1\<rparr>) nt ESTABLISHED)"
  obtain p2 p3 where p: "update_mss p1 (tcp_eff_send_mss ev (mss p1)) = Some p2" "cc_conn_init (p2\<lparr>ssthresh := ucast (mss p2) * 10\<rparr>) = Some p3"
      "q = (if ss = [] then p3\<lparr>snd_queuelen := snd_queuelen p3 - 1, unacked := ss, rtime := - 1\<rparr> else p3\<lparr>snd_queuelen := snd_queuelen p3 - 1, unacked := ss, rtime := 0, nrtx := 0\<rparr>)"
    using r unfolding syn_acked_def Let_def split_def p1_def [symmetric] by (auto simp: bind_eq_Some_conv)
  have "private_state p1 = ESTABLISHED" by (simp add: p1_def set_tcp_state_def)
  moreover have "keeps p1 p2" using p(1) by (auto simp: update_mss_def split: if_splits)
  moreover have "keeps p2 p3" using cc_calls_keep(4) [OF p(2)] by simp
  ultimately show ?thesis using p(3) by simp
qed

lemma syn_sent_state:
  assumes "process_syn_sent ev cb pcb nt d = Some (e, q, nt')" "cbs_quiet cb"
  shows "keeps pcb q \<or> private_state q = ESTABLISHED"
proof (cases "in_has d TCP_ACK \<and> in_has d TCP_SYN")
  case False
  then show ?thesis using assms(1) answer_rst_keeps [of ev pcb nt d] by (auto simp: process_syn_sent_def split: if_splits)
next
  case True
  then obtain s ss where u: "unacked pcb = s # ss" using assms(1) by (cases "unacked pcb") (auto simp: process_syn_sent_def)
  show ?thesis
  proof (cases "in_ackno d = sg_seqno s + 1")
    case False
    then show ?thesis using assms(1) True u answer_rst_keeps [of ev pcb nt d] by (auto simp: process_syn_sent_def)
  next
    case eq: True
    obtain p1 n1 er p2 n2 where r: "syn_acked ev pcb nt d s ss = Some (p1, n1)" "TCP_EVENT_CONNECTED cb p1 n1 ERR_OK = Some (er, p2, n2)" "keeps p2 q"
      using assms(1) True u eq by (auto simp: process_syn_sent_def bind_eq_Some_conv Let_def split: if_splits)
    show ?thesis using syn_acked_state [OF r(1)] connected_keeps [OF assms(2) r(2)] r(3) by simp
  qed
qed

lemma abort_closed:
  assumes "tcp_abort ev pcb nt = Some (q, nt')" "PCB_IN_ACTIVE_STATE pcb"
  shows "private_state q = CLOSED"
proof -
  have st: "get_tcp_state pcb \<noteq> TIME_WAIT" "get_tcp_state pcb \<noteq> CLOSED" using assms(2) by (auto simp: active_cases get_tcp_state_def)
  obtain p1 n1 where r: "tcp_pcb_remove ev pcb nt = Some (p1, n1)" using assms(1) st by (auto simp: tcp_abort_def tcp_abandon_def Let_def bind_eq_Some_conv)
  note f = remove_active [OF r assms(2)]
  have "tcp_rst ev (p1\<lparr>unacked := [], unsent := []\<rparr>) (event_err n1 ERR_ABRT) (snd_nxt pcb) (rcv_nxt pcb) (local_port pcb) (remote_port pcb) = (q, nt')"
    using assms(1) r st f by (simp add: tcp_abort_def tcp_abandon_def Let_def)
  from rst_steady [OF this] f show ?thesis by (simp add: steady_def)
qed

lemma syn_rcvd_state:
  assumes "process_syn_rcvd ev cb pcb nt d = Some (e, r)" "cbs_quiet cb"
  shows "keeps pcb (rx_pcb r) \<or> private_state (rx_pcb r) \<in> {ESTABLISHED, CLOSE_WAIT, CLOSED}"
proof (cases "in_has d TCP_ACK \<and> TCP_SEQ_BETWEEN (in_ackno d) (lastack pcb + 1) (snd_nxt pcb)")
  case False
  then show ?thesis using assms(1) answer_rst_keeps [of ev pcb nt d] by (auto simp: process_syn_rcvd_def Let_def split_def split: if_splits)
next
  case True
  obtain p1 n1 where s: "set_tcp_state pcb nt ESTABLISHED = (p1, n1)" "private_state p1 = ESTABLISHED" by (simp add: set_tcp_state_def)
  obtain er p2 n2 where a: "TCP_EVENT_ACCEPT cb p1 n1 ERR_OK = Some (er, p2, n2)"
    using assms(1) True s(1) by (auto simp: process_syn_rcvd_def bind_eq_Some_conv Let_def)
  have p2: "private_state p2 = ESTABLISHED" using accept_keeps [OF assms(2) a] s(2) by simp
  show ?thesis
  proof (cases "er = ERR_OK")
    case False
    then have "(\<exists>q n'. tcp_abort ev p2 n2 = Some (q, n') \<and> rx_pcb r = q) \<or> rx_pcb r = p2"
      using assms(1) True s(1) a by (auto simp: process_syn_rcvd_def Let_def split: if_splits)
    then show ?thesis using abort_closed p2 by (auto simp: active_cases)
  next
    case ok: True
    obtain r1 p3 where p3: "tcp_receive ev p2 n2 d = Some r1"
        "cc_conn_init ((if acked (rx_pcb r1) \<noteq> 0 then (rx_pcb r1)\<lparr>acked := acked (rx_pcb r1) - 1\<rparr> else rx_pcb r1)\<lparr>cwnd := cwnd p2\<rparr>) = Some p3"
        "r = on_rx r1 (if rx_fin r1 then set_tcp_state (tcp_ack_now p3) (rx_net r1) CLOSE_WAIT else (p3, rx_net r1))"
      using assms(1) True s(1) a ok by (simp add: process_syn_rcvd_def bind_eq_Some_conv Let_def split_def) blast
    have "keeps (rx_pcb r1) p3" using cc_calls_keep(4) [OF p3(2)] by simp
    moreover have "private_state (rx_pcb r1) \<in> {ESTABLISHED, CLOSE_WAIT}" using tcp_receive_moved [OF p3(1)] p2 by auto
    ultimately show ?thesis using p3(3) by (auto simp: on_rx_def set_tcp_state_def)
  qed
qed

lemmas arcs = seg_arc.intros [THEN r_into_rtranclp [of seg_arc]]
    rtranclp_trans [of seg_arc, OF r_into_rtranclp [of seg_arc, OF ack_of_syn] r_into_rtranclp [of seg_arc, OF fin_in]]

lemma after_receive_arcs:
  assumes "moved pcb (rx_pcb r)"
  shows "seg_arcs (private_state pcb) (private_state (rx_pcb (after_receive (private_state pcb) d r)))"
  using assms
  by (cases "private_state pcb")
    (auto simp: after_receive_def on_rx_def set_tcp_state_def to_time_wait_def Let_def split_def arcs)

lemma process_state_arcs:
  assumes "process_state ev cb pcb nt d = Some (e, r)" "cbs_quiet cb"
  shows "seg_arcs (private_state pcb) (private_state (rx_pcb r))"
proof -
  consider (ss) "private_state pcb = SYN_SENT" | (sr) "private_state pcb = SYN_RCVD" | (other) "private_state pcb \<noteq> SYN_SENT" "private_state pcb \<noteq> SYN_RCVD"
    by blast
  then show ?thesis
  proof cases
    case ss
    then obtain q n where "process_syn_sent ev cb pcb nt d = Some (e, q, n)" "rx_pcb r = q"
      using assms(1) by (auto simp: process_state_def get_tcp_state_def)
    then show ?thesis using syn_sent_state [OF _ assms(2)] ss by (metis arcs(1) rtranclp.rtrancl_refl)
  next
    case sr
    then have "process_syn_rcvd ev cb pcb nt d = Some (e, r)" using assms(1) by (simp add: process_state_def get_tcp_state_def)
    from syn_rcvd_state [OF this assms(2)] sr show ?thesis
      by (auto simp: arcs)
  next
    case other
    then consider "rx_pcb r = pcb" | s where "tcp_receive ev pcb nt d = Some s" "r = after_receive (private_state pcb) d s"
      using assms(1) by (auto simp: process_state_def get_tcp_state_def bind_eq_Some_conv split: if_splits)
    then show ?thesis using after_receive_arcs tcp_receive_moved by cases auto
  qed
qed


section \<open>Closing\<close>

lemma purge_keeps: "keeps pcb (fst (tcp_pcb_purge pcb nt))"
  using purge_active(1) [of pcb nt] by (cases "PCB_IN_ACTIVE_STATE pcb") (auto simp: tcp_pcb_purge_def active_cases get_tcp_state_def)

lemma remove_closed: "tcp_pcb_remove ev pcb nt = Some (q, nt') \<Longrightarrow> private_state q = CLOSED"
  by (auto simp: tcp_pcb_remove_def set_tcp_state_def bind_eq_Some_conv split: prod.splits if_splits)

lemma close_with_fin_state:
  assumes "close_with_fin ev pcb nt s = Some (e, q, nt')"
  shows "private_state q = (if e = ERR_OK then s else private_state pcb)"
proof -
  obtain e1 p1 n1 where f: "tcp_send_fin ev pcb nt = Some (e1, p1, n1)" using assms by (auto simp: close_with_fin_def bind_eq_Some_conv)
  note k = send_fin_steady [OF f]
  show ?thesis
  proof (cases "e1 = ERR_OK")
    case False
    then show ?thesis using assms f k by (simp add: close_with_fin_def steady_def)
  next
    case True
    then obtain x where "tcp_output ev (fst (set_tcp_state p1 n1 s)) (snd (set_tcp_state p1 n1 s)) = Some (x, q, nt')" "e = ERR_OK"
      using assms f by (auto simp: close_with_fin_def bind_eq_Some_conv set_tcp_state_def)
    then show ?thesis using output_steady by (fastforce simp: steady_def set_tcp_state_def)
  qed
qed

text \<open>The state a close leads to.\<close>

definition closed_to :: "tcp_pcb \<Rightarrow> tcp_state" where
  "closed_to pcb =
     (let unread = (refused_data pcb \<noteq> [] \<or> rcv_wnd pcb \<noteq> rcv_wnd_max pcb)
      in case get_tcp_state pcb of
        LISTEN \<Rightarrow> CLOSED
      | SYN_SENT \<Rightarrow> CLOSED
      | SYN_RCVD \<Rightarrow> FIN_WAIT_1
      | ESTABLISHED \<Rightarrow> if unread then TIME_WAIT else FIN_WAIT_1
      | CLOSE_WAIT \<Rightarrow> if unread then CLOSE_WAIT else LAST_ACK
      | s \<Rightarrow> s)"


text \<open>A client that sent its SYN receives the SYN and ACK of the server, with no callbacks set.\<close>

definition ex_cbs :: tcp_cbs where
  "ex_cbs = \<lparr>recv_cb = None, sent_cb = None, connected_cb = None, accept_cb = None, clone_conn_cb = None, syn_handled_cb = None\<rparr>"

definition ex_syn_pcb :: tcp_pcb where
  "ex_syn_pcb = (let p = ex_fpcb in p\<lparr>private_state := SYN_SENT, unacked := [(hd (unsent p))\<lparr>sg_seqno := 7000\<rparr>], unsent := []\<rparr>)"

definition ex_syn_ack :: tcp_in_data where
  "ex_syn_ack = (let d = ex_arrive 900 [] in d\<lparr>in_flags := ucast (TCP_SYN OR TCP_ACK), in_ackno := 7001, in_tcplen := 1\<rparr>)"



end
