(* ===== verification/Delta_Timer.thy ===== *)
theory Delta_Timer
  imports Vma_Prelude "HOL-Library.Multiset"
begin

text \<open>
  The timers of the internal thread, \<^verbatim>\<open>src/src/vma/event/delta_timer.cpp\<close>, in the build with millisecond
  granularity (\<^verbatim>\<open>TIMER_US_GRAN\<close> is 0 in \<^verbatim>\<open>src/src/custom.h\<close>).  Timers are kept in a list in which a node holds the
  time from the node before it.  The list is shown to stand for the absolute expiry times
  of its nodes; an update takes the elapsed time off all of them, and a pass over the expired
  nodes calls each handler once.  The doubly linked list is a list of nodes with their addresses;
  a pointer to a node that is not on it is undefined behaviour, \<^term>\<open>None\<close>.
\<close>

section \<open>Time\<close>

record timespec =
  tv_sec :: int
  tv_nsec :: int

definition ts_sub :: "timespec \<Rightarrow> timespec \<Rightarrow> timespec" where
  "ts_sub a b =
     (let s = tv_sec a - tv_sec b; n = tv_nsec a - tv_nsec b
      in if n < 0 then \<lparr>tv_sec = s - 1, tv_nsec = n + 1000000000\<rparr> else \<lparr>tv_sec = s, tv_nsec = n\<rparr>)"

definition ts_to_msec :: "timespec \<Rightarrow> int" where
  "ts_to_msec t = tv_sec t * 1000 + tv_nsec t div 1000000"

section \<open>Nodes and lists\<close>

datatype timer_req_type = PERIODIC_TIMER | ONE_SHOT_TIMER | INVALID_TIMER

text \<open>Handlers and user data are addresses; handler 0 is the null pointer.\<close>

record timer_node =
  tn_addr :: nat
  delta_time_msec :: u32
  orig_time_msec :: u32
  tn_handler :: nat
  tn_user_data :: nat
  req_type :: timer_req_type

text \<open>The object of class \<^verbatim>\<open>timer\<close>, with the nodes whose \<^verbatim>\<open>lock_timer\<close> is held by a call of unregister,
  and logs of the handlers called and of the nodes freed.\<close>

record timer =
  m_list :: "timer_node list"
  m_ts_last :: timespec
  tm_locked :: "nat list"
  tm_fired :: "(nat \<times> nat) list"
  tm_freed :: "nat list"

definition IS_NODE_INVALID :: "timer_node \<Rightarrow> bool" where
  "IS_NODE_INVALID n = (tn_handler n = 0 \<or> req_type n = INVALID_TIMER)"

definition find_node :: "nat \<Rightarrow> timer_node list \<Rightarrow> timer_node option" where
  "find_node a xs = find (\<lambda>n. tn_addr n = a) xs"

text \<open>The loop that looks for the place: \<open>tmp\<close> is the time left of the new node.\<close>

fun insert_walk :: "u32 \<Rightarrow> timer_node \<Rightarrow> timer_node list \<Rightarrow> timer_node list" where
  "insert_walk tmp nd [] = [nd\<lparr>delta_time_msec := tmp\<rparr>]"
| "insert_walk tmp nd (n # ns) =
     (if tmp \<ge> delta_time_msec n then n # insert_walk (tmp - delta_time_msec n) nd ns
      else nd\<lparr>delta_time_msec := tmp\<rparr> # n\<lparr>delta_time_msec := delta_time_msec n - tmp\<rparr> # ns)"

definition insert_to_list :: "timer_node \<Rightarrow> timer_node list \<Rightarrow> timer_node list" where
  "insert_to_list nd xs = (if xs = [] then [nd\<lparr>delta_time_msec := orig_time_msec nd\<rparr>] else insert_walk (orig_time_msec nd) nd xs)"

fun remove_from_list :: "nat \<Rightarrow> timer_node list \<Rightarrow> timer_node list" where
  "remove_from_list a [] = []"
| "remove_from_list a (n # ns) =
     (if tn_addr n = a
      then (case ns of [] \<Rightarrow> [] | m # ms \<Rightarrow> m\<lparr>delta_time_msec := delta_time_msec m + delta_time_msec n\<rparr> # ms)
      else n # remove_from_list a ns)"

section \<open>Operations\<close>

definition add_new_timer :: "u32 \<Rightarrow> nat \<Rightarrow> nat \<Rightarrow> nat \<Rightarrow> timer_req_type \<Rightarrow> timer \<Rightarrow> timer" where
  "add_new_timer timeout_msec node handler user_data ty t =
     (let n = \<lparr>tn_addr = node, delta_time_msec = 0, orig_time_msec = timeout_msec, tn_handler = handler, tn_user_data = user_data, req_type = ty\<rparr>
      in if IS_NODE_INVALID n then t\<lparr>tm_freed := tm_freed t @ [node]\<rparr>
         else t\<lparr>m_list := insert_to_list n (m_list t)\<rparr>)"

text \<open>The node is inserted with a timeout of 0 and gets its own timeout back.\<close>

definition wakeup_timer :: "nat \<Rightarrow> timer \<Rightarrow> timer option" where
  "wakeup_timer node t =
     (case find_node node (m_list t) of None \<Rightarrow> None
      | Some n \<Rightarrow>
          Some (if IS_NODE_INVALID n then t
                else (let orig_time = orig_time_msec n;
                          xs = insert_to_list (n\<lparr>orig_time_msec := 0\<rparr>) (remove_from_list node (m_list t))
                      in t\<lparr>m_list := map (\<lambda>m. if tn_addr m = node then m\<lparr>orig_time_msec := orig_time\<rparr> else m) xs\<rparr>)))"

definition remove_node :: "timer_node \<Rightarrow> timer \<Rightarrow> timer" where
  "remove_node n t = t\<lparr>m_list := remove_from_list (tn_addr n) (m_list t), tm_freed := tm_freed t @ [tn_addr n]\<rparr>"

text \<open>With no node given the first one of the handler is taken.\<close>

definition remove_timer :: "nat option \<Rightarrow> nat \<Rightarrow> timer \<Rightarrow> timer option" where
  "remove_timer node handler t =
     (case node of
        None \<Rightarrow> Some (case find (\<lambda>n. tn_handler n = handler) (m_list t) of None \<Rightarrow> t
                      | Some n \<Rightarrow> if IS_NODE_INVALID n \<or> tn_handler n \<noteq> handler then t else remove_node n t)
      | Some a \<Rightarrow> (case find_node a (m_list t) of None \<Rightarrow> None
                   | Some n \<Rightarrow> Some (if IS_NODE_INVALID n \<or> tn_handler n \<noteq> handler then t else remove_node n t)))"

text \<open>The loop over all nodes; \<open>c\<close> is what the node removed last adds to the delta of its successor.\<close>

fun remove_all_walk :: "nat \<Rightarrow> u32 \<Rightarrow> timer_node list \<Rightarrow> timer_node list \<times> nat list" where
  "remove_all_walk handler c [] = ([], [])"
| "remove_all_walk handler c (n # ns) =
     (let n = n\<lparr>delta_time_msec := delta_time_msec n + c\<rparr>
      in if tn_handler n = handler \<and> \<not> IS_NODE_INVALID n
         then (let (xs, fs) = remove_all_walk handler (delta_time_msec n) ns in (xs, tn_addr n # fs))
         else (let (xs, fs) = remove_all_walk handler 0 ns in (n # xs, fs)))"

definition remove_all_timers :: "nat \<Rightarrow> timer \<Rightarrow> timer" where
  "remove_all_timers handler t =
     (let (xs, fs) = remove_all_walk handler 0 (m_list t) in t\<lparr>m_list := xs, tm_freed := tm_freed t @ fs\<rparr>)"

text \<open>Taking the elapsed time off the list; \<open>d\<close> is the variable \<^verbatim>\<open>delta_msec\<close> of type int.\<close>

fun elapse :: "u32 \<Rightarrow> timer_node list \<Rightarrow> timer_node list" where
  "elapse d [] = []"
| "elapse d (n # ns) =
     (if 0 < sint d
      then (if sint d < sint (delta_time_msec n) then n\<lparr>delta_time_msec := delta_time_msec n - d\<rparr> # ns
            else n\<lparr>delta_time_msec := 0\<rparr> # elapse (d - delta_time_msec n) ns)
      else n # ns)"

definition INFINITE_TIMEOUT :: int where "INFINITE_TIMEOUT = - 1"

definition update_timeout :: "timespec \<Rightarrow> timer \<Rightarrow> int \<times> timer" where
  "update_timeout ts_now t =
     (let delta_msec = (word_of_int (ts_to_msec (ts_sub ts_now (m_ts_last t))) :: u32);
          t = (if 0 < sint delta_msec then t\<lparr>m_ts_last := ts_now\<rparr> else t);
          xs = elapse delta_msec (m_list t)
      in case xs of [] \<Rightarrow> (INFINITE_TIMEOUT, t) | n # _ \<Rightarrow> (sint (delta_time_msec n), t\<lparr>m_list := xs\<rparr>))"

text \<open>The pass over the expired nodes.  What a handler does is a parameter: it does not change the list, since
  registrations are queued for the thread, but it may unregister nodes, which locks them.\<close>

fun next_node :: "nat \<Rightarrow> timer_node list \<Rightarrow> nat option" where
  "next_node a [] = None"
| "next_node a (n # ns) = (if tn_addr n = a then (case ns of [] \<Rightarrow> None | m # _ \<Rightarrow> Some (tn_addr m)) else next_node a ns)"

definition expire_node :: "(nat \<Rightarrow> nat \<Rightarrow> nat list) \<Rightarrow> timer_node \<Rightarrow> timer \<Rightarrow> timer" where
  "expire_node unregs n t =
     (if tn_handler n \<noteq> 0 \<and> tn_addr n \<notin> set (tm_locked t)
      then t\<lparr>tm_fired := tm_fired t @ [(tn_handler n, tn_user_data n)], tm_locked := tm_locked t @ unregs (tn_handler n) (tn_user_data n)\<rparr>
      else t)"

fun process_loop :: "nat \<Rightarrow> (nat \<Rightarrow> nat \<Rightarrow> nat list) \<Rightarrow> nat option \<Rightarrow> timer \<Rightarrow> timer option" where
  "process_loop fuel unregs iter t =
     (case iter of None \<Rightarrow> Some t
      | Some a \<Rightarrow>
          (case find_node a (m_list t) of None \<Rightarrow> None
           | Some n \<Rightarrow>
               if delta_time_msec n \<noteq> 0 then Some t
               else case fuel of 0 \<Rightarrow> None
               | Suc k \<Rightarrow> do {
                   let t = expire_node unregs n t;
                   let next_iter = next_node a (m_list t);
                   t \<leftarrow> (case req_type n of
                          PERIODIC_TIMER \<Rightarrow> Some (t\<lparr>m_list := insert_to_list n (remove_from_list a (m_list t))\<rparr>)
                        | ONE_SHOT_TIMER \<Rightarrow> remove_timer (Some a) (tn_handler n) t
                        | INVALID_TIMER \<Rightarrow> Some t);
                   process_loop k unregs next_iter t
                 }))"

declare process_loop.simps [simp del]

definition process_registered_timers :: "nat \<Rightarrow> (nat \<Rightarrow> nat \<Rightarrow> nat list) \<Rightarrow> timer \<Rightarrow> timer option" where
  "process_registered_timers fuel unregs t =
     process_loop fuel unregs (case m_list t of [] \<Rightarrow> None | n # _ \<Rightarrow> Some (tn_addr n)) t"

section \<open>Expiry times\<close>

text \<open>What the list stands for: each node with the time until it expires.\<close>

fun expiries :: "nat \<Rightarrow> timer_node list \<Rightarrow> (nat \<times> nat) list" where
  "expiries b [] = []"
| "expiries b (n # ns) = (tn_addr n, b + unat (delta_time_msec n)) # expiries (b + unat (delta_time_msec n)) ns"

definition put_expiry :: "nat \<Rightarrow> nat \<Rightarrow> (nat \<times> nat) list \<Rightarrow> (nat \<times> nat) list" where
  "put_expiry a x es = takeWhile (\<lambda>e. snd e \<le> x) es @ (a, x) # dropWhile (\<lambda>e. snd e \<le> x) es"

lemma expiries_ge: "e \<in> set (expiries b xs) \<Longrightarrow> b \<le> snd e"
  by (induction xs arbitrary: b) fastforce+

lemma expiries_sorted: "sorted (map snd (expiries b xs))"
  using expiries_ge by (induction xs arbitrary: b) fastforce+

lemma expiries_addrs [simp]: "map fst (expiries b xs) = map tn_addr xs"
  by (induction xs arbitrary: b) simp_all

lemma expiries_length [simp]: "length (expiries b xs) = length xs"
  by (induction xs arbitrary: b) simp_all

lemma put_expiry_before: "(\<And>e. e \<in> set es \<Longrightarrow> x < snd e) \<Longrightarrow> put_expiry a x es = (a, x) # es"
  by (cases es) (force simp: put_expiry_def)+

lemma insert_walk_expiries: "expiries b (insert_walk tmp nd xs) = put_expiry (tn_addr nd) (b + unat tmp) (expiries b xs)"
proof (induction xs arbitrary: b tmp)
  case Nil
  then show ?case by (simp add: put_expiry_def)
next
  case (Cons n ns)
  show ?case
  proof (cases "delta_time_msec n \<le> tmp")
    case True
    then have e: "b + unat (delta_time_msec n) + unat (tmp - delta_time_msec n) = b + unat tmp"
      by (simp add: unat_minus_le word_le_nat_alt)
    show ?thesis using True by (simp add: Cons.IH) (simp only: e put_expiry_def word_le_nat_alt takeWhile.simps dropWhile.simps snd_conv add_left_mono if_True append_Cons)
  next
    case False
    then have l: "unat tmp < unat (delta_time_msec n)" by (simp add: word_le_nat_alt)
    then have "\<And>e. e \<in> set (expiries b (n # ns)) \<Longrightarrow> b + unat tmp < snd e" using expiries_ge by fastforce
    from put_expiry_before [of "expiries b (n # ns)", OF this, of "tn_addr nd"] show ?thesis using False l by (simp add: unat_minus_le word_le_nat_alt)
  qed
qed

lemma insert_expiries: "expiries 0 (insert_to_list nd xs) = put_expiry (tn_addr nd) (unat (orig_time_msec nd)) (expiries 0 xs)"
  using insert_walk_expiries [of 0 "orig_time_msec nd" nd xs] by (cases "xs = []") (simp_all add: insert_to_list_def put_expiry_def)

lemma insert_walk_zeros: "\<forall>n \<in> set zs. delta_time_msec n = 0 \<Longrightarrow> insert_walk tmp nd (zs @ xs) = zs @ insert_walk tmp nd xs"
  by (induction zs) simp_all

lemma insert_walk_pos:
  "0 < tmp \<Longrightarrow> xs = [] \<or> delta_time_msec (hd xs) \<noteq> 0 \<Longrightarrow> delta_time_msec (hd (insert_walk tmp nd xs)) \<noteq> 0"
  by (cases xs) auto

lemma insert_walk_addrs: "mset (map tn_addr (insert_walk tmp nd xs)) = add_mset (tn_addr nd) (mset (map tn_addr xs))"
  by (induction xs arbitrary: tmp) simp_all

lemma insert_addrs: "mset (map tn_addr (insert_to_list nd xs)) = add_mset (tn_addr nd) (mset (map tn_addr xs))"
  using insert_walk_addrs [of "orig_time_msec nd" nd xs] by (simp add: insert_to_list_def)

text \<open>The sum of all deltas, the expiry time of the last node.\<close>

definition span :: "timer_node list \<Rightarrow> nat" where
  "span xs = sum_list (map (\<lambda>n. unat (delta_time_msec n)) xs)"

lemma span_simps [simp]: "span [] = 0" "span (n # ns) = unat (delta_time_msec n) + span ns" "span (xs @ ys) = span xs + span ys"
  by (simp_all add: span_def)

lemma remove_expiries:
  "distinct (map tn_addr xs) \<Longrightarrow> span xs < 4294967296 \<Longrightarrow> expiries b (remove_from_list a xs) = filter (\<lambda>e. fst e \<noteq> a) (expiries b xs)"
proof (induction xs arbitrary: b)
  case Nil
  then show ?case by simp
next
  case (Cons n ns)
  have keep: "tn_addr n = a \<Longrightarrow> filter (\<lambda>e. fst e \<noteq> a) (expiries c ns) = expiries c ns" for c
  proof -
    assume "tn_addr n = a"
    then have "a \<notin> fst ` set (expiries c ns)" using Cons.prems(1) by (simp flip: set_map)
    then show ?thesis by (auto simp: filter_id_conv image_iff)
  qed
  show ?case
  proof (cases "tn_addr n = a")
    case False
    then show ?thesis using Cons by simp
  next
    case True
    then have f: "filter (\<lambda>e. fst e \<noteq> a) (expiries b (n # ns)) = expiries (b + unat (delta_time_msec n)) ns"
      using keep by simp
    show ?thesis
    proof (cases ns)
      case Nil
      then show ?thesis using True by simp
    next
      case (Cons m ms)
      then have "unat (delta_time_msec m + delta_time_msec n) = unat (delta_time_msec n) + unat (delta_time_msec m)"
        using Cons.prems(2) by (simp add: unat_plus32)
      then show ?thesis using True Cons f by (simp add: add.assoc)
    qed
  qed
qed

lemma expiries_shift: "expiries (b + c) xs = map (\<lambda>(a, x). (a, x + c)) (expiries b xs)"
proof (induction xs arbitrary: b)
  case (Cons n ns)
  then show ?case using Cons.IH [of "b + unat (delta_time_msec n)"] by (simp add: ac_simps)
qed simp

lemma elapse_expiries:
  "unat d < 2147483648 \<Longrightarrow> \<forall>n \<in> set xs. unat (delta_time_msec n) < 2147483648 \<Longrightarrow>
    expiries 0 (elapse d xs) = map (\<lambda>(a, x). (a, x - unat d)) (expiries 0 xs)"
proof (induction xs arbitrary: d)
  case Nil
  then show ?case by simp
next
  case (Cons n ns)
  have sd: "sint d = int (unat d)" by (rule sint_small) (rule Cons.prems(1))
  have sn: "sint (delta_time_msec n) = int (unat (delta_time_msec n))" by (rule sint_small) (use Cons.prems(2) in simp)
  have s: "(0 < sint d) = (d \<noteq> 0)" "(sint d < sint (delta_time_msec n)) = (unat d < unat (delta_time_msec n))"
    unfolding sd sn of_nat_less_iff of_nat_0_less_iff unat_gt_0 by (rule refl)+
  show ?case
  proof (cases "unat d < unat (delta_time_msec n)")
    case True
    have e: "expiries (unat (delta_time_msec n)) ns = map (\<lambda>(a, x). (a, x + unat (delta_time_msec n))) (expiries 0 ns)"
      "expiries (unat (delta_time_msec n) - unat d) ns = map (\<lambda>(a, x). (a, x + (unat (delta_time_msec n) - unat d))) (expiries 0 ns)"
      using expiries_shift [of 0 "unat (delta_time_msec n)" ns] expiries_shift [of 0 "unat (delta_time_msec n) - unat d" ns] by simp_all
    have "unat (delta_time_msec n - d) = unat (delta_time_msec n) - unat d" using True by (simp add: unat_minus32)
    then show ?thesis using True s e by (cases "d = 0") (auto intro!: map_idI)
  next
    case False
    have e: "expiries (unat (delta_time_msec n)) ns = map (\<lambda>(a, x). (a, x + unat (delta_time_msec n))) (expiries 0 ns)"
      using expiries_shift [of 0 "unat (delta_time_msec n)" ns] by simp
    have d: "unat (d - delta_time_msec n) = unat d - unat (delta_time_msec n)" using False by (simp add: unat_minus32)
    have ih: "expiries 0 (elapse (d - delta_time_msec n) ns) = map (\<lambda>(a, x). (a, x - unat (d - delta_time_msec n))) (expiries 0 ns)"
      by (rule Cons.IH) (use Cons.prems d in auto)
    show ?thesis
    proof (cases "d = 0")
      case True
      then have "delta_time_msec n = 0" using False by (simp add: unat_eq_0)
      then show ?thesis using True by (auto simp: split_def)
    next
      case pos: False
      then show ?thesis using False s ih e d by (auto simp: split_def)
    qed
  qed
qed

section \<open>The pass over the expired timers\<close>

text \<open>The handlers a pass calls: those of the expired nodes in order, unless the node was unregistered.\<close>

fun calls :: "(nat \<Rightarrow> nat \<Rightarrow> nat list) \<Rightarrow> nat list \<Rightarrow> timer_node list \<Rightarrow> (nat \<times> nat) list" where
  "calls unregs L [] = []"
| "calls unregs L (n # ns) =
     (if tn_addr n \<in> set L then calls unregs L ns
      else (tn_handler n, tn_user_data n) # calls unregs (L @ unregs (tn_handler n) (tn_user_data n)) ns)"

text \<open>Periodic nodes are put back with their period.\<close>

fun put_back :: "timer_node list \<Rightarrow> (nat \<times> nat) list \<Rightarrow> (nat \<times> nat) list" where
  "put_back [] es = es"
| "put_back (n # ns) es =
     put_back ns (if req_type n = PERIODIC_TIMER then put_expiry (tn_addr n) (unat (orig_time_msec n)) es else es)"

abbreviation head_later :: "timer_node list \<Rightarrow> bool" where
  "head_later xs \<equiv> xs = [] \<or> delta_time_msec (hd xs) \<noteq> 0"

definition expired_ok :: "timer_node \<Rightarrow> bool" where
  "expired_ok n = (delta_time_msec n = 0 \<and> \<not> IS_NODE_INVALID n \<and> (req_type n = PERIODIC_TIMER \<longrightarrow> 0 < orig_time_msec n))"

lemma remove_front: "delta_time_msec n = 0 \<Longrightarrow> remove_from_list (tn_addr n) (n # xs) = xs"
  by (cases xs) simp_all

lemma process_step:
  assumes "m_list t = n # zs @ xs" "expired_ok n" "\<forall>z \<in> set zs. delta_time_msec z = 0" "head_later xs"
  shows "process_loop (Suc k) unregs (Some (tn_addr n)) t =
    process_loop k unregs (case zs @ xs of [] \<Rightarrow> None | m # _ \<Rightarrow> Some (tn_addr m))
      (if req_type n = PERIODIC_TIMER then (expire_node unregs n t)\<lparr>m_list := zs @ insert_to_list n xs\<rparr>
       else (expire_node unregs n t)\<lparr>m_list := zs @ xs, tm_freed := tm_freed t @ [tn_addr n]\<rparr>)"
proof -
  have f: "find_node (tn_addr n) (m_list t) = Some n" by (simp add: find_node_def assms(1))
  have e: "m_list (expire_node unregs n t) = n # zs @ xs" "tm_freed (expire_node unregs n t) = tm_freed t"
    by (simp_all add: expire_node_def assms(1))
  have r: "remove_from_list (tn_addr n) (n # zs @ xs) = zs @ xs" using assms(2) by (simp add: expired_ok_def remove_front del: remove_from_list.simps)
  have i: "insert_to_list n (zs @ xs) = zs @ insert_to_list n xs"
    using insert_walk_zeros [OF assms(3), of _ _ "[]"] insert_walk_zeros [OF assms(3)] by (simp add: insert_to_list_def)
  have nx: "next_node (tn_addr n) (n # zs @ xs) = (case zs @ xs of [] \<Rightarrow> None | m # _ \<Rightarrow> Some (tn_addr m))" by simp
  show ?thesis
  proof (cases "req_type n")
    case PERIODIC_TIMER
    then show ?thesis using f assms(2)
      by (subst process_loop.simps) (simp add: expired_ok_def e nx r i Let_def del: remove_from_list.simps next_node.simps)
  next
    case ONE_SHOT_TIMER
    then have "remove_timer (Some (tn_addr n)) (tn_handler n) (expire_node unregs n t)
        = Some ((expire_node unregs n t)\<lparr>m_list := zs @ xs, tm_freed := tm_freed t @ [tn_addr n]\<rparr>)"
      using assms(2) by (simp add: remove_timer_def find_node_def e remove_node_def r expired_ok_def del: remove_from_list.simps)
    then show ?thesis using ONE_SHOT_TIMER f assms(2) by (subst process_loop.simps) (simp add: expired_ok_def e nx del: next_node.simps)
  next
    case INVALID_TIMER
    then show ?thesis using assms(2) by (simp add: expired_ok_def IS_NODE_INVALID_def)
  qed
qed

lemma loop_stops: "find_node a (m_list t) = Some n \<Longrightarrow> delta_time_msec n \<noteq> 0 \<Longrightarrow> process_loop k unregs (Some a) t = Some t"
  by (subst process_loop.simps) simp

lemma insert_later:
  assumes "head_later xs" "0 < orig_time_msec nd"
  shows "head_later (insert_to_list nd xs)"
  using insert_walk_pos [OF assms(2,1), of nd] assms(2) by (auto simp: insert_to_list_def)

lemma next_stays:
  assumes "head_later (n # ns)" "tn_addr nd \<noteq> tn_addr n"
  shows "\<exists>m. find_node (tn_addr n) (insert_to_list nd (n # ns)) = Some m \<and> delta_time_msec m \<noteq> 0"
  using assms by (auto simp: insert_to_list_def find_node_def not_le)

definition passed :: "(nat \<Rightarrow> nat \<Rightarrow> nat list) \<Rightarrow> timer_node list \<Rightarrow> timer_node list \<Rightarrow> timer \<Rightarrow> timer \<Rightarrow> bool" where
  "passed unregs zs xs t t' = (expiries 0 (m_list t') = put_back zs (expiries 0 xs) \<and> head_later (m_list t')
     \<and> tm_fired t' = tm_fired t @ calls unregs (tm_locked t) zs
     \<and> tm_freed t' = tm_freed t @ map tn_addr (filter (\<lambda>n. req_type n \<noteq> PERIODIC_TIMER) zs) \<and> m_ts_last t' = m_ts_last t)"

lemma process_zeros:
  "zs \<noteq> [] \<Longrightarrow> m_list t = zs @ xs \<Longrightarrow> \<forall>z \<in> set zs. expired_ok z \<Longrightarrow> head_later xs \<Longrightarrow> distinct (map tn_addr (zs @ xs)) \<Longrightarrow> length zs \<le> fuel \<Longrightarrow>
    \<exists>t'. process_loop fuel unregs (Some (tn_addr (hd zs))) t = Some t' \<and> passed unregs zs xs t t'"
proof (induction zs arbitrary: t xs fuel)
  case Nil
  then show ?case by simp
next
  case (Cons n zs)
  note prems = Cons.prems and IH = Cons.IH
  obtain k where k: "fuel = Suc k" "length zs \<le> k" using prems(6) by (cases fuel) auto
  define ys where "ys = (if req_type n = PERIODIC_TIMER then insert_to_list n xs else xs)"
  define t1 where "t1 = (if req_type n = PERIODIC_TIMER then (expire_node unregs n t)\<lparr>m_list := zs @ insert_to_list n xs\<rparr>
       else (expire_node unregs n t)\<lparr>m_list := zs @ xs, tm_freed := tm_freed t @ [tn_addr n]\<rparr>)"
  have z: "\<forall>z \<in> set zs. delta_time_msec z = 0" "expired_ok n" using prems(3) by (auto simp: expired_ok_def)
  have st: "process_loop fuel unregs (Some (tn_addr n)) t = process_loop k unregs (case zs @ xs of [] \<Rightarrow> None | m # _ \<Rightarrow> Some (tn_addr m)) t1"
    using process_step [of t n zs xs k unregs] prems(2,4) z by (simp add: k t1_def)
  have ly: "head_later ys" using insert_later prems(4) z(2) by (simp add: ys_def expired_ok_def)
  have ey: "expiries 0 ys = put_back [n] (expiries 0 xs)" by (simp add: ys_def insert_expiries)
  have f1: "m_list t1 = zs @ ys" "m_ts_last t1 = m_ts_last t"
      "tm_fired t1 @ calls unregs (tm_locked t1) zs = tm_fired t @ calls unregs (tm_locked t) (n # zs)"
      "tm_freed t1 @ map tn_addr (filter (\<lambda>n. req_type n \<noteq> PERIODIC_TIMER) zs) = tm_freed t @ map tn_addr (filter (\<lambda>n. req_type n \<noteq> PERIODIC_TIMER) (n # zs))"
    using z(2) by (auto simp: t1_def ys_def expire_node_def expired_ok_def IS_NODE_INVALID_def)
  show ?case
  proof (cases zs)
    case Nil
    have "process_loop k unregs (case xs of [] \<Rightarrow> None | m # _ \<Rightarrow> Some (tn_addr m)) t1 = Some t1"
    proof (cases xs)
      case Nil
      then show ?thesis by (subst process_loop.simps) simp
    next
      case (Cons x xr)
      have "\<exists>m. find_node (tn_addr x) ys = Some m \<and> delta_time_msec m \<noteq> 0"
        using next_stays [of x xr n] prems(4,5) Cons by (auto simp: ys_def find_node_def)
      then show ?thesis using loop_stops [of "tn_addr x" t1] f1(1) Nil Cons by auto
    qed
    then show ?thesis using st Nil f1 ly ey by (auto simp: passed_def)
  next
    case (Cons z zr)
    have "mset (map tn_addr (zs @ ys)) = mset (map tn_addr (if req_type n = PERIODIC_TIMER then n # zs @ xs else zs @ xs))"
      using insert_addrs [of n xs] by (simp add: ys_def)
    then have d: "distinct (map tn_addr (zs @ ys))"
      using prems(5) mset_eq_imp_distinct_iff [of "map tn_addr (zs @ ys)" "map tn_addr (if req_type n = PERIODIC_TIMER then n # zs @ xs else zs @ xs)"]
      by (simp split: if_splits)
    obtain t' where t': "process_loop k unregs (Some (tn_addr (hd zs))) t1 = Some t'" "passed unregs zs ys t1 t'"
      using IH [OF _ f1(1) _ ly d k(2)] Cons prems(3) by (metis list.distinct(1) list.set_intros(2))
    have "put_back (n # zs) (expiries 0 xs) = put_back zs (expiries 0 ys)" by (simp only: ey put_back.simps)
    then have "passed unregs (n # zs) xs t t'" using t'(2) f1(2-4) by (simp only: passed_def)
    moreover have "process_loop fuel unregs (Some (tn_addr n)) t = Some t'" using st Cons t'(1) by simp
    ultimately show ?thesis by (simp only: list.sel) blast
  qed
qed

text \<open>Well-formed lists: every node is valid, no periodic timer has period 0, addresses are not shared, and
  times stay below the range of a signed 32-bit variable.\<close>

definition timers_ok :: "timer \<Rightarrow> bool" where
  "timers_ok t = (distinct (map tn_addr (m_list t)) \<and> span (m_list t) < 2147483648
     \<and> (\<forall>n \<in> set (m_list t). \<not> IS_NODE_INVALID n \<and> (req_type n = PERIODIC_TIMER \<longrightarrow> 0 < orig_time_msec n)))"

definition expired :: "timer_node list \<Rightarrow> timer_node list" where
  "expired xs = takeWhile (\<lambda>n. delta_time_msec n = 0) xs"

definition pending :: "timer_node list \<Rightarrow> timer_node list" where
  "pending xs = dropWhile (\<lambda>n. delta_time_msec n = 0) xs"

lemma expired_pending: "xs = expired xs @ pending xs" "head_later (pending xs)"
  using hd_dropWhile [of "\<lambda>n. delta_time_msec n = 0" xs] by (auto simp: expired_def pending_def)

lemma process_passes:
  assumes "timers_ok t" "length (m_list t) \<le> fuel"
  shows "\<exists>t'. process_registered_timers fuel unregs t = Some t' \<and> passed unregs (expired (m_list t)) (pending (m_list t)) t t'"
proof -
  define zs xs where "zs = expired (m_list t)" and "xs = pending (m_list t)"
  have l: "m_list t = zs @ xs" "head_later xs" using expired_pending by (simp_all add: zs_def xs_def)
  have z: "\<forall>z \<in> set zs. expired_ok z" using assms(1)
    by (auto simp: zs_def expired_def timers_ok_def expired_ok_def dest!: set_takeWhileD)
  have d: "distinct (map tn_addr (zs @ xs))" "length zs \<le> fuel" using assms l by (simp_all add: timers_ok_def)
  show ?thesis
  proof (cases "zs = []")
    case True
    then have "process_registered_timers fuel unregs t = Some t"
      using l loop_stops [of "tn_addr (hd xs)" t "hd xs"]
      by (cases xs) (simp_all add: process_registered_timers_def find_node_def process_loop.simps [of _ _ None])
    then show ?thesis using True l unfolding zs_def [symmetric] xs_def [symmetric] by (auto simp: passed_def)
  next
    case False
    obtain t' where "process_loop fuel unregs (Some (tn_addr (hd zs))) t = Some t'" "passed unregs zs xs t t'"
      using process_zeros [OF False l(1) z l(2) d] by blast
    moreover have "(case m_list t of [] \<Rightarrow> None | n # _ \<Rightarrow> Some (tn_addr n)) = Some (tn_addr (hd zs))" using l(1) False by (cases zs) simp_all
    ultimately show ?thesis unfolding zs_def [symmetric] xs_def [symmetric] process_registered_timers_def by simp
  qed
qed

section \<open>A tick\<close>

text \<open>What the thread does when it wakes up (event_handler_manager.cpp:1031-1034).\<close>

definition tick :: "nat \<Rightarrow> (nat \<Rightarrow> nat \<Rightarrow> nat list) \<Rightarrow> timespec \<Rightarrow> timer \<Rightarrow> timer option" where
  "tick fuel unregs ts_now t =
     (let (ret, t) = update_timeout ts_now t in if ret = 0 then process_registered_timers fuel unregs t else Some t)"

definition elapsed_msec :: "timespec \<Rightarrow> timer \<Rightarrow> nat" where
  "elapsed_msec ts_now t = nat (ts_to_msec (ts_sub ts_now (m_ts_last t)))"

lemma elapse_same: "map (\<lambda>n. n\<lparr>delta_time_msec := 0\<rparr>) (elapse d xs) = map (\<lambda>n. n\<lparr>delta_time_msec := 0\<rparr>) xs"
  by (induction d xs rule: elapse.induct) auto

text \<open>The nodes that expire within \<open>x\<close> milliseconds.\<close>

fun due :: "nat \<Rightarrow> timer_node list \<Rightarrow> timer_node list" where
  "due x [] = []"
| "due x (n # ns) = (if unat (delta_time_msec n) \<le> x then n # due (x - unat (delta_time_msec n)) ns else [])"

lemma due_expiries: "map tn_addr (due x xs) = map fst (takeWhile (\<lambda>e. snd e \<le> b + x) (expiries b xs))"
proof (induction xs arbitrary: x b)
  case (Cons n ns)
  have "unat (delta_time_msec n) \<le> x \<Longrightarrow> b + unat (delta_time_msec n) + (x - unat (delta_time_msec n)) = b + x" by simp
  then show ?case using Cons.IH [of "x - unat (delta_time_msec n)" "b + unat (delta_time_msec n)"]
    by (cases "unat (delta_time_msec n) \<le> x") simp_all
qed simp

lemma drop_due: "drop (length (due x xs)) (expiries b xs) = dropWhile (\<lambda>e. snd e \<le> b + x) (expiries b xs)"
proof (induction xs arbitrary: x b)
  case (Cons n ns)
  have "unat (delta_time_msec n) \<le> x \<Longrightarrow> b + unat (delta_time_msec n) + (x - unat (delta_time_msec n)) = b + x" by simp
  then show ?case using Cons.IH [of "x - unat (delta_time_msec n)" "b + unat (delta_time_msec n)"]
    by (cases "unat (delta_time_msec n) \<le> x") simp_all
qed simp

abbreviation untimed :: "timer_node \<Rightarrow> timer_node" where
  "untimed n \<equiv> n\<lparr>delta_time_msec := 0\<rparr>"

lemma expired_elapse:
  "unat d < 2147483648 \<Longrightarrow> \<forall>n \<in> set xs. unat (delta_time_msec n) < 2147483648 \<Longrightarrow> map untimed (expired (elapse d xs)) = map untimed (due (unat d) xs)"
proof (induction xs arbitrary: d)
  case Nil
  then show ?case by (simp add: expired_def)
next
  case (Cons n ns)
  have sd: "sint d = int (unat d)" by (rule sint_small) (rule Cons.prems(1))
  have sn: "sint (delta_time_msec n) = int (unat (delta_time_msec n))" by (rule sint_small) (use Cons.prems(2) in simp)
  have s: "(0 < sint d) = (d \<noteq> 0)" "(sint d < sint (delta_time_msec n)) = (unat d < unat (delta_time_msec n))"
    unfolding sd sn of_nat_less_iff of_nat_0_less_iff unat_gt_0 by (rule refl)+
  show ?case
  proof (cases "unat d < unat (delta_time_msec n)")
    case True
    then have "delta_time_msec n - d \<noteq> 0" "delta_time_msec n \<noteq> 0" by auto
    then show ?thesis using True s by (auto simp: expired_def)
  next
    case False
    have d: "unat (d - delta_time_msec n) = unat d - unat (delta_time_msec n)" using False by (simp add: unat_minus32)
    have ih: "map untimed (expired (elapse (d - delta_time_msec n) ns)) = map untimed (due (unat d - unat (delta_time_msec n)) ns)"
      using Cons.IH [of "d - delta_time_msec n"] Cons.prems d by auto
    show ?thesis
    proof (cases "d = 0")
      case True
      then have "delta_time_msec n = 0" using False by (simp add: unat_eq_0)
      moreover have "elapse 0 ns = ns" by (cases ns) simp_all
      ultimately show ?thesis using True ih by (simp add: expired_def)
    next
      case pos: False
      then show ?thesis using False s ih by (simp add: expired_def)
    qed
  qed
qed

lemma untimed_fields:
  "untimed x = untimed y \<Longrightarrow> tn_addr x = tn_addr y \<and> tn_handler x = tn_handler y \<and> tn_user_data x = tn_user_data y
     \<and> orig_time_msec x = orig_time_msec y \<and> req_type x = req_type y"
  by (cases x, cases y) simp

lemma calls_untimed: "map untimed xs = map untimed ys \<Longrightarrow> calls unregs L xs = calls unregs L ys"
proof (induction xs arbitrary: ys L)
  case (Cons x xs)
  then obtain y ys' where y: "ys = y # ys'" "untimed x = untimed y" "map untimed xs = map untimed ys'" by (cases ys) auto
  show ?case using untimed_fields [OF y(2)] Cons.IH [OF y(3)] y(1) by simp
qed simp

lemma put_back_untimed: "map untimed xs = map untimed ys \<Longrightarrow> put_back xs es = put_back ys es"
proof (induction xs arbitrary: ys es)
  case (Cons x xs)
  then obtain y ys' where y: "ys = y # ys'" "untimed x = untimed y" "map untimed xs = map untimed ys'" by (cases ys) auto
  show ?case using untimed_fields [OF y(2)] Cons.IH [OF y(3)] y(1) by simp
qed simp

lemma expiries_zeros: "\<forall>z \<in> set zs. delta_time_msec z = 0 \<Longrightarrow> drop (length zs) (expiries 0 (zs @ xs)) = expiries 0 xs"
  by (induction zs) simp_all

lemma span_bound: "n \<in> set xs \<Longrightarrow> unat (delta_time_msec n) \<le> span xs"
  by (induction xs) auto

lemma map_addr_untimed: "map untimed xs = map untimed ys \<Longrightarrow> map tn_addr xs = map tn_addr ys"
proof (induction xs arbitrary: ys)
  case (Cons x xs)
  then obtain y ys' where y: "ys = y # ys'" "untimed x = untimed y" "map untimed xs = map untimed ys'" by (cases ys) auto
  show ?case using untimed_fields [OF y(2)] Cons.IH [OF y(3)] y(1) by simp
qed simp

lemma span_expiries: "xs \<noteq> [] \<Longrightarrow> b + span xs = snd (last (expiries b xs))"
proof (induction xs arbitrary: b)
  case (Cons n ns)
  show ?case
  proof (cases "ns = []")
    case False
    then have "expiries (b + unat (delta_time_msec n)) ns \<noteq> []" by (cases ns) simp_all
    then show ?thesis using Cons.IH [OF False, of "b + unat (delta_time_msec n)"] by simp
  qed simp
qed simp

lemma timers_ok_untimed:
  assumes ok: "timers_ok t" and un: "map untimed xs = map untimed (m_list t)"
    and ex: "expiries 0 xs = map (\<lambda>(a, x). (a, x - ms)) (expiries 0 (m_list t))"
  shows "timers_ok (t1\<lparr>m_list := xs\<rparr>)"
proof -
  have len: "length xs = length (m_list t)" using arg_cong [OF un, of length] by simp
  have sp: "span xs \<le> span (m_list t)"
  proof (cases "xs = []")
    case False
    then have ne: "m_list t \<noteq> []" "expiries 0 (m_list t) \<noteq> []" using len by (cases "m_list t"; simp)+
    have "snd (last (expiries 0 xs)) = snd (last (expiries 0 (m_list t))) - ms" unfolding ex last_map [OF ne(2)] by (simp add: split_def)
    then show ?thesis using span_expiries [OF False, of 0] span_expiries [OF ne(1), of 0] by simp
  qed simp
  have "\<not> IS_NODE_INVALID n \<and> (req_type n = PERIODIC_TIMER \<longrightarrow> 0 < orig_time_msec n)" if "n \<in> set xs" for n
  proof -
    from that have "untimed n \<in> set (map untimed xs)" by simp
    then obtain m where "m \<in> set (m_list t)" "untimed n = untimed m" unfolding un by auto
    then show ?thesis using untimed_fields [of n m] ok by (simp add: timers_ok_def IS_NODE_INVALID_def)
  qed
  then show ?thesis using ok sp map_addr_untimed [OF un] by (simp add: timers_ok_def)
qed

lemma timer_tick_passes:
  assumes ok: "timers_ok t" and len: "length (m_list t) \<le> fuel"
    and clock: "0 \<le> ts_to_msec (ts_sub ts_now (m_ts_last t))" "ts_to_msec (ts_sub ts_now (m_ts_last t)) < 2147483648"
  shows "\<exists>t'. tick fuel unregs ts_now t = Some t'
    \<and> tm_fired t' = tm_fired t @ calls unregs (tm_locked t) (due (elapsed_msec ts_now t) (m_list t))
    \<and> expiries 0 (m_list t') = put_back (due (elapsed_msec ts_now t) (m_list t))
        (map (\<lambda>(a, x). (a, x - elapsed_msec ts_now t)) (dropWhile (\<lambda>e. snd e \<le> elapsed_msec ts_now t) (expiries 0 (m_list t))))"
proof -
  define d :: u32 where "d = word_of_int (ts_to_msec (ts_sub ts_now (m_ts_last t)))"
  define ms where "ms = elapsed_msec ts_now t"
  have ud: "unat d = ms" using clock by (simp add: d_def ms_def elapsed_msec_def unsigned_of_int take_bit_int_eq_self)
  then have l31: "unat d < 2147483648" using clock by (simp add: ms_def elapsed_msec_def)
  define xs where "xs = elapse d (m_list t)"
  define t1 where "t1 = (if 0 < sint d then t\<lparr>m_ts_last := ts_now\<rparr> else t)\<lparr>m_list := xs\<rparr>"
  have b: "\<forall>n \<in> set (m_list t). unat (delta_time_msec n) < 2147483648" using ok span_bound unfolding timers_ok_def by (meson le_less_trans)
  have ex: "expiries 0 xs = map (\<lambda>(a, x). (a, x - ms)) (expiries 0 (m_list t))" unfolding xs_def ud [symmetric] by (rule elapse_expiries [OF l31 b])
  have un: "map untimed (expired xs) = map untimed (due ms (m_list t))" unfolding xs_def ud [symmetric] by (rule expired_elapse [OF l31 b])
  have pe: "expiries 0 (pending xs) = map (\<lambda>(a, x). (a, x - ms)) (dropWhile (\<lambda>e. snd e \<le> ms) (expiries 0 (m_list t)))"
  proof -
    have "\<forall>z \<in> set (expired xs). delta_time_msec z = 0" by (auto simp: expired_def dest: set_takeWhileD)
    then have "expiries 0 (pending xs) = drop (length (expired xs)) (expiries 0 xs)"
      using expiries_zeros [of "expired xs" "pending xs"] unfolding expired_pending(1) [of xs, symmetric] by simp
    moreover have "length (expired xs) = length (due ms (m_list t))" using arg_cong [OF un, of length] by simp
    ultimately show ?thesis using ex drop_due [of ms "m_list t" 0] by (simp add: drop_map)
  qed
  have ok1: "timers_ok t1"
  proof -
    have "map untimed xs = map untimed (m_list t)" unfolding xs_def by (rule elapse_same)
    show ?thesis unfolding t1_def by (rule timers_ok_untimed [OF ok \<open>map untimed xs = map untimed (m_list t)\<close> ex])
  qed
  have up: "update_timeout ts_now t = (if xs = [] then INFINITE_TIMEOUT else sint (delta_time_msec (hd xs)), t1)"
    unfolding update_timeout_def Let_def d_def [symmetric] t1_def xs_def
    by (cases "m_list t") (auto split: list.splits)
  have fr: "tm_fired t1 = tm_fired t" "tm_locked t1 = tm_locked t" "m_list t1 = xs" by (simp_all add: t1_def)
  show ?thesis
  proof (cases "xs \<noteq> [] \<and> delta_time_msec (hd xs) = 0")
    case True
    have "length (m_list t1) \<le> fuel" using len arg_cong [OF ex, of length] fr by simp
    from process_passes [OF ok1 this, of unregs] obtain t' where t': "process_registered_timers fuel unregs t1 = Some t'" "passed unregs (expired xs) (pending xs) t1 t'"
      unfolding fr by blast
    then have "tick fuel unregs ts_now t = Some t'" using True by (simp add: tick_def up)
    then show ?thesis using t'(2) unfolding passed_def fr calls_untimed [OF un] put_back_untimed [OF un] pe ms_def [symmetric] by blast
  next
    case False
    then have "expired xs = []" by (cases xs) (simp_all add: expired_def)
    then have "due ms (m_list t) = []" "pending xs = xs" using un expired_pending(1) [of xs] by simp_all
    moreover have "tick fuel unregs ts_now t = Some t1" using False by (auto simp: tick_def up INFINITE_TIMEOUT_def sint_zero_iff32)
    ultimately show ?thesis using pe fr unfolding ms_def [symmetric] by simp
  qed
qed

text \<open>C9. When the thread wakes up, exactly the timers whose time has come fire, in the order of their expiry
  times and each once; every other timer keeps its time, less what has elapsed, and the periodic ones
  that fired start again with their period.  The pass over the list ends.\<close>

theorem timer_tick_fires:
  assumes ok: "timers_ok t" and len: "length (m_list t) \<le> fuel"
    and clock: "0 \<le> ts_to_msec (ts_sub ts_now (m_ts_last t))" "ts_to_msec (ts_sub ts_now (m_ts_last t)) < 2147483648"
  shows "\<exists>t'. tick fuel unregs ts_now t = Some t'
    \<and> tm_fired t' = tm_fired t @ calls unregs (tm_locked t) (due (elapsed_msec ts_now t) (m_list t))
    \<and> expiries 0 (m_list t') = put_back (due (elapsed_msec ts_now t) (m_list t))
        (map (\<lambda>(a, x). (a, x - elapsed_msec ts_now t)) (dropWhile (\<lambda>e. snd e \<le> elapsed_msec ts_now t) (expiries 0 (m_list t))))"
  by (rule timer_tick_passes [OF assms])

definition ex_ts :: "int \<Rightarrow> timespec" where
  "ex_ts ms = \<lparr>tv_sec = ms div 1000, tv_nsec = ms mod 1000 * 1000000\<rparr>"

definition ex_timer0 :: timer where
  "ex_timer0 = \<lparr>m_list = [], m_ts_last = ex_ts 0, tm_locked = [], tm_fired = [], tm_freed = []\<rparr>"

definition ex_timer :: timer where
  "ex_timer = add_new_timer 25 3 30 0 ONE_SHOT_TIMER (add_new_timer 10 2 20 0 PERIODIC_TIMER (add_new_timer 15 1 10 0 ONE_SHOT_TIMER ex_timer0))"

lemma ex_timer_list: "m_list ex_timer =
   [\<lparr>tn_addr = 2, delta_time_msec = 10, orig_time_msec = 10, tn_handler = 20, tn_user_data = 0, req_type = PERIODIC_TIMER\<rparr>,
    \<lparr>tn_addr = 1, delta_time_msec = 5, orig_time_msec = 15, tn_handler = 10, tn_user_data = 0, req_type = ONE_SHOT_TIMER\<rparr>,
    \<lparr>tn_addr = 3, delta_time_msec = 10, orig_time_msec = 25, tn_handler = 30, tn_user_data = 0, req_type = ONE_SHOT_TIMER\<rparr>]"
  by (simp add: ex_timer_def add_new_timer_def IS_NODE_INVALID_def insert_to_list_def ex_timer0_def)

lemma ex_timer_ok: "timers_ok ex_timer"
  by (simp add: timers_ok_def ex_timer_list IS_NODE_INVALID_def)

theorem timer_tick_fires_witness:
  "\<exists>t'. tick 3 (\<lambda>_ _. []) (ex_ts 18) ex_timer = Some t' \<and> tm_fired t' = [(20, 0), (10, 0)] \<and> expiries 0 (m_list t') = [(3, 7), (2, 10)]"
proof -
  have c: "elapsed_msec (ex_ts 18) ex_timer = 18" "0 \<le> ts_to_msec (ts_sub (ex_ts 18) (m_ts_last ex_timer))"
      "ts_to_msec (ts_sub (ex_ts 18) (m_ts_last ex_timer)) < 2147483648" "length (m_list ex_timer) \<le> 3"
    by (simp_all add: elapsed_msec_def ts_to_msec_def ts_sub_def ex_ts_def ex_timer_list) (simp_all add: ex_timer_def ex_timer0_def add_new_timer_def Let_def IS_NODE_INVALID_def ex_ts_def)
  have f: "tm_fired ex_timer @ calls (\<lambda>_ _. []) (tm_locked ex_timer) (due 18 (m_list ex_timer)) = [(20, 0), (10, 0)]"
      "put_back (due 18 (m_list ex_timer)) (map (\<lambda>(a, x). (a, x - 18)) (dropWhile (\<lambda>e. snd e \<le> 18) (expiries 0 (m_list ex_timer)))) = [(3, 7), (2, 10)]"
    by code_simp+
  show ?thesis using timer_tick_fires [OF ex_timer_ok c(4) c(2,3), of "\<lambda>_ _. []"] unfolding c(1) f by blast
qed

section \<open>The operations on expiry times\<close>

lemma find_node_addr: "find_node a xs = Some n \<Longrightarrow> tn_addr n = a \<and> n \<in> set xs"
  by (auto simp: find_node_def find_Some_iff)

lemma expiries_map: "\<forall>n. tn_addr (f n) = tn_addr n \<and> delta_time_msec (f n) = delta_time_msec n \<Longrightarrow> expiries b (map f xs) = expiries b xs"
  by (induction xs arbitrary: b) simp_all

text \<open>C17. Each operation does on the expiry times what it is for: adding puts the new timer behind those that expire no
  later; waking up makes a timer expire now, behind those already expired; removing takes out the timer alone.\<close>

theorem timer_ops_refine:
  assumes d: "distinct (map tn_addr (m_list t))" "span (m_list t) < 4294967296"
    and n: "find_node a (m_list t) = Some n" "\<not> IS_NODE_INVALID n" and h: "handler \<noteq> 0" "ty \<noteq> INVALID_TIMER"
  shows "expiries 0 (m_list (add_new_timer ms b handler ud ty t)) = put_expiry b (unat ms) (expiries 0 (m_list t))
    \<and> (\<exists>t1. wakeup_timer a t = Some t1 \<and> expiries 0 (m_list t1) = put_expiry a 0 (filter (\<lambda>e. fst e \<noteq> a) (expiries 0 (m_list t))))
    \<and> (\<exists>t2. remove_timer (Some a) (tn_handler n) t = Some t2 \<and> tm_freed t2 = tm_freed t @ [a]
         \<and> expiries 0 (m_list t2) = filter (\<lambda>e. fst e \<noteq> a) (expiries 0 (m_list t)))"
proof (intro conjI)
  show "expiries 0 (m_list (add_new_timer ms b handler ud ty t)) = put_expiry b (unat ms) (expiries 0 (m_list t))"
    using h by (simp add: add_new_timer_def IS_NODE_INVALID_def insert_expiries)
  show "\<exists>t1. wakeup_timer a t = Some t1 \<and> expiries 0 (m_list t1) = put_expiry a 0 (filter (\<lambda>e. fst e \<noteq> a) (expiries 0 (m_list t)))"
    using n find_node_addr [OF n(1)] by (simp add: wakeup_timer_def Let_def expiries_map insert_expiries remove_expiries [OF d])
  show "\<exists>t2. remove_timer (Some a) (tn_handler n) t = Some t2 \<and> tm_freed t2 = tm_freed t @ [a]
         \<and> expiries 0 (m_list t2) = filter (\<lambda>e. fst e \<noteq> a) (expiries 0 (m_list t))"
    using n find_node_addr [OF n(1)] by (simp add: remove_timer_def remove_node_def remove_expiries [OF d])
qed

theorem timer_ops_refine_witness:
  "expiries 0 (m_list (add_new_timer 12 4 40 0 ONE_SHOT_TIMER ex_timer)) = [(2, 10), (4, 12), (1, 15), (3, 25)]
   \<and> (\<exists>t1. wakeup_timer 3 ex_timer = Some t1 \<and> expiries 0 (m_list t1) = [(3, 0), (2, 10), (1, 15)])
   \<and> (\<exists>t2. remove_timer (Some 3) 30 ex_timer = Some t2 \<and> tm_freed t2 = [3] \<and> expiries 0 (m_list t2) = [(2, 10), (1, 15)])"
proof -
  have k: "distinct (map tn_addr (m_list ex_timer))" "span (m_list ex_timer) < 4294967296" by (simp_all add: ex_timer_list)
  obtain n where n: "find_node 3 (m_list ex_timer) = Some n" "\<not> IS_NODE_INVALID n" "tn_handler n = 30"
  proof -
    have "case find_node 3 (m_list ex_timer) of None \<Rightarrow> False | Some n \<Rightarrow> \<not> IS_NODE_INVALID n \<and> tn_handler n = 30" by code_simp
    then show ?thesis using that by (auto split: option.splits)
  qed
  have e: "put_expiry 4 (unat (12 :: u32)) (expiries 0 (m_list ex_timer)) = [(2, 10), (4, 12), (1, 15), (3, 25)]"
      "filter (\<lambda>e. fst e \<noteq> 3) (expiries 0 (m_list ex_timer)) = [(2, 10), (1, 15)]" "put_expiry 3 0 [(2, 10), (1, 15)] = [(3, 0), (2, 10), (1, 15)]"
      "tm_freed ex_timer @ [3] = [3]" by code_simp+
  show ?thesis using timer_ops_refine [OF k n(1,2), of 40 ONE_SHOT_TIMER 12 4 0] unfolding n(3) e by simp
qed

section \<open>Registering after a sleep\<close>

text \<open>C38. The thread handles registrations after it slept, and the time of a new timer counts from the last update, which
  was before the sleep (event_handler_manager.cpp:997-1034): a timer not longer than the sleep fires at the very
  instant it is registered.\<close>

theorem timer_fires_early:
  assumes "m_list t = []" "handler \<noteq> 0" "a \<notin> set (tm_locked t)" "unat ms \<le> elapsed_msec ts_now t" "0 < fuel"
    and clock: "0 < ts_to_msec (ts_sub ts_now (m_ts_last t))" "ts_to_msec (ts_sub ts_now (m_ts_last t)) < 2147483648"
  shows "\<exists>t'. tick fuel unregs ts_now (add_new_timer ms a handler ud ONE_SHOT_TIMER t) = Some t' \<and> tm_fired t' = tm_fired t @ [(handler, ud)]"
proof -
  define n where "n = \<lparr>tn_addr = a, delta_time_msec = ms, orig_time_msec = ms, tn_handler = handler, tn_user_data = ud, req_type = ONE_SHOT_TIMER\<rparr>"
  define t1 where "t1 = add_new_timer ms a handler ud ONE_SHOT_TIMER t"
  have l: "m_list t1 = [n]" "tm_locked t1 = tm_locked t" "tm_fired t1 = tm_fired t" "m_ts_last t1 = m_ts_last t"
    using assms(1,2) by (simp_all add: t1_def add_new_timer_def IS_NODE_INVALID_def insert_to_list_def n_def)
  have "span [n] < 2147483648" using assms(4) clock by (simp add: n_def elapsed_msec_def)
  then have ok: "timers_ok t1" "length (m_list t1) \<le> fuel" using assms(2,5) by (simp_all add: timers_ok_def l n_def IS_NODE_INVALID_def)
  have "due (elapsed_msec ts_now t1) (m_list t1) = [n]" using assms(4) by (simp add: l elapsed_msec_def n_def)
  then show ?thesis using timer_tick_passes [OF ok, of ts_now unregs] clock assms(3) l by (auto simp: t1_def [symmetric] n_def)
qed

theorem timer_fires_early_witness:
  "\<exists>t'. tick 1 (\<lambda>_ _. []) (ex_ts 100) (add_new_timer 100 1 10 0 ONE_SHOT_TIMER ex_timer0) = Some t' \<and> tm_fired t' = [(10, 0)]"
proof -
  have c: "0 < ts_to_msec (ts_sub (ex_ts 100) (m_ts_last ex_timer0))" "ts_to_msec (ts_sub (ex_ts 100) (m_ts_last ex_timer0)) < 2147483648"
      "unat (100 :: u32) \<le> elapsed_msec (ex_ts 100) ex_timer0"
    by (simp_all add: elapsed_msec_def ts_to_msec_def ts_sub_def ex_ts_def ex_timer0_def)
  show ?thesis using timer_fires_early [OF _ _ _ c(3) _ c(1,2), of 10 1 1 "\<lambda>_ _. []" 0] by (simp add: ex_timer0_def)
qed

section \<open>Periods of zero\<close>

definition zero_pair :: "timer \<Rightarrow> bool" where
  "zero_pair t = (\<exists>m n. m_list t = [m, n] \<and> tn_addr m \<noteq> tn_addr n
     \<and> (\<forall>x \<in> {m, n}. delta_time_msec x = 0 \<and> orig_time_msec x = 0 \<and> req_type x = PERIODIC_TIMER \<and> tn_handler x \<noteq> 0))"

text \<open>Two expired periodic timers of period 0 keep the pass from ever ending, since each is put back behind the other.\<close>

theorem zero_periods_diverge:
  assumes "zero_pair t"
  shows "process_registered_timers fuel unregs t = None"
proof -
  have "zero_pair t \<Longrightarrow> process_loop fuel unregs (Some (tn_addr (hd (m_list t)))) t = None"
  proof (induction fuel arbitrary: t)
    case 0
    then show ?case by (subst process_loop.simps) (auto simp: zero_pair_def find_node_def)
  next
    case (Suc k)
    then obtain m n where l: "m_list t = [m, n]" "tn_addr m \<noteq> tn_addr n"
        "\<forall>x \<in> {m, n}. delta_time_msec x = 0 \<and> orig_time_msec x = 0 \<and> req_type x = PERIODIC_TIMER \<and> tn_handler x \<noteq> 0"
      by (auto simp: zero_pair_def)
    define t1 where "t1 = (expire_node unregs m t)\<lparr>m_list := [n, m]\<rparr>"
    have "insert_to_list m [n] = [n, m]" using l(3) by (cases m) (simp add: insert_to_list_def)
    moreover have "remove_from_list (tn_addr m) [m, n] = [n]" by (rule remove_front) (use l(3) in simp)
    ultimately have "process_loop (Suc k) unregs (Some (tn_addr m)) t = process_loop k unregs (Some (tn_addr n)) t1"
      using l by (subst process_loop.simps) (simp add: find_node_def expire_node_def t1_def Let_def del: remove_from_list.simps)
    moreover have "zero_pair t1" using l by (auto simp: zero_pair_def t1_def)
    ultimately show ?case using Suc.IH [of t1] l by (simp add: t1_def)
  qed
  then show ?thesis using assms by (auto simp: process_registered_timers_def zero_pair_def)
qed

theorem zero_periods_diverge_witness:
  "process_registered_timers 1000 (\<lambda>_ _. []) (add_new_timer 0 2 20 0 PERIODIC_TIMER (add_new_timer 0 1 10 0 PERIODIC_TIMER ex_timer0)) = None"
  by (rule zero_periods_diverge)
    (auto simp: zero_pair_def add_new_timer_def IS_NODE_INVALID_def insert_to_list_def ex_timer0_def)

end
