(* ===== verification/Ip_Frag.thy ===== *)
theory Ip_Frag
  imports Vma_Prelude
begin

text \<open>
  Reassembly of IP fragments, \<^verbatim>\<open>src/src/vma/proto/ip_frag.cpp\<close>: the list of holes of RFC 815 for each datagram, with
  the fragments that border a hole, over descriptors of two preallocated pools.  Buffers are addresses; their links
  \<^verbatim>\<open>p_next_desc\<close> are a store.  The pools are counted, since nothing depends on which descriptor is taken.
\<close>

section \<open>Data\<close>

definition IP_FRAG_MAX_DESC :: int where "IP_FRAG_MAX_DESC = 1024"

definition IP_FRAG_MAX_HOLES :: int where "IP_FRAG_MAX_HOLES = 16000"

definition IP_FRAG_TTL :: u16 where "IP_FRAG_TTL = 2"

definition IP_FRAG_INF :: u16 where "IP_FRAG_INF = 0xFFFF"

definition IP_FRAG_NINF :: u16 where "IP_FRAG_NINF = 0"

definition IP_FRAG_SPACE :: u64 where "IP_FRAG_SPACE = 60000"

definition MORE_FRAGMENTS_FLAG :: u16 where "MORE_FRAGMENTS_FLAG = 0x2000"

definition FRAGMENT_OFFSET :: u16 where "FRAGMENT_OFFSET = 0x1FFF"

text \<open>The fields of the IP header that are read, in host order.\<close>

record frag_ip_hdr =
  ih_id :: u16
  ih_saddr :: u32
  ih_daddr :: u32
  ih_protocol :: u8
  ih_frag_off :: u16
  ih_tot_len :: u16
  ih_ihl :: u8

record ip_frag_key =
  key_ip_id :: u16
  key_src_ip :: u32
  key_dst_ip :: u32
  key_ipproto :: u8

definition key_less :: "ip_frag_key \<Rightarrow> ip_frag_key \<Rightarrow> bool" where
  "key_less a b =
     (if key_ip_id a < key_ip_id b then True
      else if key_ip_id a > key_ip_id b then False
      else if key_src_ip a < key_src_ip b then True
      else if key_src_ip a > key_src_ip b then False
      else if key_dst_ip a < key_dst_ip b then True
      else if key_dst_ip a > key_dst_ip b then False
      else if key_ipproto a < key_ipproto b then True
      else False)"

record ip_frag_hole_desc =
  h_first :: u16
  h_last :: u16
  data_first :: "nat option"
  data_last :: "nat option"

record ip_frag_desc =
  fd_ttl :: u16
  hole_list :: "ip_frag_hole_desc list"
  frag_list :: "nat option"
  frag_counter :: u64

text \<open>The manager and its pools, the links of the buffers, the owner of each buffer, and the buffers marked as freed.
  \<open>m_frags\<close> is the map in the order of its keys.\<close>

record ip_frag_manager =
  m_frags :: "(ip_frag_key \<times> ip_frag_desc) list"
  m_frag_counter :: u64
  m_return_descs :: "nat \<Rightarrow> nat option"
  hole_free_list_count :: int
  desc_free_list_count :: int
  p_next_desc :: "nat \<Rightarrow> nat option"
  p_desc_owner :: "nat \<Rightarrow> nat"
  sz_freed :: "nat list"

fun frags_insert :: "ip_frag_key \<Rightarrow> ip_frag_desc \<Rightarrow> (ip_frag_key \<times> ip_frag_desc) list \<Rightarrow> (ip_frag_key \<times> ip_frag_desc) list" where
  "frags_insert k d [] = [(k, d)]"
| "frags_insert k d ((k', d') # m) =
     (if key_less k k' then (k, d) # (k', d') # m else if key_less k' k then (k', d') # frags_insert k d m else (k, d) # m)"

definition frags_erase :: "ip_frag_key \<Rightarrow> (ip_frag_key \<times> ip_frag_desc) list \<Rightarrow> (ip_frag_key \<times> ip_frag_desc) list" where
  "frags_erase k m = filter (\<lambda>e. fst e \<noteq> k) m"

section \<open>Descriptors and buffers\<close>

definition alloc_hole_desc :: "ip_frag_manager \<Rightarrow> ip_frag_manager option" where
  "alloc_hole_desc s = (if hole_free_list_count s = 0 then None else Some (s\<lparr>hole_free_list_count := hole_free_list_count s - 1\<rparr>))"

definition free_hole_desc :: "ip_frag_manager \<Rightarrow> ip_frag_manager" where
  "free_hole_desc s = s\<lparr>hole_free_list_count := hole_free_list_count s + 1\<rparr>"

definition alloc_frag_desc :: "ip_frag_manager \<Rightarrow> ip_frag_manager option" where
  "alloc_frag_desc s = (if desc_free_list_count s = 0 then None else Some (s\<lparr>desc_free_list_count := desc_free_list_count s - 1\<rparr>))"

definition free_frag_desc :: "ip_frag_manager \<Rightarrow> ip_frag_manager" where
  "free_frag_desc s = s\<lparr>desc_free_list_count := desc_free_list_count s + 1\<rparr>"

text \<open>The walk to the last buffer of a chain.\<close>

partial_function (option) last_desc :: "(nat \<Rightarrow> nat option) \<Rightarrow> nat \<Rightarrow> nat option" where
  "last_desc nx a = (case nx a of None \<Rightarrow> Some a | Some b \<Rightarrow> last_desc nx b)"

definition free_frag :: "nat option \<Rightarrow> ip_frag_manager \<Rightarrow> ip_frag_manager option" where
  "free_frag frag s =
     (case frag of None \<Rightarrow> Some s
      | Some a \<Rightarrow> do {
          let s = s\<lparr>sz_freed := sz_freed s @ [a]\<rparr>;
          tail \<leftarrow> last_desc (p_next_desc s) a;
          let owner = p_desc_owner s a;
          Some (s\<lparr>p_next_desc := (p_next_desc s)(tail := m_return_descs s owner), m_return_descs := (m_return_descs s)(owner := Some a)\<rparr>)
        })"

definition destroy_frag_desc :: "ip_frag_desc \<Rightarrow> ip_frag_manager \<Rightarrow> ip_frag_manager option" where
  "destroy_frag_desc d s = free_frag (frag_list d) (s\<lparr>hole_free_list_count := hole_free_list_count s + int (length (hole_list d))\<rparr>)"

definition new_frag_desc :: "ip_frag_key \<Rightarrow> ip_frag_manager \<Rightarrow> ip_frag_desc option \<times> ip_frag_manager" where
  "new_frag_desc key s =
     (case alloc_hole_desc s of None \<Rightarrow> (None, s)
      | Some s1 \<Rightarrow>
          (case alloc_frag_desc s1 of None \<Rightarrow> (None, free_hole_desc s1)
           | Some s2 \<Rightarrow>
               (let hole = \<lparr>h_first = IP_FRAG_NINF, h_last = IP_FRAG_INF, data_first = None, data_last = None\<rparr>;
                    d = \<lparr>fd_ttl = IP_FRAG_TTL, hole_list = [hole], frag_list = None, frag_counter = m_frag_counter s2\<rparr>
                in (Some d, s2\<lparr>m_frags := frags_insert key d (m_frags s2)\<rparr>))))"

section \<open>Adding a fragment\<close>

definition frag_key :: "frag_ip_hdr \<Rightarrow> ip_frag_key" where
  "frag_key h = \<lparr>key_ip_id = ih_id h, key_src_ip = ih_saddr h, key_dst_ip = ih_daddr h, key_ipproto = ih_protocol h\<rparr>"

definition more_frags :: "frag_ip_hdr \<Rightarrow> bool" where
  "more_frags h = (ih_frag_off h AND MORE_FRAGMENTS_FLAG \<noteq> 0)"

definition frag_first :: "frag_ip_hdr \<Rightarrow> u16" where
  "frag_first h = (ih_frag_off h AND FRAGMENT_OFFSET) * 8"

definition frag_last :: "frag_ip_hdr \<Rightarrow> u16" where
  "frag_last h = frag_first h + ih_tot_len h - ucast (ih_ihl h) * 4 - 1"

text \<open>The descriptor of the datagram, with an old one discarded when too many fragments came since it was made
  (lines 338-361).\<close>

definition find_desc :: "ip_frag_key \<Rightarrow> ip_frag_manager \<Rightarrow> (ip_frag_desc option \<times> ip_frag_manager) option" where
  "find_desc key s =
     (case map_of (m_frags s) key of
        None \<Rightarrow> Some (new_frag_desc key s)
      | Some d \<Rightarrow>
          if m_frag_counter s - frag_counter d > IP_FRAG_SPACE then do {
            s \<leftarrow> destroy_frag_desc d s;
            let s = free_frag_desc s;
            Some (new_frag_desc key (s\<lparr>m_frags := frags_erase key (m_frags s)\<rparr>))
          }
          else Some (Some d, s))"

text \<open>Steps 1 to 3: the hole the fragment fits in, with the holes before and after it.\<close>

fun find_hole :: "u16 \<Rightarrow> u16 \<Rightarrow> ip_frag_hole_desc list \<Rightarrow> (ip_frag_hole_desc list \<times> ip_frag_hole_desc \<times> ip_frag_hole_desc list) option" where
  "find_hole ff fl [] = None"
| "find_hole ff fl (h # hs) =
     (if ff \<ge> h_first h \<and> fl \<le> h_last h then Some ([], h, hs)
      else map_option (\<lambda>(pre, p, post). (h # pre, p, post)) (find_hole ff fl hs))"

text \<open>Steps 4 to 6.  The result is the list of holes and, on success, True; when no hole descriptor is left the
  fragment is refused and the hole that was found is gone.\<close>

definition split_hole ::
    "u16 \<Rightarrow> u16 \<Rightarrow> bool \<Rightarrow> nat \<Rightarrow> ip_frag_hole_desc list \<Rightarrow> ip_frag_hole_desc \<Rightarrow> ip_frag_hole_desc list \<Rightarrow> ip_frag_manager
      \<Rightarrow> bool \<times> ip_frag_hole_desc list \<times> ip_frag_manager" where
  "split_hole ff fl mf frag pre p post s =
     (let before = \<lparr>h_first = h_first p, h_last = ff - 1, data_first = data_first p, data_last = Some frag\<rparr>;
          after = \<lparr>h_first = fl + 1, h_last = h_last p, data_first = Some frag, data_last = data_last p\<rparr>;
          step6 = (\<lambda>pre s.
            if fl < h_last p \<and> mf
            then (case alloc_hole_desc s of None \<Rightarrow> (False, pre @ post, free_hole_desc s)
                  | Some s \<Rightarrow> (True, pre @ [after] @ post, s))
            else (True, pre @ post, s))
      in if ff > h_first p
         then (case alloc_hole_desc s of None \<Rightarrow> (False, pre @ post, free_hole_desc s)
               | Some s \<Rightarrow> step6 (pre @ [before]) s)
         else step6 pre s)"

definition link_frag :: "nat \<Rightarrow> ip_frag_hole_desc \<Rightarrow> ip_frag_desc \<Rightarrow> ip_frag_manager \<Rightarrow> ip_frag_desc \<times> ip_frag_manager" where
  "link_frag frag p d s =
     (let (d, s) = (case data_first p of
            Some a \<Rightarrow> (d, s\<lparr>p_next_desc := (p_next_desc s)(a := Some frag)\<rparr>)
          | None \<Rightarrow> (d\<lparr>frag_list := Some frag\<rparr>, s))
      in (d, s\<lparr>p_next_desc := (p_next_desc s)(frag := data_last p)\<rparr>))"

text \<open>\<open>add_frag\<close>: Inl for the return value -1, otherwise the value of \<^verbatim>\<open>*ret\<close>.\<close>

definition add_frag :: "frag_ip_hdr \<Rightarrow> nat \<Rightarrow> ip_frag_manager \<Rightarrow> ((unit + nat option) \<times> ip_frag_manager) option" where
  "add_frag hdr frag s =
     (let key = frag_key hdr; s = s\<lparr>m_frag_counter := m_frag_counter s + 1\<rparr>
      in case find_desc key s of None \<Rightarrow> None
      | Some (None, s) \<Rightarrow> Some (Inl (), s)
      | Some (Some d, s) \<Rightarrow>
          (case find_hole (frag_first hdr) (frag_last hdr) (hole_list d) of
             None \<Rightarrow> Some (Inl (), s)
           | Some (pre, p, post) \<Rightarrow>
               (case split_hole (frag_first hdr) (frag_last hdr) (more_frags hdr) frag pre p post s of
                  (False, hs, s) \<Rightarrow> Some (Inl (), s\<lparr>m_frags := frags_insert key (d\<lparr>hole_list := hs\<rparr>) (m_frags s)\<rparr>)
                | (True, hs, s) \<Rightarrow>
                    (let (d, s) = link_frag frag p (d\<lparr>hole_list := hs\<rparr>) s;
                         s = free_hole_desc s
                     in if hs = [] then Some (Inr (frag_list d), free_frag_desc (s\<lparr>m_frags := frags_erase key (m_frags s)\<rparr>))
                        else Some (Inr None, s\<lparr>m_frags := frags_insert key d (m_frags s)\<rparr>)))))"

section \<open>The timer\<close>

text \<open>The pass over the datagrams (lines 509-525); the descriptor that is discarded is still counted down, in the pool.\<close>

fun expire_frags ::
    "u64 \<Rightarrow> (ip_frag_key \<times> ip_frag_desc) list \<Rightarrow> ip_frag_manager \<Rightarrow> ((ip_frag_key \<times> ip_frag_desc) list \<times> ip_frag_manager) option" where
  "expire_frags delta [] s = Some ([], s)"
| "expire_frags delta ((k, d) # m) s =
     (let d = d\<lparr>frag_counter := frag_counter d - delta\<rparr>
      in if sint (frag_counter d) < 0 \<or> fd_ttl d = 0 then do {
           s \<leftarrow> destroy_frag_desc d s;
           expire_frags delta m (free_frag_desc s)
         }
         else do {
           (m, s) \<leftarrow> expire_frags delta m s;
           Some ((k, d\<lparr>fd_ttl := fd_ttl d - 1\<rparr>) # m, s)
         })"

definition handle_timer_expired :: "ip_frag_manager \<Rightarrow> ((nat \<Rightarrow> nat option) \<times> ip_frag_manager) option" where
  "handle_timer_expired s =
     (let delta = (if m_frag_counter s > IP_FRAG_SPACE then m_frag_counter s - IP_FRAG_SPACE else 0);
          s = s\<lparr>m_frag_counter := m_frag_counter s - delta\<rparr>
      in do {
        (m, s) \<leftarrow> expire_frags delta (m_frags s) s;
        Some (m_return_descs s, s\<lparr>m_frags := m, m_return_descs := (\<lambda>_. None)\<rparr>)
      })"

definition ip_frag_init :: "(nat \<Rightarrow> nat) \<Rightarrow> ip_frag_manager" where
  "ip_frag_init owner = \<lparr>m_frags = [], m_frag_counter = 0, m_return_descs = (\<lambda>_. None), hole_free_list_count = IP_FRAG_MAX_HOLES,
     desc_free_list_count = IP_FRAG_MAX_DESC, p_next_desc = (\<lambda>_. None), p_desc_owner = owner, sz_freed = []\<rparr>"

end
