(* ===== verification/Ip_Frag_Ok.thy ===== *)
theory Ip_Frag_Ok
  imports Ip_Frag
begin

text \<open>
  Correctness of the reassembly of IP fragments.  The holes and the chain of buffers of a datagram are shown to be a
  layout: fragments and gaps that follow each other from the first byte on.  Fragments of many datagrams may
  arrive interleaved, in any order and repeated; a datagram that is handed up has all its bytes.
\<close>

section \<open>Layouts\<close>

datatype item = Frag nat nat nat | Gap nat nat

fun laid :: "nat \<Rightarrow> item list \<Rightarrow> bool" where
  "laid b [] = True"
| "laid b (Frag a f l # is) = (f = b \<and> f \<le> l \<and> laid (Suc l) is)"
| "laid b (Gap f l # is) = (f = b \<and> f \<le> l \<and> laid (Suc l) is \<and> (case is of Gap _ _ # _ \<Rightarrow> False | _ \<Rightarrow> True))"

fun lend :: "nat \<Rightarrow> item list \<Rightarrow> nat" where
  "lend b [] = b"
| "lend b (Frag a f l # is) = lend (Suc l) is"
| "lend b (Gap f l # is) = lend (Suc l) is"

fun frag_addrs :: "item list \<Rightarrow> nat list" where
  "frag_addrs [] = []"
| "frag_addrs (Frag a f l # is) = a # frag_addrs is"
| "frag_addrs (Gap f l # is) = frag_addrs is"

definition next_addr :: "item list \<Rightarrow> nat option" where
  "next_addr is = (case frag_addrs is of [] \<Rightarrow> None | a # _ \<Rightarrow> Some a)"

definition prev_addr :: "nat option \<Rightarrow> item list \<Rightarrow> nat option" where
  "prev_addr p is = (if frag_addrs is = [] then p else Some (last (frag_addrs is)))"

fun gap_holes :: "nat option \<Rightarrow> item list \<Rightarrow> ip_frag_hole_desc list" where
  "gap_holes p [] = []"
| "gap_holes p (Frag a f l # is) = gap_holes (Some a) is"
| "gap_holes p (Gap f l # is) = \<lparr>h_first = of_nat f, h_last = of_nat l, data_first = p, data_last = next_addr is\<rparr> # gap_holes p is"

fun linked :: "(nat \<Rightarrow> nat option) \<Rightarrow> nat list \<Rightarrow> bool" where
  "linked nx [] = True"
| "linked nx [a] = (nx a = None)"
| "linked nx (a # b # as) = (nx a = Some b \<and> linked nx (b # as))"

definition ends_gap :: "item list \<Rightarrow> bool" where
  "ends_gap is = (case is of [] \<Rightarrow> False | _ \<Rightarrow> (case last is of Gap _ _ \<Rightarrow> True | _ \<Rightarrow> False))"

lemma frag_addrs_append [simp]: "frag_addrs (xs @ ys) = frag_addrs xs @ frag_addrs ys"
  by (induction xs rule: frag_addrs.induct) simp_all

lemma lend_append [simp]: "lend b (xs @ ys) = lend (lend b xs) ys"
  by (induction b xs rule: lend.induct) simp_all

lemma laid_append: "laid b (xs @ ys) = (laid b xs \<and> laid (lend b xs) ys \<and> \<not> (ends_gap xs \<and> (case ys of Gap _ _ # _ \<Rightarrow> True | _ \<Rightarrow> False)))"
proof (induction b xs rule: laid.induct)
  case (3 b f l "is")
  then show ?case by (cases "is") (auto simp: ends_gap_def split: list.splits item.splits)
qed (auto simp: ends_gap_def split: list.splits)

lemma ends_gap_Cons: "is \<noteq> [] \<Longrightarrow> ends_gap (i # is) = ends_gap is"
  by (auto simp: ends_gap_def split: list.splits)

lemma not_ends_gap_addrs: "is \<noteq> [] \<Longrightarrow> \<not> ends_gap is \<Longrightarrow> frag_addrs is \<noteq> []"
proof (induction "is" rule: frag_addrs.induct)
  case (3 f l "is")
  then show ?case by (cases "is = []") (simp_all add: ends_gap_Cons, simp add: ends_gap_def)
qed simp_all

lemma next_addr_append: "frag_addrs xs \<noteq> [] \<Longrightarrow> next_addr (xs @ ys) = next_addr xs"
  by (auto simp: next_addr_def split: list.splits)

lemma gap_holes_append:
  "\<not> ends_gap xs \<Longrightarrow> gap_holes p (xs @ ys) = gap_holes p xs @ gap_holes (prev_addr p xs) ys"
proof (induction p xs rule: gap_holes.induct)
  case (2 p a f l "is")
  then show ?case by (cases "is = []") (auto simp: ends_gap_Cons prev_addr_def)
next
  case (3 p f l "is")
  then have "is \<noteq> []" by (auto simp: ends_gap_def)
  then show ?case using 3 not_ends_gap_addrs [of "is"] by (simp add: ends_gap_Cons next_addr_append prev_addr_def)
qed (simp add: prev_addr_def)

definition hole_at ::
    "nat option \<Rightarrow> item list \<Rightarrow> ip_frag_hole_desc list \<Rightarrow> ip_frag_hole_desc \<Rightarrow> ip_frag_hole_desc list \<Rightarrow> item list \<Rightarrow> nat \<Rightarrow> nat \<Rightarrow> item list \<Rightarrow> bool" where
  "hole_at p is pre h post is1 f l is2 = (is = is1 @ Gap f l # is2 \<and> pre = gap_holes p is1 \<and> post = gap_holes (prev_addr p is1) is2
     \<and> h = \<lparr>h_first = of_nat f, h_last = of_nat l, data_first = prev_addr p is1, data_last = next_addr is2\<rparr>)"

lemma find_hole_split:
  "find_hole ff fl (gap_holes p is) = Some (pre, h, post) \<Longrightarrow> laid b is \<Longrightarrow>
    (\<exists>is1 f l is2. hole_at p is pre h post is1 f l is2) \<and> h_first h \<le> ff \<and> fl \<le> h_last h"
proof (induction p "is" arbitrary: pre b rule: gap_holes.induct)
  case (1 p)
  then show ?case by simp
next
  case (2 p a f l "is")
  have "find_hole ff fl (gap_holes (Some a) is) = Some (pre, h, post)" "laid (Suc l) is" using 2(2,3) by simp_all
  from 2(1) [OF this] obtain is1 f' l' is2 where r: "hole_at (Some a) is pre h post is1 f' l' is2" "h_first h \<le> ff" "fl \<le> h_last h" by blast
  have "prev_addr p (Frag a f l # is1) = prev_addr (Some a) is1" by (simp add: prev_addr_def)
  then have "hole_at p (Frag a f l # is) pre h post (Frag a f l # is1) f' l' is2" using r(1) by (simp add: hole_at_def)
  then show ?case using r(2,3) by blast
next
  case (3 p f l "is")
  show ?case
  proof (cases "of_nat f \<le> ff \<and> fl \<le> of_nat l")
    case True
    then have "hole_at p (Gap f l # is) pre h post [] f l is" "h_first h \<le> ff" "fl \<le> h_last h" using 3(2) by (auto simp: hole_at_def prev_addr_def)
    then show ?thesis by blast
  next
    case False
    then obtain pre' where q: "find_hole ff fl (gap_holes p is) = Some (pre', h, post)"
        "pre = \<lparr>h_first = of_nat f, h_last = of_nat l, data_first = p, data_last = next_addr is\<rparr> # pre'"
      using 3(2) by auto
    have la: "laid (Suc l) is" using 3(3) by simp
    from 3(1) [OF q(1) la] obtain is1 f' l' is2 where r: "hole_at p is pre' h post is1 f' l' is2" "h_first h \<le> ff" "fl \<le> h_last h" by blast
    have i: "is = is1 @ Gap f' l' # is2" using r(1) by (simp add: hole_at_def)
    have "is1 \<noteq> []" "\<not> ends_gap is1" using 3(3) i by (auto simp: laid_append)
    then have "next_addr is = next_addr is1" unfolding i by (intro next_addr_append not_ends_gap_addrs)
    moreover have "prev_addr p (Gap f l # is1) = prev_addr p is1" by (simp add: prev_addr_def)
    ultimately have "hole_at p (Gap f l # is) pre h post (Gap f l # is1) f' l' is2" using r(1) q(2) by (simp add: hole_at_def)
    then show ?thesis using r(2,3) by blast
  qed
qed

section \<open>Placing a fragment\<close>

lemma linked_cong: "\<forall>a \<in> set as. nx a = nx' a \<Longrightarrow> linked nx as = linked nx' as"
  by (induction nx as rule: linked.induct) simp_all

definition relink :: "(nat \<Rightarrow> nat option) \<Rightarrow> nat option \<Rightarrow> nat \<Rightarrow> nat option \<Rightarrow> nat \<Rightarrow> nat option" where
  "relink nx p a n = (case p of None \<Rightarrow> nx | Some x \<Rightarrow> nx(x := Some a))(a := n)"

lemma linked_insert:
  "linked nx (xs @ ys) \<Longrightarrow> distinct (xs @ ys) \<Longrightarrow> a \<notin> set (xs @ ys) \<Longrightarrow>
    linked (relink nx (if xs = [] then None else Some (last xs)) a (case ys of [] \<Rightarrow> None | y # _ \<Rightarrow> Some y)) (xs @ a # ys)"
proof (induction xs)
  case Nil
  then have "linked (relink nx None a n) ys" for n using linked_cong [of ys nx "relink nx None a n"] by (simp add: relink_def)
  moreover have "relink nx None a n a = n" for n by (simp add: relink_def)
  ultimately show ?case by (cases ys) simp_all
next
  case (Cons x xs)
  note prems = Cons.prems and IH = Cons.IH
  let ?n = "case ys of [] \<Rightarrow> None | y # _ \<Rightarrow> Some y"
  show ?case
  proof (cases xs)
    case Nil
    have "linked nx ys" using prems(1) Nil by (cases ys) simp_all
    moreover have "\<forall>b \<in> set ys. nx b = relink nx (Some x) a n b" for n using prems Nil by (auto simp: relink_def)
    ultimately have "linked (relink nx (Some x) a n) ys" for n using linked_cong by blast
    moreover have "relink nx (Some x) a n a = n" "relink nx (Some x) a n x = Some a" for n using prems by (auto simp: relink_def)
    ultimately show ?thesis using Nil by (cases ys) simp_all
  next
    case (Cons y zs)
    then have "linked (relink nx (Some (last xs)) a ?n) (xs @ a # ys)" using IH prems by simp
    moreover have "nx x = Some y" "x \<noteq> last xs" "x \<noteq> a" using prems Cons by auto
    moreover from this have "relink nx (Some (last xs)) a ?n x = Some y" by (simp add: relink_def)
    ultimately show ?thesis using Cons by simp
  qed
qed

definition item_ok :: "(nat \<Rightarrow> u8 list) \<Rightarrow> nat \<Rightarrow> (nat \<Rightarrow> u8) \<Rightarrow> item \<Rightarrow> bool" where
  "item_ok bufs L src i = (case i of Frag a f l \<Rightarrow> l < L \<and> bufs a = map src [f..<Suc l] | Gap f l \<Rightarrow> f < L \<and> l \<le> 65535)"

definition starts_gap :: "item list \<Rightarrow> bool" where
  "starts_gap is = (case is of Gap _ _ # _ \<Rightarrow> True | _ \<Rightarrow> False)"

definition place :: "item list \<Rightarrow> nat \<Rightarrow> nat \<Rightarrow> item list \<Rightarrow> nat \<Rightarrow> nat \<Rightarrow> nat \<Rightarrow> bool \<Rightarrow> item list" where
  "place is1 f l is2 a ff fl mf =
     is1 @ (if f < ff then [Gap f (ff - 1)] else []) @ [Frag a ff fl] @ (if fl < l \<and> mf then [Gap (Suc fl) l] else []) @ is2"

lemma gap_holes_start: "\<not> starts_gap is \<Longrightarrow> gap_holes p is = gap_holes q is"
  by (cases "is" rule: frag_addrs.cases) (simp_all add: starts_gap_def)

lemma place_holes:
  assumes "\<not> ends_gap is1" "\<not> starts_gap is2"
  shows "gap_holes None (place is1 f l is2 a ff fl mf) = gap_holes None is1
    @ (if f < ff then [\<lparr>h_first = of_nat f, h_last = of_nat (ff - 1), data_first = prev_addr None is1, data_last = Some a\<rparr>] else [])
    @ (if fl < l \<and> mf then [\<lparr>h_first = of_nat (Suc fl), h_last = of_nat l, data_first = Some a, data_last = next_addr is2\<rparr>] else [])
    @ gap_holes (prev_addr None is1) is2"
  using gap_holes_start [OF assms(2), of "Some a" "prev_addr None is1"]
  by (simp add: place_def gap_holes_append [OF assms(1)]) (simp add: next_addr_def)

lemma place_ok:
  assumes "laid 0 (is1 @ Gap f l # is2)" "\<forall>i \<in> set (is1 @ Gap f l # is2). item_ok bufs L src i" "lend 0 (is1 @ Gap f l # is2) \<in> {65536, L}"
    and r: "f \<le> ff" "ff \<le> fl" "fl \<le> l" "fl < L" "mf = (Suc fl \<noteq> L)" "bufs a = map src [ff..<Suc fl]"
  defines "js \<equiv> place is1 f l is2 a ff fl mf"
  shows "laid 0 js \<and> (\<forall>i \<in> set js. item_ok bufs L src i) \<and> lend 0 js \<in> {65536, L}
    \<and> frag_addrs js = frag_addrs is1 @ a # frag_addrs is2 \<and> \<not> ends_gap is1 \<and> \<not> starts_gap is2"
proof -
  have lf: "lend 0 is1 = f" "f \<le> l" "laid 0 is1" "laid (Suc l) is2" and g: "\<not> ends_gap is1" "\<not> starts_gap is2"
    using assms(1) by (auto simp: laid_append starts_gap_def split: list.splits item.splits)
  have e: "is2 = []" if "\<not> mf"
  proof (rule ccontr)
    assume "is2 \<noteq> []"
    then obtain b f' l' rest where i: "is2 = Frag b f' l' # rest" using g(2) by (cases is2 rule: frag_addrs.cases) (simp_all add: starts_gap_def)
    then have "f' = Suc l" "f' \<le> l'" "l' < L" using lf(4) assms(2) by (auto simp: item_ok_def)
    then show False using that r by simp
  qed
  have "laid 0 js" using lf g r e
    by (auto simp: js_def place_def laid_append ends_gap_def starts_gap_def split: list.splits item.splits)
  moreover have "lend 0 js \<in> {65536, L}" using assms(3) r e by (auto simp: js_def place_def)
  moreover have "\<forall>i \<in> set js. item_ok bufs L src i" using assms(2) r by (auto simp: js_def place_def item_ok_def)
  ultimately show ?thesis using g by (simp add: js_def place_def)
qed

lemma u16_less: "f \<le> 65535 \<Longrightarrow> ((of_nat f :: u16) < w) = (f < unat w)" "f \<le> 65535 \<Longrightarrow> (w < (of_nat f :: u16)) = (unat w < f)"
    "f \<le> 65535 \<Longrightarrow> ((of_nat f :: u16) \<le> w) = (f \<le> unat w)" "f \<le> 65535 \<Longrightarrow> (w \<le> (of_nat f :: u16)) = (unat w \<le> f)"
  by (simp_all add: word_less_nat_alt word_le_nat_alt unat_of_nat16)

lemma u16_pred: "0 < unat (w :: u16) \<Longrightarrow> of_nat (unat w - 1) = w - 1"
  by (simp add: of_nat_diff)

lemma hole_count_same: "\<exists>n. s = s\<lparr>hole_free_list_count := n\<rparr>"
  by (rule exI [of _ "hole_free_list_count s"]) simp

lemma split_hole_ok:
  assumes "hole_at None is pre h post is1 f l is2" "f \<le> l" "l \<le> 65535" "\<not> ends_gap is1" "\<not> starts_gap is2" "2 \<le> hole_free_list_count s"
  shows "\<exists>n. split_hole ff fl mf a pre h post s = (True, gap_holes None (place is1 f l is2 a (unat ff) (unat fl) mf), s\<lparr>hole_free_list_count := n\<rparr>)"
proof -
  have h: "h = \<lparr>h_first = of_nat f, h_last = of_nat l, data_first = prev_addr None is1, data_last = next_addr is2\<rparr>"
      "pre = gap_holes None is1" "post = gap_holes (prev_addr None is1) is2"
    using assms(1) by (simp_all add: hole_at_def)
  have c: "((of_nat f :: u16) < ff) = (f < unat ff)" "(fl < (of_nat l :: u16)) = (unat fl < l)" using assms(2,3) u16_less by simp_all
  have w: "f < unat ff \<Longrightarrow> of_nat (unat ff - 1) = ff - 1" "of_nat (Suc (unat fl)) = fl + 1" using u16_pred by (simp_all add: add.commute)
  have m: "h_first h = of_nat f" "h_last h = of_nat l" "data_first h = prev_addr None is1" "data_last h = next_addr is2" by (simp_all add: h)
  have k: "alloc_hole_desc t = Some (t\<lparr>hole_free_list_count := hole_free_list_count t - 1\<rparr>)" if "hole_free_list_count t \<noteq> 0" for t
    using that by (simp add: alloc_hole_desc_def)
  show ?thesis unfolding place_holes [OF assms(4,5)] split_hole_def Let_def m c h(2,3)
    using assms(6) w hole_count_same [of s] by (auto simp: k)
qed

lemma link_frag_eq:
  "link_frag a h d s = (d\<lparr>frag_list := (if data_first h = None then Some a else frag_list d)\<rparr>,
     s\<lparr>p_next_desc := relink (p_next_desc s) (data_first h) a (data_last h)\<rparr>)"
  by (cases "data_first h") (simp_all add: link_frag_def relink_def)

section \<open>The invariant of a datagram\<close>

definition desc_ok :: "(nat \<Rightarrow> nat option) \<Rightarrow> (nat \<Rightarrow> u8 list) \<Rightarrow> nat \<Rightarrow> (nat \<Rightarrow> u8) \<Rightarrow> ip_frag_desc \<Rightarrow> item list \<Rightarrow> bool" where
  "desc_ok nx bufs L src d is = (laid 0 is \<and> (\<forall>i \<in> set is. item_ok bufs L src i) \<and> lend 0 is \<in> {65536, L}
     \<and> hole_list d = gap_holes None is \<and> frag_list d = next_addr is \<and> linked nx (frag_addrs is) \<and> distinct (frag_addrs is))"

lemma desc_ok_cong:
  assumes "desc_ok nx bufs L src d is" "\<forall>a \<in> set (frag_addrs is). nx' a = nx a \<and> bufs' a = bufs a"
  shows "desc_ok nx' bufs' L src d is"
proof -
  have "linked nx' (frag_addrs is)" using assms linked_cong [of "frag_addrs is" nx nx'] by (simp add: desc_ok_def)
  moreover have "item_ok bufs' L src i" if "i \<in> set is" for i
  proof -
    have "Frag a f l \<in> set is \<Longrightarrow> a \<in> set (frag_addrs is)" for a f l
      by (induction "is" rule: frag_addrs.induct) auto
    then show ?thesis using assms that by (cases i) (fastforce simp: desc_ok_def item_ok_def)+
  qed
  ultimately show ?thesis using assms(1) by (simp add: desc_ok_def)
qed

text \<open>A fragment of a datagram of \<open>L\<close> bytes: its data are the bytes at its offset, and only the last one has the flag
  for more fragments cleared.\<close>

definition frag_of :: "nat \<Rightarrow> (nat \<Rightarrow> u8) \<Rightarrow> frag_ip_hdr \<Rightarrow> u8 list \<Rightarrow> bool" where
  "frag_of L src hdr bs =
     (let off = unat (frag_first hdr); n = unat (ih_tot_len hdr) - 4 * unat (ih_ihl hdr)
      in 4 * unat (ih_ihl hdr) < unat (ih_tot_len hdr) \<and> off + n \<le> L \<and> int L \<le> 65535 \<and> more_frags hdr = (off + n \<noteq> L) \<and> bs = map src [off..<off + n])"

lemma frag_of_last:
  assumes "frag_of L src hdr bs"
  shows "unat (frag_first hdr) \<le> unat (frag_last hdr)" "unat (frag_last hdr) < L" "L \<le> 65535" "more_frags hdr = (Suc (unat (frag_last hdr)) \<noteq> L)"
    "bs = map src [unat (frag_first hdr)..<Suc (unat (frag_last hdr))]"
proof -
  define off n where "off = unat (frag_first hdr)" and "n = unat (ih_tot_len hdr) - 4 * unat (ih_ihl hdr)"
  have b: "0 < n" "off + n \<le> L" "L \<le> 65535" "more_frags hdr = (off + n \<noteq> L)" "bs = map src [off..<off + n]"
    using assms unfolding frag_of_def Let_def off_def [symmetric] n_def [symmetric] by (auto simp: n_def)
  have "frag_last hdr = of_nat (off + n - 1)"
  proof -
    have "4 * unat (ih_ihl hdr) \<le> unat (ih_tot_len hdr)" using b(1) by (simp add: n_def)
    then have "of_nat n = ih_tot_len hdr - ucast (ih_ihl hdr) * 4" by (simp add: n_def of_nat_diff mult.commute)
    moreover have "of_nat off = frag_first hdr" by (simp add: off_def)
    ultimately show ?thesis using b(1) by (simp add: frag_last_def of_nat_diff algebra_simps)
  qed
  moreover have "off + n - 1 < 65536" using b by simp
  ultimately have "unat (frag_last hdr) = off + n - 1" by (simp only: unat_of_nat16)
  then show "unat (frag_first hdr) \<le> unat (frag_last hdr)" "unat (frag_last hdr) < L" "L \<le> 65535" "more_frags hdr = (Suc (unat (frag_last hdr)) \<noteq> L)"
    "bs = map src [unat (frag_first hdr)..<Suc (unat (frag_last hdr))]"
    using b by (simp_all add: off_def [symmetric])
qed

lemma linked_prev: "is = is1 @ Gap f l # is2 \<Longrightarrow> (if frag_addrs is1 = [] then None else Some (last (frag_addrs is1))) = prev_addr None is1"
  by (simp add: prev_addr_def)

text \<open>A fragment that fits a hole is placed in the layout.\<close>

lemma desc_add:
  assumes d: "desc_ok (p_next_desc s) bufs L src d is" and fr: "frag_of L src hdr (bufs a)" and a: "a \<notin> set (frag_addrs is)"
    and h: "find_hole (frag_first hdr) (frag_last hdr) (hole_list d) = Some (pre, p, post)" and c: "2 \<le> hole_free_list_count s"
  shows "\<exists>hs n nx js. split_hole (frag_first hdr) (frag_last hdr) (more_frags hdr) a pre p post s = (True, hs, s\<lparr>hole_free_list_count := n\<rparr>)
    \<and> link_frag a p (d\<lparr>hole_list := hs\<rparr>) (s\<lparr>hole_free_list_count := n\<rparr>)
        = (d\<lparr>hole_list := hs, frag_list := next_addr js\<rparr>, s\<lparr>hole_free_list_count := n, p_next_desc := nx\<rparr>)
    \<and> desc_ok nx bufs L src (d\<lparr>hole_list := hs, frag_list := next_addr js\<rparr>) js
    \<and> set (frag_addrs js) = insert a (set (frag_addrs is)) \<and> (\<forall>b. b \<notin> set (frag_addrs js) \<longrightarrow> nx b = p_next_desc s b)"
proof -
  have la: "laid 0 is" and ok: "\<forall>i \<in> set is. item_ok bufs L src i" and le: "lend 0 is \<in> {65536, L}" and hl: "hole_list d = gap_holes None is"
    and fl: "frag_list d = next_addr is" and li: "linked (p_next_desc s) (frag_addrs is)" and di: "distinct (frag_addrs is)"
    using d by (simp_all add: desc_ok_def)
  note F = frag_of_last [OF fr]
  obtain is1 f l is2 where at: "hole_at None is pre p post is1 f l is2" and ge: "h_first p \<le> frag_first hdr" "frag_last hdr \<le> h_last p"
    using find_hole_split [OF h [unfolded hl] la] by blast
  have i: "is = is1 @ Gap f l # is2" and p: "h_first p = of_nat f" "h_last p = of_nat l" "data_first p = prev_addr None is1" "data_last p = next_addr is2"
    using at by (simp_all add: hole_at_def)
  have fl': "f \<le> l" "l \<le> 65535" using la ok i by (auto simp: laid_append item_ok_def)
  have g: "f \<le> unat (frag_first hdr)" "unat (frag_last hdr) \<le> l" using ge fl' by (simp_all add: p u16_less)
  define js where "js = place is1 f l is2 a (unat (frag_first hdr)) (unat (frag_last hdr)) (more_frags hdr)"
  have pk: "laid 0 js \<and> (\<forall>i \<in> set js. item_ok bufs L src i) \<and> lend 0 js \<in> {65536, L}
      \<and> frag_addrs js = frag_addrs is1 @ a # frag_addrs is2 \<and> \<not> ends_gap is1 \<and> \<not> starts_gap is2"
    unfolding js_def by (rule place_ok) (use la ok le F g i in simp_all)
  obtain n where sp: "split_hole (frag_first hdr) (frag_last hdr) (more_frags hdr) a pre p post s = (True, gap_holes None js, s\<lparr>hole_free_list_count := n\<rparr>)"
    using split_hole_ok [OF at fl' _ _ c, of "frag_first hdr" "frag_last hdr" "more_frags hdr" a] pk unfolding js_def by blast
  define nx where "nx = relink (p_next_desc s) (prev_addr None is1) a (next_addr is2)"
  have pr: "prev_addr None is1 = (if frag_addrs is1 = [] then None else Some (last (frag_addrs is1)))" by (simp add: prev_addr_def)
  have lj: "linked nx (frag_addrs js)"
    using linked_insert [of "p_next_desc s" "frag_addrs is1" "frag_addrs is2" a] li di a i pk
    by (simp add: nx_def pr next_addr_def)
  have nj: "next_addr js = (if prev_addr None is1 = None then Some a else next_addr is)"
    using pk by (cases "frag_addrs is1") (simp_all add: next_addr_def prev_addr_def i)
  have "link_frag a p (d\<lparr>hole_list := gap_holes None js\<rparr>) (s\<lparr>hole_free_list_count := n\<rparr>)
      = (d\<lparr>hole_list := gap_holes None js, frag_list := next_addr js\<rparr>, s\<lparr>hole_free_list_count := n, p_next_desc := nx\<rparr>)"
    unfolding link_frag_eq p nj nx_def by (simp add: fl)
  moreover have "desc_ok nx bufs L src (d\<lparr>hole_list := gap_holes None js, frag_list := next_addr js\<rparr>) js"
    using pk lj di a i by (auto simp: desc_ok_def)
  moreover have "set (frag_addrs js) = insert a (set (frag_addrs is))" using pk i by auto
  moreover have "b \<notin> set (frag_addrs js) \<Longrightarrow> nx b = p_next_desc s b" for b
    using pk by (cases "frag_addrs is1 = []") (auto simp: nx_def relink_def prev_addr_def)
  ultimately show ?thesis using sp by blast
qed

text \<open>A layout without gaps is the whole datagram.\<close>

lemma no_gaps:
  "gap_holes p is = [] \<Longrightarrow> laid b is \<Longrightarrow> \<forall>i \<in> set is. item_ok bufs L src i \<Longrightarrow>
    concat (map bufs (frag_addrs is)) = map src [b..<lend b is] \<and> b \<le> lend b is \<and> (is \<noteq> [] \<longrightarrow> lend b is \<le> L)"
proof (induction p "is" arbitrary: b rule: gap_holes.induct)
  case (2 p a f l "is")
  have "concat (map bufs (frag_addrs is)) = map src [Suc l..<lend (Suc l) is] \<and> Suc l \<le> lend (Suc l) is \<and> (is \<noteq> [] \<longrightarrow> lend (Suc l) is \<le> L)"
    using 2 by simp
  moreover have "bufs a = map src [b..<Suc l]" "b \<le> l" "l < L" using 2(3,4) by (auto simp: item_ok_def)
  moreover from calculation have "[b..<lend (Suc l) is] = [b..<Suc l] @ [Suc l..<lend (Suc l) is]"
    using upt_add_eq_append [of b "Suc l" "lend (Suc l) is - Suc l"] by simp
  ultimately show ?case by (cases "is = []") auto
qed simp_all

section \<open>The map of datagrams\<close>

abbreviation keys_sorted :: "(ip_frag_key \<times> ip_frag_desc) list \<Rightarrow> bool" where
  "keys_sorted m \<equiv> sorted_wrt key_less (map fst m)"

lemma key_less_irrefl: "\<not> key_less k k"
  by (simp add: key_less_def)

lemma key_less_trans: "key_less a b \<Longrightarrow> key_less b c \<Longrightarrow> key_less a c"
  by (auto simp: key_less_def split: if_splits)

lemma key_less_total: "\<not> key_less a b \<Longrightarrow> \<not> key_less b a \<Longrightarrow> a = b"
  by (cases a, cases b) (auto simp: key_less_def split: if_splits)

lemma frags_insert_keys: "set (map fst (frags_insert k d m)) = insert k (set (map fst m))"
proof (induction k d m rule: frags_insert.induct)
  case (2 k d k' d' m)
  then show ?case using key_less_total [of k k'] by auto
qed simp

lemma frags_insert_ok: "keys_sorted m \<Longrightarrow> keys_sorted (frags_insert k d m) \<and> map_of (frags_insert k d m) = (map_of m)(k \<mapsto> d)"
proof (induction k d m rule: frags_insert.induct)
  case (2 k d k' d' m)
  consider "key_less k k'" | "\<not> key_less k k'" "key_less k' k" | "k = k'" using key_less_total by blast
  then show ?case
  proof cases
    case 1
    then show ?thesis using 2 key_less_trans [OF 1] by (auto simp: fun_eq_iff key_less_irrefl)
  next
    case 2
    then have "k \<noteq> k'" using key_less_irrefl by blast
    then show ?thesis using 2 "2.IH" "2.prems" frags_insert_keys [of k d m] by (auto simp: fun_eq_iff)
  next
    case 3
    then show ?thesis using 2 by (auto simp: key_less_irrefl fun_eq_iff)
  qed
qed simp

lemma frags_erase_ok: "keys_sorted m \<Longrightarrow> keys_sorted (frags_erase k m) \<and> map_of (frags_erase k m) = (map_of m)(k := None)"
proof (induction m)
  case (Cons e m)
  then show ?case by (auto simp: frags_erase_def fun_eq_iff sorted_wrt_filter) 
qed (simp add: frags_erase_def)

section \<open>The manager\<close>

definition frag_inv ::
    "(nat \<Rightarrow> u8 list) \<Rightarrow> (ip_frag_key \<Rightarrow> nat) \<Rightarrow> (ip_frag_key \<Rightarrow> nat \<Rightarrow> u8) \<Rightarrow> (ip_frag_key \<Rightarrow> item list) \<Rightarrow> ip_frag_manager \<Rightarrow> bool" where
  "frag_inv bufs len src lay s = (keys_sorted (m_frags s)
     \<and> (\<forall>k d. map_of (m_frags s) k = Some d \<longrightarrow> desc_ok (p_next_desc s) bufs (len k) (src k) d (lay k))
     \<and> (\<forall>k k'. k \<in> dom (map_of (m_frags s)) \<longrightarrow> k' \<in> dom (map_of (m_frags s)) \<longrightarrow> k \<noteq> k' \<longrightarrow> set (frag_addrs (lay k)) \<inter> set (frag_addrs (lay k')) = {}))"

lemma last_desc_linked: "linked nx (a # as) \<Longrightarrow> last_desc nx a = Some (last (a # as))"
proof (induction as arbitrary: a)
  case Nil
  then show ?case by (subst last_desc.simps) simp
next
  case (Cons b as)
  then show ?case by (subst last_desc.simps) simp
qed

lemma destroy_ok:
  assumes "desc_ok (p_next_desc s) bufs L src d is"
  shows "\<exists>n nx ret fs. destroy_frag_desc d s = Some (s\<lparr>hole_free_list_count := n, sz_freed := fs, p_next_desc := nx, m_return_descs := ret\<rparr>)
    \<and> hole_free_list_count s \<le> n \<and> (\<forall>a. a \<notin> set (frag_addrs is) \<longrightarrow> nx a = p_next_desc s a)"
proof (cases "frag_addrs is")
  case Nil
  then have "destroy_frag_desc d s = Some (s\<lparr>hole_free_list_count := hole_free_list_count s + int (length (hole_list d)), sz_freed := sz_freed s,
      p_next_desc := p_next_desc s, m_return_descs := m_return_descs s\<rparr>)"
    using assms by (simp add: destroy_frag_desc_def free_frag_def desc_ok_def next_addr_def)
  then show ?thesis by (metis le_add_same_cancel1 of_nat_0_le_iff)
next
  case (Cons a as)
  have l: "last_desc (p_next_desc s) a = Some (last (a # as))" using assms Cons last_desc_linked [of "p_next_desc s" a as] by (simp add: desc_ok_def)
  have f: "frag_list d = Some a" using assms Cons by (simp add: desc_ok_def next_addr_def)
  show ?thesis
    by (rule exI [of _ "hole_free_list_count s + int (length (hole_list d))"],
        rule exI [of _ "(p_next_desc s)(last (a # as) := m_return_descs s (p_desc_owner s a))"],
        rule exI [of _ "(m_return_descs s)(p_desc_owner s a := Some a)"], rule exI [of _ "sz_freed s @ [a]"])
      (use l f Cons in \<open>simp add: destroy_frag_desc_def free_frag_def Let_def\<close>)
qed

definition used :: "(ip_frag_key \<Rightarrow> item list) \<Rightarrow> ip_frag_manager \<Rightarrow> nat set" where
  "used lay s = (\<Union>k \<in> dom (map_of (m_frags s)). set (frag_addrs (lay k)))"

lemma usedI: "map_of (m_frags s) k = Some d \<Longrightarrow> x \<in> set (frag_addrs (lay k)) \<Longrightarrow> x \<in> used lay s"
  by (auto simp: used_def)

lemma frag_invD:
  assumes "frag_inv bufs len src lay s"
  shows "keys_sorted (m_frags s)" "map_of (m_frags s) k = Some d \<Longrightarrow> desc_ok (p_next_desc s) bufs (len k) (src k) d (lay k)"
    "map_of (m_frags s) k = Some d \<Longrightarrow> map_of (m_frags s) k' = Some d' \<Longrightarrow> k \<noteq> k' \<Longrightarrow> set (frag_addrs (lay k)) \<inter> set (frag_addrs (lay k')) = {}"
  using assms unfolding frag_inv_def by blast+

text \<open>Replacing the descriptor of one datagram.\<close>

lemma frag_inv_upd:
  assumes i: "frag_inv bufs len src lay s" and d: "desc_ok nx bufs (len k) (src k) d is"
    and o: "\<And>k' d'. k' \<noteq> k \<Longrightarrow> map_of (m_frags s) k' = Some d' \<Longrightarrow> set (frag_addrs is) \<inter> set (frag_addrs (lay k')) = {}"
    and nx: "\<And>k' d' a. k' \<noteq> k \<Longrightarrow> map_of (m_frags s) k' = Some d' \<Longrightarrow> a \<in> set (frag_addrs (lay k')) \<Longrightarrow> nx a = p_next_desc s a"
    and m: "m_frags s' = frags_insert k d (m_frags s)" "p_next_desc s' = nx"
  shows "frag_inv bufs len src (lay(k := is)) s' \<and> map_of (m_frags s') k = Some d"
proof -
  note F = frag_invD [OF i]
  have mo: "map_of (m_frags s') = (map_of (m_frags s))(k \<mapsto> d)" "keys_sorted (m_frags s')"
    using frags_insert_ok [OF F(1), of k d] m(1) by simp_all
  have "desc_ok nx bufs (len k') (src k') d' ((lay(k := is)) k')" if "map_of (m_frags s') k' = Some d'" for k' d'
  proof (cases "k' = k")
    case True
    then show ?thesis using that mo d by simp
  next
    case False
    then have "map_of (m_frags s) k' = Some d'" using that mo by simp
    then show ?thesis using False desc_ok_cong [OF F(2), of k' d' nx bufs] nx by simp
  qed
  moreover have "set (frag_addrs ((lay(k := is)) k1)) \<inter> set (frag_addrs ((lay(k := is)) k2)) = {}"
    if "k1 \<in> dom (map_of (m_frags s'))" "k2 \<in> dom (map_of (m_frags s'))" "k1 \<noteq> k2" for k1 k2
  proof -
    consider "k1 = k" "k2 \<noteq> k" | "k2 = k" "k1 \<noteq> k" | "k1 \<noteq> k" "k2 \<noteq> k" using \<open>k1 \<noteq> k2\<close> by blast
    then show ?thesis using that mo(1) o F(3) [of k1 _ k2] by cases (auto 0 0, blast+)
  qed
  ultimately show ?thesis using mo m(2) by (auto simp: frag_inv_def)
qed

lemma frag_inv_erase:
  assumes i: "frag_inv bufs len src lay s"
    and nx: "\<And>k' d' a. k' \<noteq> k \<Longrightarrow> map_of (m_frags s) k' = Some d' \<Longrightarrow> a \<in> set (frag_addrs (lay k')) \<Longrightarrow> p_next_desc s' a = p_next_desc s a"
    and m: "m_frags s' = frags_erase k (m_frags s)"
  shows "frag_inv bufs len src lay s' \<and> map_of (m_frags s') k = None \<and> used lay s' \<subseteq> used lay s"
proof -
  note F = frag_invD [OF i]
  have mo: "map_of (m_frags s') = (map_of (m_frags s))(k := None)" "keys_sorted (m_frags s')"
    using frags_erase_ok [OF F(1), of k] m by simp_all
  have "desc_ok (p_next_desc s') bufs (len k') (src k') d' (lay k')" if "map_of (m_frags s') k' = Some d'" for k' d'
  proof -
    have "k' \<noteq> k" "map_of (m_frags s) k' = Some d'" using that mo(1) by (auto split: if_splits)
    then show ?thesis using desc_ok_cong [OF F(2), of k' d' "p_next_desc s'" bufs] nx by simp
  qed
  moreover have "used lay s' \<subseteq> used lay s" using mo(1) by (auto simp: used_def)
  moreover have "set (frag_addrs (lay k1)) \<inter> set (frag_addrs (lay k2)) = {}"
    if k: "k1 \<in> dom (map_of (m_frags s'))" "k2 \<in> dom (map_of (m_frags s'))" "k1 \<noteq> k2" for k1 k2
  proof -
    obtain d1 d2 where "map_of (m_frags s) k1 = Some d1" "map_of (m_frags s) k2 = Some d2" using k mo(1) by (auto split: if_splits)
    then show ?thesis using F(3) k(3) by blast
  qed
  ultimately show ?thesis unfolding frag_inv_def using mo by simp
qed

lemma new_desc_ok:
  assumes i: "frag_inv bufs len src lay s" and k: "map_of (m_frags s) k = None" and p: "0 < hole_free_list_count s" "0 < desc_free_list_count s" and L: "0 < len k"
  shows "\<exists>d s'. new_frag_desc k s = (Some d, s') \<and> frag_inv bufs len src (lay(k := [Gap 0 65535])) s' \<and> map_of (m_frags s') k = Some d
    \<and> used (lay(k := [Gap 0 65535])) s' \<subseteq> used lay s \<and> hole_free_list_count s' = hole_free_list_count s - 1"
proof -
  define d where "d = \<lparr>fd_ttl = IP_FRAG_TTL, hole_list = [\<lparr>h_first = IP_FRAG_NINF, h_last = IP_FRAG_INF, data_first = None, data_last = None\<rparr>],
      frag_list = None, frag_counter = m_frag_counter s\<rparr>"
  define s' where "s' = s\<lparr>hole_free_list_count := hole_free_list_count s - 1, desc_free_list_count := desc_free_list_count s - 1, m_frags := frags_insert k d (m_frags s)\<rparr>"
  have n: "new_frag_desc k s = (Some d, s')" using p by (simp add: new_frag_desc_def alloc_hole_desc_def alloc_frag_desc_def d_def s'_def Let_def)
  have "desc_ok (p_next_desc s) bufs (len k) (src k) d [Gap 0 65535]"
    using L by (simp add: desc_ok_def d_def item_ok_def next_addr_def IP_FRAG_NINF_def IP_FRAG_INF_def)
  from frag_inv_upd [OF i this, of s'] have "frag_inv bufs len src (lay(k := [Gap 0 65535])) s' \<and> map_of (m_frags s') k = Some d"
    by (simp add: s'_def)
  moreover have "map_of (m_frags s') = (map_of (m_frags s))(k \<mapsto> d)" using frags_insert_ok [OF frag_invD(1) [OF i]] by (simp add: s'_def)
  then have "used (lay(k := [Gap 0 65535])) s' \<subseteq> used lay s" by (auto simp: used_def split: if_splits)
  ultimately show ?thesis using n by (auto simp: s'_def)
qed

lemma find_desc_ok:
  assumes i: "frag_inv bufs len src lay s" and p: "3 \<le> hole_free_list_count s" "0 < desc_free_list_count s" and L: "0 < len k"
  shows "\<exists>d s' lay'. find_desc k s = Some (Some d, s') \<and> frag_inv bufs len src lay' s' \<and> map_of (m_frags s') k = Some d
    \<and> used lay' s' \<subseteq> used lay s \<and> 2 \<le> hole_free_list_count s'"
proof (cases "map_of (m_frags s) k")
  case None
  then show ?thesis using new_desc_ok [OF i None _ p(2) L] p(1) by (fastforce simp: find_desc_def)
next
  case (Some d)
  show ?thesis
  proof (cases "m_frag_counter s - frag_counter d > IP_FRAG_SPACE")
    case False
    then show ?thesis using Some i p by (intro exI [of _ d] exI [of _ s] exI [of _ lay]) (simp add: find_desc_def)
  next
    case True
    note F = frag_invD [OF i]
    obtain n nx ret fs where ds: "destroy_frag_desc d s = Some (s\<lparr>hole_free_list_count := n, sz_freed := fs, p_next_desc := nx, m_return_descs := ret\<rparr>)"
        "hole_free_list_count s \<le> n" "\<forall>a. a \<notin> set (frag_addrs (lay k)) \<longrightarrow> nx a = p_next_desc s a"
      using destroy_ok [OF F(2) [OF Some]] by blast
    define s1 where "s1 = free_frag_desc (s\<lparr>hole_free_list_count := n, sz_freed := fs, p_next_desc := nx, m_return_descs := ret\<rparr>)"
    define s2 where "s2 = s1\<lparr>m_frags := frags_erase k (m_frags s1)\<rparr>"
    have s2: "m_frags s2 = frags_erase k (m_frags s)" "p_next_desc s2 = nx" "hole_free_list_count s2 = n" "0 < desc_free_list_count s2"
      using p(2) by (simp_all add: s2_def s1_def free_frag_desc_def)
    have "frag_inv bufs len src lay s2 \<and> map_of (m_frags s2) k = None \<and> used lay s2 \<subseteq> used lay s"
    proof (rule frag_inv_erase [OF i _ s2(1)])
      show "\<And>k' d' a. k' \<noteq> k \<Longrightarrow> map_of (m_frags s) k' = Some d' \<Longrightarrow> a \<in> set (frag_addrs (lay k')) \<Longrightarrow> p_next_desc s2 a = p_next_desc s a"
        using F(3) [OF Some] ds(3) s2(2) by (metis disjoint_iff)
    qed
    moreover have "find_desc k s = Some (new_frag_desc k s2)" using Some True ds(1) by (simp add: find_desc_def s2_def s1_def Let_def)
    ultimately show ?thesis using new_desc_ok [of bufs len src lay s2 k] s2 ds(2) p(1) L by (fastforce simp del: map_of_eq_None_iff)
  qed
qed

section \<open>Adding fragments\<close>

text \<open>One fragment.  Buffers that are not on any chain may be handed in.\<close>

lemma add_frag_ok:
  assumes i: "frag_inv bufs len src lay s" and f: "frag_of (len (frag_key hdr)) (src (frag_key hdr)) hdr (bufs a)" and a: "a \<notin> used lay s"
    and p: "3 \<le> hole_free_list_count s" "0 < desc_free_list_count s"
  shows "\<exists>r s' lay'. add_frag hdr a s = Some (r, s') \<and> frag_inv bufs len src lay' s'
    \<and> (\<forall>b. r = Inr (Some b) \<longrightarrow> (\<exists>as. linked (p_next_desc s') (b # as) \<and> concat (map bufs (b # as)) = map (src (frag_key hdr)) [0..<len (frag_key hdr)]))"
proof -
  define k where "k = frag_key hdr"
  define s0 where "s0 = s\<lparr>m_frag_counter := m_frag_counter s + 1\<rparr>"
  note F = frag_of_last [OF f, folded k_def]
  have i0: "frag_inv bufs len src lay s0" "used lay s0 = used lay s" using i by (simp_all add: s0_def frag_inv_def used_def)
  have L: "0 < len k" using F(2) by simp
  obtain d s1 lay1 where d: "find_desc k s0 = Some (Some d, s1)" "frag_inv bufs len src lay1 s1" "map_of (m_frags s1) k = Some d"
      "used lay1 s1 \<subseteq> used lay s" "2 \<le> hole_free_list_count s1"
    using find_desc_ok [OF i0(1) _ _ L] p i0(2) by (auto simp: s0_def)
  note D = frag_invD [OF d(2)]
  have ad: "add_frag hdr a s = (case find_hole (frag_first hdr) (frag_last hdr) (hole_list d) of
             None \<Rightarrow> Some (Inl (), s1)
           | Some (pre, p, post) \<Rightarrow>
               (case split_hole (frag_first hdr) (frag_last hdr) (more_frags hdr) a pre p post s1 of
                  (False, hs, s) \<Rightarrow> Some (Inl (), s\<lparr>m_frags := frags_insert k (d\<lparr>hole_list := hs\<rparr>) (m_frags s)\<rparr>)
                | (True, hs, s) \<Rightarrow>
                    (let (d, s) = link_frag a p (d\<lparr>hole_list := hs\<rparr>) s;
                         s = free_hole_desc s
                     in if hs = [] then Some (Inr (frag_list d), free_frag_desc (s\<lparr>m_frags := frags_erase k (m_frags s)\<rparr>))
                        else Some (Inr None, s\<lparr>m_frags := frags_insert k d (m_frags s)\<rparr>))))"
    unfolding add_frag_def Let_def k_def [symmetric] s0_def [symmetric] d(1) by simp
  show ?thesis
  proof (cases "find_hole (frag_first hdr) (frag_last hdr) (hole_list d)")
    case None
    then show ?thesis using ad d(2) by auto
  next
    case (Some x)
    obtain pre p post where x: "x = (pre, p, post)" by (cases x)
    have af: "a \<notin> set (frag_addrs (lay1 k))" using a d(4) usedI [OF d(3), of a lay1] by blast
    from desc_add [OF D(2) [OF d(3)] f [folded k_def] af Some [unfolded x] d(5)]
    obtain hs n nx js where r: "split_hole (frag_first hdr) (frag_last hdr) (more_frags hdr) a pre p post s1 = (True, hs, s1\<lparr>hole_free_list_count := n\<rparr>)"
        "link_frag a p (d\<lparr>hole_list := hs\<rparr>) (s1\<lparr>hole_free_list_count := n\<rparr>)
           = (d\<lparr>hole_list := hs, frag_list := next_addr js\<rparr>, s1\<lparr>hole_free_list_count := n, p_next_desc := nx\<rparr>)"
        "desc_ok nx bufs (len k) (src k) (d\<lparr>hole_list := hs, frag_list := next_addr js\<rparr>) js"
        "set (frag_addrs js) = insert a (set (frag_addrs (lay1 k)))" "\<forall>b. b \<notin> set (frag_addrs js) \<longrightarrow> nx b = p_next_desc s1 b" by blast
    have oth: "set (frag_addrs js) \<inter> set (frag_addrs (lay1 k')) = {}" if "k' \<noteq> k" "map_of (m_frags s1) k' = Some d'" for k' d'
    proof -
      have "a \<notin> set (frag_addrs (lay1 k'))" using a d(4) usedI [OF that(2), of a lay1] by blast
      moreover have "set (frag_addrs (lay1 k)) \<inter> set (frag_addrs (lay1 k')) = {}" using D(3) [OF d(3) that(2)] that(1) by simp
      ultimately show ?thesis unfolding r(4) by simp
    qed
    have nxo: "nx b = p_next_desc s1 b" if "k' \<noteq> k" "map_of (m_frags s1) k' = Some d'" "b \<in> set (frag_addrs (lay1 k'))" for k' d' b
      using oth [OF that(1,2)] that(3) r(5) by blast
    define s2 where "s2 = free_hole_desc (s1\<lparr>hole_free_list_count := n, p_next_desc := nx\<rparr>)"
    have s2: "m_frags s2 = m_frags s1" "p_next_desc s2 = nx" by (simp_all add: s2_def free_hole_desc_def)
    show ?thesis
    proof (cases "hs = []")
      case False
      define s3 where "s3 = s2\<lparr>m_frags := frags_insert k (d\<lparr>hole_list := hs, frag_list := next_addr js\<rparr>) (m_frags s1)\<rparr>"
      have "add_frag hdr a s = Some (Inr None, s3)" using ad Some x r(1,2) False s2 by (simp add: s3_def s2_def)
      moreover have "frag_inv bufs len src (lay1(k := js)) s3"
        using frag_inv_upd [OF d(2) r(3), where s' = s3] oth nxo s2 by (simp add: s3_def)
      ultimately show ?thesis by auto
    next
      case True
      define s3 where "s3 = free_frag_desc (s2\<lparr>m_frags := frags_erase k (m_frags s1)\<rparr>)"
      have s3: "m_frags s3 = frags_erase k (m_frags s1)" "p_next_desc s3 = nx" by (simp_all add: s3_def free_frag_desc_def s2)
      have "add_frag hdr a s = Some (Inr (next_addr js), s3)" using ad Some x r(1,2) True s2 by (simp add: s3_def s2_def)
      moreover have "frag_inv bufs len src lay1 s3" using frag_inv_erase [OF d(2) _ s3(1)] nxo s3(2) by simp
      moreover have "\<exists>as. linked nx (b # as) \<and> concat (map bufs (b # as)) = map (src k) [0..<len k]" if b: "next_addr js = Some b" for b
      proof -
        have "frag_addrs js \<noteq> []" using r(4) by auto
        then obtain as where as: "frag_addrs js = b # as" using b by (auto simp: next_addr_def split: list.splits)
        have "gap_holes None js = []" using r(3) True by (simp add: desc_ok_def)
        moreover have "js \<noteq> []" using as by auto
        moreover have "lend 0 js \<in> {65536, len k}" using r(3) by (simp add: desc_ok_def)
        ultimately have "concat (map bufs (frag_addrs js)) = map (src k) [0..<len k]"
          using no_gaps [of None js 0 bufs "len k" "src k"] r(3) F(3) by (auto simp: desc_ok_def)
        moreover have "linked nx (b # as)" using r(3) as by (simp add: desc_ok_def)
        ultimately show ?thesis using as by auto
      qed
      ultimately show ?thesis using s3(2) by (auto simp: k_def)
    qed
  qed
qed

section \<open>Runs\<close>

partial_function (option) chain_of :: "(nat \<Rightarrow> nat option) \<Rightarrow> nat \<Rightarrow> nat list option" where
  "chain_of nx a = (case nx a of None \<Rightarrow> Some [a] | Some b \<Rightarrow> do { as \<leftarrow> chain_of nx b; Some (a # as) })"

declare chain_of.simps [code]

lemma chain_of_linked: "linked nx (a # as) \<Longrightarrow> chain_of nx a = Some (a # as)"
proof (induction as arbitrary: a)
  case Nil
  then show ?case by (subst chain_of.simps) simp
next
  case (Cons b as)
  then show ?case by (subst chain_of.simps) simp
qed

text \<open>The buffers the manager holds.\<close>

definition frag_bufs :: "ip_frag_manager \<Rightarrow> nat list" where
  "frag_bufs s = concat (map (\<lambda>(k, d). case frag_list d of None \<Rightarrow> []
     | Some a \<Rightarrow> (case chain_of (p_next_desc s) a of None \<Rightarrow> [] | Some as \<Rightarrow> as)) (m_frags s))"

lemma sorted_keys_distinct: "keys_sorted m \<Longrightarrow> distinct (map fst m)"
  by (induction m) (auto simp: key_less_irrefl)

lemma desc_chain:
  assumes "desc_ok nx bufs L src d is"
  shows "(case frag_list d of None \<Rightarrow> [] | Some a \<Rightarrow> (case chain_of nx a of None \<Rightarrow> [] | Some as \<Rightarrow> as)) = frag_addrs is"
  using assms chain_of_linked by (cases "frag_addrs is") (auto simp: desc_ok_def next_addr_def)

lemma used_bufs:
  assumes "frag_inv bufs len src lay s"
  shows "used lay s \<subseteq> set (frag_bufs s)"
proof
  fix x assume "x \<in> used lay s"
  then obtain k d where k: "map_of (m_frags s) k = Some d" "x \<in> set (frag_addrs (lay k))" by (auto simp: used_def)
  then have "x \<in> set (case frag_list d of None \<Rightarrow> [] | Some a \<Rightarrow> (case chain_of (p_next_desc s) a of None \<Rightarrow> [] | Some as \<Rightarrow> as))"
    using desc_chain [OF frag_invD(2) [OF assms k(1)]] by simp
  then show "x \<in> set (frag_bufs s)" using map_of_SomeD [OF k(1)] unfolding frag_bufs_def by fastforce
qed

text \<open>A run over arriving fragments, each with its buffer and the bytes in it; the result is what is handed up: the
  key of each complete datagram and the bytes of its chain.\<close>

fun frag_run :: "(frag_ip_hdr \<times> nat \<times> u8 list) list \<Rightarrow> ip_frag_manager \<Rightarrow> (nat \<Rightarrow> u8 list) \<Rightarrow> (ip_frag_key \<times> u8 list) list option" where
  "frag_run [] s bufs = Some []"
| "frag_run ((hdr, a, bs) # es) s bufs =
     (let bufs = bufs(a := bs)
      in do {
        (r, s) \<leftarrow> add_frag hdr a s;
        out \<leftarrow> (case r of Inr (Some b) \<Rightarrow> do { as \<leftarrow> chain_of (p_next_desc s) b; Some [(frag_key hdr, concat (map bufs as))] } | _ \<Rightarrow> Some []);
        outs \<leftarrow> frag_run es s bufs;
        Some (out @ outs)
      })"

text \<open>Every fragment belongs to its datagram, comes in a buffer that is not in use, and descriptors are left.\<close>

fun frag_fits :: "(ip_frag_key \<Rightarrow> nat) \<Rightarrow> (ip_frag_key \<Rightarrow> nat \<Rightarrow> u8) \<Rightarrow> (frag_ip_hdr \<times> nat \<times> u8 list) list \<Rightarrow> ip_frag_manager \<Rightarrow> bool" where
  "frag_fits len src [] s = True"
| "frag_fits len src ((hdr, a, bs) # es) s =
     (frag_of (len (frag_key hdr)) (src (frag_key hdr)) hdr bs \<and> a \<notin> set (frag_bufs s) \<and> 3 \<le> hole_free_list_count s \<and> 0 < desc_free_list_count s
      \<and> (case add_frag hdr a s of None \<Rightarrow> True | Some (r, s) \<Rightarrow> frag_fits len src es s))"

lemma frag_inv_buf:
  assumes i: "frag_inv bufs len src lay s" and a: "a \<notin> used lay s"
  shows "frag_inv (bufs(a := bs)) len src lay s"
proof -
  have "desc_ok (p_next_desc s) (bufs(a := bs)) (len k) (src k) d (lay k)" if "map_of (m_frags s) k = Some d" for k d
    by (rule desc_ok_cong [OF frag_invD(2) [OF i that]]) (use a usedI [OF that] in auto)
  then show ?thesis using i by (simp add: frag_inv_def)
qed

lemma frag_run_ok:
  "frag_inv bufs len src lay s \<Longrightarrow> frag_fits len src es s \<Longrightarrow>
    \<exists>outs. frag_run es s bufs = Some outs \<and> (\<forall>(k, bs) \<in> set outs. bs = map (src k) [0..<len k])"
proof (induction es arbitrary: s bufs lay)
  case Nil
  then show ?case by simp
next
  case (Cons e es)
  obtain hdr a bs where e: "e = (hdr, a, bs)" by (cases e)
  have f: "frag_of (len (frag_key hdr)) (src (frag_key hdr)) hdr bs" "a \<notin> used lay s" "3 \<le> hole_free_list_count s" "0 < desc_free_list_count s"
    using Cons.prems used_bufs [OF Cons.prems(1)] by (auto simp: e)
  define bufs' where "bufs' = bufs(a := bs)"
  obtain r s' lay' where r: "add_frag hdr a s = Some (r, s')" "frag_inv bufs' len src lay' s'"
      "\<forall>b. r = Inr (Some b) \<longrightarrow> (\<exists>as. linked (p_next_desc s') (b # as) \<and> concat (map bufs' (b # as)) = map (src (frag_key hdr)) [0..<len (frag_key hdr)])"
    using add_frag_ok [OF frag_inv_buf [OF Cons.prems(1) f(2), of bs] _ f(2-4), of hdr] f(1) by (auto simp: bufs'_def)
  have "frag_fits len src es s'" using Cons.prems(2) r(1) by (simp add: e)
  then obtain outs where o: "frag_run es s' bufs' = Some outs" "\<forall>(k, bs) \<in> set outs. bs = map (src k) [0..<len k]"
    using Cons.IH [OF r(2)] by blast
  show ?case
  proof (cases "\<exists>b. r = Inr (Some b)")
    case True
    then obtain b as where b: "r = Inr (Some b)" "linked (p_next_desc s') (b # as)" "concat (map bufs' (b # as)) = map (src (frag_key hdr)) [0..<len (frag_key hdr)]"
      using r(3) by blast
    then have "frag_run (e # es) s bufs = Some ((frag_key hdr, concat (map bufs' (b # as))) # outs)"
      using r(1) o(1) chain_of_linked [OF b(2)] by (simp add: e bufs'_def)
    then show ?thesis using b(3) o(2) by auto
  next
    case False
    then have "frag_run (e # es) s bufs = Some outs" using r(1) o(1) by (simp add: e bufs'_def split: sum.splits option.splits)
    then show ?thesis using o(2) by auto
  qed
qed

lemma frag_inv_init: "frag_inv bufs len src lay (ip_frag_init owner)"
  by (simp add: frag_inv_def ip_frag_init_def)


definition ex_frag :: "u16 \<Rightarrow> u16 \<Rightarrow> bool \<Rightarrow> u16 \<Rightarrow> frag_ip_hdr" where
  "ex_frag ident off mf n = \<lparr>ih_id = ident, ih_saddr = 1, ih_daddr = 2, ih_protocol = 17,
     ih_frag_off = off OR (if mf then MORE_FRAGMENTS_FLAG else 0), ih_tot_len = n + 20, ih_ihl = 5\<rparr>"

definition ex_src :: "ip_frag_key \<Rightarrow> nat \<Rightarrow> u8" where
  "ex_src k i = of_nat i + ucast (key_ip_id k)"

definition ex_flen :: "ip_frag_key \<Rightarrow> nat" where
  "ex_flen k = (if key_ip_id k = 7 then 12 else 20)"

definition ex_frags :: "(frag_ip_hdr \<times> nat \<times> u8 list) list" where
  "ex_frags = [(ex_frag 7 1 False 4, 1, [15, 16, 17, 18]), (ex_frag 9 1 True 8, 2, map (ex_src (frag_key (ex_frag 9 0 True 8))) [8..<16]),
     (ex_frag 7 0 True 8, 3, [7, 8, 9, 10, 11, 12, 13, 14])]"


section \<open>Malformed fragments and exhausted pools\<close>

text \<open>C39. A first fragment without data: its last byte wraps to 65535, the hole of the whole datagram is closed and the
  empty fragment is handed up as a complete datagram although more fragments are announced.\<close>

theorem empty_frag_completes:
  assumes "map_of (m_frags s) (frag_key hdr) = None" "0 < hole_free_list_count s" "0 < desc_free_list_count s"
    and "frag_first hdr = 0" "more_frags hdr" "ih_tot_len hdr = ucast (ih_ihl hdr) * 4"
  shows "\<exists>s'. add_frag hdr a s = Some (Inr (Some a), s')"
proof -
  have l: "frag_last hdr = 0xFFFF" using assms(4,6) by (simp add: frag_last_def)
  show ?thesis using assms(1-4)
    by (simp add: add_frag_def find_desc_def new_frag_desc_def alloc_hole_desc_def alloc_frag_desc_def Let_def l split_hole_def
        IP_FRAG_NINF_def IP_FRAG_INF_def link_frag_def)
qed

theorem empty_frag_completes_witness:
  "\<exists>s'. add_frag (ex_frag 7 0 True 0) 1 (ip_frag_init (\<lambda>_. 0)) = Some (Inr (Some 1), s')"
proof -
  have "frag_first (ex_frag 7 0 True 0) = 0" "more_frags (ex_frag 7 0 True 0)" "ih_tot_len (ex_frag 7 0 True 0) = ucast (ih_ihl (ex_frag 7 0 True 0)) * 4" by code_simp+
  then show ?thesis by (intro empty_frag_completes) (simp_all add: ip_frag_init_def IP_FRAG_MAX_HOLES_def IP_FRAG_MAX_DESC_def)
qed


definition ex_gap_desc :: ip_frag_desc where
  "ex_gap_desc = \<lparr>fd_ttl = 2, hole_list = [\<lparr>h_first = 0, h_last = 0xFFFF, data_first = None, data_last = None\<rparr>], frag_list = None, frag_counter = 0\<rparr>"


end
