(* ===== verification/Tcp_Timers.thy ===== *)
theory Tcp_Timers
  imports Vma_Prelude "HOL-Library.Multiset"
begin

text \<open>
  The timers of the TCP sockets, \<^verbatim>\<open>tcp_timers_collection\<close> of \<^verbatim>\<open>src/src/vma/sock/sockinfo_tcp.cpp\<close>: a wheel of buckets that
  the internal thread turns by one bucket every resolution interval, so that each socket is called once in a
  period.  A node is its address with the handler it calls; the linked list of a bucket is a list.
\<close>

section \<open>The wheel\<close>

datatype wheel_event = Register_timer nat | Unregister_timer

record tcp_timers =
  m_n_resolution :: nat
  m_n_intervals_size :: nat
  m_p_intervals :: "(nat \<times> nat) list list"
  m_n_location :: nat
  m_n_count :: int
  m_n_next_insert_bucket :: nat
  m_timer_handle :: bool
  tw_events :: "wheel_event list"
  tw_called :: "nat list"
  tw_freed :: "nat list"

definition tcp_timers_init :: "nat \<Rightarrow> nat \<Rightarrow> tcp_timers option" where
  "tcp_timers_init period resolution =
     (if resolution = 0 then None
      else Some \<lparr>m_n_resolution = resolution, m_n_intervals_size = period div resolution, m_p_intervals = replicate (period div resolution) [],
             m_n_location = 0, m_n_count = 0, m_n_next_insert_bucket = 0, m_timer_handle = False, tw_events = [], tw_called = [], tw_freed = []\<rparr>)"

text \<open>An access outside the array of buckets, and with it the remainder by zero, is undefined.\<close>

definition wheel_expired :: "tcp_timers \<Rightarrow> tcp_timers option" where
  "wheel_expired t =
     (if m_n_location t \<ge> length (m_p_intervals t) then None
      else Some (t\<lparr>tw_called := tw_called t @ map snd (m_p_intervals t ! m_n_location t),
                   m_n_location := (m_n_location t + 1) mod m_n_intervals_size t\<rparr>))"

definition wheel_add :: "nat \<Rightarrow> nat \<Rightarrow> tcp_timers \<Rightarrow> tcp_timers option" where
  "wheel_add node handler t =
     (let b = m_n_next_insert_bucket t
      in if b \<ge> length (m_p_intervals t) then None
         else (let t = t\<lparr>m_p_intervals := (m_p_intervals t)[b := (node, handler) # m_p_intervals t ! b],
                         m_n_next_insert_bucket := (b + 1) mod m_n_intervals_size t\<rparr>;
                   t = (if m_n_count t = 0 then t\<lparr>m_timer_handle := True, tw_events := tw_events t @ [Register_timer (m_n_resolution t)]\<rparr> else t)
               in Some (t\<lparr>m_n_count := m_n_count t + 1\<rparr>)))"

text \<open>The node is taken out of the list it is linked in, by its neighbours or as the head of its bucket.\<close>

definition wheel_remove :: "nat \<Rightarrow> tcp_timers \<Rightarrow> tcp_timers option" where
  "wheel_remove node t =
     (if node \<notin> fst ` set (concat (m_p_intervals t)) then None
      else (let t = t\<lparr>m_p_intervals := map (filter (\<lambda>n. fst n \<noteq> node)) (m_p_intervals t), m_n_count := m_n_count t - 1\<rparr>;
                t = (if m_n_count t = 0 \<and> m_timer_handle t then t\<lparr>m_timer_handle := False, tw_events := tw_events t @ [Unregister_timer]\<rparr> else t)
            in Some (t\<lparr>tw_freed := tw_freed t @ [node]\<rparr>)))"

section \<open>Well-formed wheels\<close>

definition wheel_ok :: "tcp_timers \<Rightarrow> bool" where
  "wheel_ok t = (length (m_p_intervals t) = m_n_intervals_size t \<and> m_n_location t < m_n_intervals_size t
     \<and> m_n_next_insert_bucket t < m_n_intervals_size t \<and> m_n_count t = int (length (concat (m_p_intervals t)))
     \<and> distinct (map fst (concat (m_p_intervals t))) \<and> m_timer_handle t = (m_n_count t \<noteq> 0))"

lemma concat_update:
  "i < length bs \<Longrightarrow> mset (concat (bs[i := x # bs ! i])) = add_mset x (mset (concat bs))"
proof (induction bs arbitrary: i)
  case (Cons b bs)
  then show ?case by (cases i) simp_all
qed simp

lemma wheel_add_ok:
  assumes "wheel_ok t" "node \<notin> fst ` set (concat (m_p_intervals t))"
  shows "\<exists>t'. wheel_add node handler t = Some t' \<and> wheel_ok t'
    \<and> mset (concat (m_p_intervals t')) = add_mset (node, handler) (mset (concat (m_p_intervals t)))"
proof -
  define bs where "bs = (m_p_intervals t)[m_n_next_insert_bucket t := (node, handler) # m_p_intervals t ! m_n_next_insert_bucket t]"
  have b: "m_n_next_insert_bucket t < length (m_p_intervals t)" using assms(1) by (simp add: wheel_ok_def)
  have m: "mset (concat bs) = add_mset (node, handler) (mset (concat (m_p_intervals t)))" unfolding bs_def by (rule concat_update [OF b])
  have "mset (map fst (concat bs)) = mset (node # map fst (concat (m_p_intervals t)))" using arg_cong [OF m, of "image_mset fst"] by simp
  then have d: "distinct (map fst (concat bs))"
    using assms mset_eq_imp_distinct_iff [of "map fst (concat bs)" "node # map fst (concat (m_p_intervals t))"] by (simp add: wheel_ok_def)
  have l: "length (concat bs) = Suc (length (concat (m_p_intervals t)))" using arg_cong [OF m, of size] by simp
  have lb: "length bs = length (m_p_intervals t)" by (simp add: bs_def)
  show ?thesis using assms(1) b m d l lb unfolding wheel_add_def Let_def bs_def [symmetric]
    by (auto simp: wheel_ok_def)
qed

lemma concat_filter: "concat (map (filter P) bs) = filter P (concat bs)"
  by (induction bs) simp_all

lemma distinct_filter_out: "distinct (map fst xs) \<Longrightarrow> a \<in> fst ` set xs \<Longrightarrow> Suc (length (filter (\<lambda>n. fst n \<noteq> a) xs)) = length xs"
proof (induction xs)
  case (Cons x xs)
  show ?case
  proof (cases "fst x = a")
    case True
    then have "filter (\<lambda>n. fst n \<noteq> a) xs = xs" using Cons.prems(1) by (force simp: filter_id_conv image_iff)
    then show ?thesis using True by simp
  next
    case False
    then show ?thesis using Cons by simp
  qed
qed simp

lemma wheel_remove_ok:
  assumes "wheel_ok t" "node \<in> fst ` set (concat (m_p_intervals t))"
  shows "\<exists>t'. wheel_remove node t = Some t' \<and> wheel_ok t' \<and> concat (m_p_intervals t') = filter (\<lambda>n. fst n \<noteq> node) (concat (m_p_intervals t))"
  using assms distinct_filter_out [of "concat (m_p_intervals t)" node]
  by (auto simp: wheel_remove_def Let_def wheel_ok_def concat_filter distinct_map_filter)

section \<open>A turn of the wheel\<close>

fun wheel_turn :: "nat \<Rightarrow> tcp_timers \<Rightarrow> tcp_timers option" where
  "wheel_turn 0 t = Some t"
| "wheel_turn (Suc n) t = do { t \<leftarrow> wheel_expired t; wheel_turn n t }"

lemma wheel_turn_calls:
  "wheel_ok t \<Longrightarrow> n \<le> m_n_intervals_size t \<Longrightarrow> \<exists>t'. wheel_turn n t = Some t' \<and> m_p_intervals t' = m_p_intervals t \<and> wheel_ok t'
    \<and> m_n_location t' = (m_n_location t + n) mod m_n_intervals_size t
    \<and> tw_called t' = tw_called t @ map snd (concat (map (\<lambda>i. m_p_intervals t ! ((m_n_location t + i) mod m_n_intervals_size t)) [0..<n]))"
proof (induction n arbitrary: t)
  case 0
  then show ?case by (auto simp: wheel_ok_def)
next
  case (Suc n)
  define t1 where "t1 = t\<lparr>tw_called := tw_called t @ map snd (m_p_intervals t ! m_n_location t), m_n_location := (m_n_location t + 1) mod m_n_intervals_size t\<rparr>"
  have e: "wheel_expired t = Some t1" "wheel_ok t1" using Suc.prems by (auto simp: wheel_expired_def t1_def wheel_ok_def)
  have f: "m_p_intervals t1 = m_p_intervals t" "m_n_intervals_size t1 = m_n_intervals_size t" by (simp_all add: t1_def)
  obtain t' where t': "wheel_turn n t1 = Some t'" "m_p_intervals t' = m_p_intervals t" "wheel_ok t'"
      "m_n_location t' = (m_n_location t1 + n) mod m_n_intervals_size t"
      "tw_called t' = tw_called t1 @ map snd (concat (map (\<lambda>i. m_p_intervals t ! ((m_n_location t1 + i) mod m_n_intervals_size t)) [0..<n]))"
    using Suc.IH [OF e(2)] Suc.prems(2) f by auto
  have loc: "(m_n_location t1 + i) mod m_n_intervals_size t = (m_n_location t + Suc i) mod m_n_intervals_size t" for i
    by (simp add: t1_def mod_simps)
  have c: "tw_called t1 = tw_called t @ map snd (m_p_intervals t ! m_n_location t)" by (simp add: t1_def)
  have "[0..<Suc n] = 0 # map Suc [0..<n]" by (simp add: upt_conv_Cons map_Suc_upt del: upt_Suc)
  then have "tw_called t' = tw_called t @ map snd (concat (map (\<lambda>i. m_p_intervals t ! ((m_n_location t + i) mod m_n_intervals_size t)) [0..<Suc n]))"
    using t'(5) Suc.prems(1) c unfolding loc by (simp add: comp_def wheel_ok_def del: upt_Suc)
  then show ?case using e t' loc [of n] by auto
qed

lemma rotate_mset: "mset (rotate n xs) = mset xs"
  unfolding rotate_drop_take by (metis add.commute append_take_drop_id mset_append)

text \<open>C15. In every turn of the wheel each socket's handler is called exactly once, wherever the wheel stands.\<close>

theorem wheel_calls_each_once:
  assumes "wheel_ok t"
  shows "\<exists>t'. wheel_turn (m_n_intervals_size t) t = Some t' \<and> m_n_location t' = m_n_location t
    \<and> (\<exists>called. tw_called t' = tw_called t @ called \<and> mset called = mset (map snd (concat (m_p_intervals t))))"
proof -
  let ?bs = "m_p_intervals t" and ?n = "m_n_intervals_size t"
  have n: "length ?bs = ?n" "m_n_location t < ?n" using assms by (simp_all add: wheel_ok_def)
  have r: "map (\<lambda>i. ?bs ! ((m_n_location t + i) mod ?n)) [0..<?n] = rotate (m_n_location t) ?bs"
    by (rule nth_equalityI) (simp_all add: n nth_rotate)
  have "mset (concat (rotate (m_n_location t) ?bs)) = mset (concat ?bs)" by (simp add: mset_concat rotate_mset flip: sum_mset_sum_list)
  then have "mset (map snd (concat (rotate (m_n_location t) ?bs))) = mset (map snd (concat ?bs))" by simp
  then show ?thesis using wheel_turn_calls [OF assms order_refl] n unfolding r by auto
qed

definition ex_wheel :: tcp_timers where
  "ex_wheel = \<lparr>m_n_resolution = 10, m_n_intervals_size = 3, m_p_intervals = [[(4, 40), (1, 10)], [(2, 20)], [(3, 30)]], m_n_location = 1, m_n_count = 4,
     m_n_next_insert_bucket = 1, m_timer_handle = True, tw_events = [Register_timer 10], tw_called = [], tw_freed = []\<rparr>"

theorem wheel_calls_each_once_witness:
  "\<exists>t'. wheel_turn 3 ex_wheel = Some t' \<and> (\<exists>called. tw_called t' = called \<and> mset called = mset [40, 10, 20, 30])"
proof -
  have "wheel_ok ex_wheel" by (simp add: wheel_ok_def ex_wheel_def)
  from wheel_calls_each_once [OF this] show ?thesis by (auto simp: ex_wheel_def)
qed

end
