(* ===== verification/Spec2Isabelle.thy ===== *)
theory Spec2Isabelle
  imports Tlt_Stream Dctcp Lwip_Cc Tcp_Rexmit Tcp_Process Tcp_Core_Ok Tcp_Timer_Ok Tcp_Sack_Ok Tcp_Window Tcp_States
    Delta_Timer Ip_Frag_Ok Tcp_Timers
begin

text \<open>
  Verification of the TCP stack of libvma with TLT (timeout-less transport), DCTCP and SACK.

  \<^bold>\<open>The program.\<close>  libvma intercepts the socket calls of a process and runs TCP in user space, with a stack derived
  from lwIP under \<^verbatim>\<open>src/src/vma/lwip\<close>.  An application's data goes through \<^verbatim>\<open>tcp_write\<close> into a queue of segments;
  \<^verbatim>\<open>tcp_output\<close> sends what the windows allow; \<^verbatim>\<open>L3_level_tcp_input\<close> takes a packet, finds what it means for the
  connection (\<^verbatim>\<open>tcp_process\<close>) and for its queues (\<^verbatim>\<open>tcp_receive\<close>), and hands data to the socket layer through
  callbacks; \<^verbatim>\<open>tcp_tmr\<close> drives retransmission.  TLT marks some segments as important so that a loss is seen without a
  timeout, and keeps the bytes sent unmarked in a queue of blocks; DCTCP scales the reaction to congestion marks.
  The internal thread of the library runs all periodic work from a list of timers (\<^verbatim>\<open>src/src/vma/event\<close>), among it the
  wheel that calls the timer of every socket.  Below TCP and UDP, IP fragments are put together (\<^verbatim>\<open>src/src/vma/proto\<close>).

  \<^bold>\<open>Modelling.\<close>  A C struct is a record with the fields of the source, a list of segments or buffers a list, an
  integer a word of its width (\<^verbatim>\<open>s32_t\<close> and \<^verbatim>\<open>s16_t\<close> values as integers with the wrap-around written out where it
  matters).  An operation on a connection takes the control block and a record \<open>net\<close>, which logs packets sent, memory freed and
  events raised, and returns both.  \<^term>\<open>None\<close> is undefined behaviour of the C program (a null or dangling
  pointer, an index outside an array, a division by zero) or a loop that does not return.  The clock, the allocators, the
  route MTU and the configuration are fields of \<open>tcp_env\<close>; the callbacks of the socket layer are the record \<open>tcp_cbs\<close>.

  \<^bold>\<open>Theories.\<close>
  \<^item> \<open>Vma_Prelude\<close>: words, signed wrap-around, shared lemmas and collections.
  \<^item> \<open>Lwip_Seq\<close>, \<open>Lwip_Hdr\<close>: serial numbers and TCP headers (\<^verbatim>\<open>tcp_impl.h\<close>, \<^verbatim>\<open>tcp.h\<close>).  Serial comparison is shown to be
    comparison of offsets as long as the numbers lie within half of the range.
  \<^item> \<open>Lwip_Pbuf\<close>: buffer chains (\<^verbatim>\<open>pbuf.c\<close>); cutting and splitting keep the bytes.
  \<^item> \<open>Lwip_Pcb\<close>, \<open>Lwip_Net\<close>: the control block, segments, the environment and the log.
  \<^item> \<open>Tlt_Queue\<close>, \<open>Tlt_Queue_Chain\<close>, \<open>Tlt_Queue_Merge\<close>, \<open>Tlt_Queue_Add\<close>, \<open>Tlt_Queue_Remove\<close>: the 256 cells of TLT's queue with
    their link pointers (\<^verbatim>\<open>tlt.c\<close>); every operation is shown to be the operation on the set of bytes the queue covers.
  \<^item> \<open>Tlt\<close>, \<open>Tlt_Stream\<close>: marking and echoes.  A sender has at most one important segment in flight, a receiver
    echoes each at most once, and the queue is the set of unacknowledged unimportant bytes along every run.
  \<^item> \<open>Dctcp\<close>, \<open>Lwip_Cc\<close>: DCTCP and the congestion control modules (\<^verbatim>\<open>dctcp.c\<close>, \<^verbatim>\<open>cc.c\<close>, \<^verbatim>\<open>cc_lwip.c\<close>, \<^verbatim>\<open>cc_cubic.c\<close>), with the
    interface of a module as a locale interpreted on the dispatch functions.
  \<^item> \<open>Tcp_Options\<close>: building and parsing options; round trips, termination, and the inputs on which the parser fails.
  \<^item> \<open>Tcp_Out\<close>, \<open>Tcp_Write\<close>, \<open>Tcp_Write_Ok\<close>: building segments and \<^verbatim>\<open>tcp_write\<close> (\<^verbatim>\<open>tcp_out.c\<close>).  A write appends exactly the
    application's bytes to the stream of unsent bytes, or changes nothing but a flag.
  \<^item> \<open>Tcp_Output\<close>, \<open>Tcp_Output_Ok\<close>, \<open>Tcp_Output_Flow\<close>, \<open>Tcp_Output_Run\<close>, \<open>Tcp_Rexmit\<close>: sending, splitting and retransmission.  The loop
    of \<^verbatim>\<open>tcp_output\<close> ends, sends only inside the window and keeps the queued stream.
  \<^item> \<open>Tcp_Core\<close>, \<open>Tcp_Frame\<close>, \<open>Tcp_Core_Ok\<close>, \<open>Tcp_Timer_Ok\<close>, \<open>Tcp_Window\<close>: connection management, timers and the announced window
    (\<^verbatim>\<open>tcp.c\<close>).  A new control block is well formed, an abort frees every segment, TIME_WAIT ends, the announced
    window never shrinks; \<open>Tcp_Frame\<close> says which fields the sending functions leave alone.
  \<^item> \<open>Tcp_In\<close>, \<open>Tcp_Process\<close>: input (\<^verbatim>\<open>tcp_in.c\<close>) from the bytes of a packet on.
  \<^item> \<open>Tcp_Reass\<close>, \<open>Tcp_Reass_Seq\<close>, \<open>Tcp_Reass_Oos\<close>, \<open>Tcp_Reass_Ok\<close>, \<open>Tcp_Sack_Ok\<close>: reassembly.  Segments of one stream that arrive in any
    order, overlapping and repeated, deliver the bytes of the stream in order and each once; every SACK block is
    data that is held.
  \<^item> \<open>Tcp_States\<close>: an incoming segment and a close move the state along the arcs of the diagram.
  \<^item> \<open>Delta_Timer\<close>: the timers of the internal thread (\<^verbatim>\<open>event/delta_timer.cpp\<close>).  The list of differences stands for expiry
    times; a tick fires exactly the timers whose time has come.
  \<^item> \<open>Tcp_Timers\<close>: the wheel of the sockets' timers (\<^verbatim>\<open>sock/sockinfo_tcp.cpp\<close>); each socket is called once in every turn.
  \<^item> \<open>Ip_Frag\<close>, \<open>Ip_Frag_Ok\<close>: IP fragments (\<^verbatim>\<open>proto/ip_frag.cpp\<close>).  Interleaved fragments of many datagrams in any order give the
    bytes of each datagram; what happens for empty fragments and exhausted pools.

  \<^bold>\<open>Bounds and fuel.\<close>  Sequence numbers of a claim about a stream are offsets from a base below \<^term>\<open>2147483648 :: nat\<close>, half of the
  sequence space, since serial comparison has no meaning beyond; the window, at most 64 K times the scale, is part of
  it.  The fuel of \<^verbatim>\<open>tcp_output\<close> is computed from the queue (\<open>output_fuel\<close>) and shown to be enough; the option parser gets the
  option length, which is enough unless an option has length zero; the pass over the timers gets the length of the
  list, which is enough when no periodic timer has period 0.  Loops over lists are structural.

  \<^bold>\<open>Not modelled.\<close>  Code compiled out in this configuration: segmentation offload, the microsecond timers, the second SACK
  variant of \<^verbatim>\<open>tcp_in.c\<close>.  The layers around the stack: the redirection of socket calls, sockets, polling, rings,
  completion queues and device access are calls of the operating system and of the verbs library on shared memory; the
  tables of routes and neighbours are filled from netlink; the configuration parser is generated.  Concurrency: the
  stack runs under the lock of its socket and the timers in one thread, so operations are atomic in the model.
\<close>

end
